(* ===== verification/WB_Prelude.thy ===== *)
theory WB_Prelude
  imports Main "HOL-Library.Word"
begin

text \<open>
  Shared vocabulary of the development: what the Go sources of WebBou use of the language
  and of its standard library.  Machine integers, byte order (\<^verbatim>\<open>encoding/binary\<close>), points
  in time (\<^verbatim>\<open>time\<close>), maps and their iteration in an unspecified order, the read-write
  mutex of \<^verbatim>\<open>sync\<close> as one goroutine sees it, and the outcome of a call: a value, a run-time
  panic, or blocking for ever.

  Conventions.  An \<^verbatim>\<open>error\<close> is its message, so a Go result \<^verbatim>\<open>(T, error)\<close> is \<open>error + T\<close> with
  \<open>Inl\<close> for the non-nil error.  A call to \<^verbatim>\<open>time.Now()\<close> or \<^verbatim>\<open>rand.Read\<close> is an argument of the
  definition that makes it, one argument per call, in the order of the calls.  A pointer to a
  structure that is reachable through one map only is kept as the structure itself, the value
  of that map.
\<close>

unbundle bit_operations_syntax

named_theorems go_defs \<open>definitions of the language primitives, unfolded together\<close>
named_theorems wire \<open>rewrite rules for byte sequences on the wire\<close>

subsection \<open>Machine integers\<close>

type_synonym byte = "8 word"
type_synonym bytes = "byte list"
type_synonym u32 = "32 word"
type_synonym u64 = "64 word"

lemma unat_u32_less: "unat (x :: u32) < 2 ^ 32"
  using unsigned_less [of x, where ?'a = nat] by simp

text \<open>Go's \<^verbatim>\<open>int\<close> and \<^verbatim>\<open>int64\<close>: an integer reduced to the range of 64-bit two's complement.\<close>

definition i64 :: "int \<Rightarrow> int" where
  "i64 x = (x + 2 ^ 63) mod 2 ^ 64 - 2 ^ 63"

definition in_i64 :: "int \<Rightarrow> bool" where
  "in_i64 x \<longleftrightarrow> - (2 ^ 63) \<le> x \<and> x < 2 ^ 63"

lemma i64_id [simp]: "in_i64 x \<Longrightarrow> i64 x = x"
  by (simp add: i64_def in_i64_def)

lemma in_i64_i64 [simp]: "in_i64 (i64 x)"
  using pos_mod_bound [of "2 ^ 64 :: int" "x + 2 ^ 63"]
    pos_mod_sign [of "2 ^ 64 :: int" "x + 2 ^ 63"]
  unfolding i64_def in_i64_def by simp

text \<open>Division of Go truncates towards zero, and the remainder has the sign of the dividend.\<close>

definition go_quot :: "int \<Rightarrow> int \<Rightarrow> int" where
  "go_quot a b = sgn a * sgn b * (\<bar>a\<bar> div \<bar>b\<bar>)"

definition go_rem :: "int \<Rightarrow> int \<Rightarrow> int" where
  "go_rem a b = a - b * go_quot a b"

lemma go_quot_nonneg [simp]: "0 \<le> a \<Longrightarrow> 0 < b \<Longrightarrow> go_quot a b = a div b"
  by (cases "a = 0") (simp_all add: go_quot_def)

lemma go_rem_nonneg [simp]: "0 \<le> a \<Longrightarrow> 0 < b \<Longrightarrow> go_rem a b = a mod b"
  by (simp add: go_rem_def minus_mult_div_eq_mod)

subsection \<open>Errors, panics and blocking\<close>

type_synonym error = string

text \<open>
  \<open>Panic m\<close>: the goroutine panics with message \<open>m\<close>.  \<open>Blocked\<close>: the goroutine waits for
  something that only it could provide, so the call never returns.
\<close>

datatype 'a go = Ret 'a | Panic string | Blocked

fun go_bind :: "'a go \<Rightarrow> ('a \<Rightarrow> 'b go) \<Rightarrow> 'b go" where
  "go_bind (Ret x) f = f x"
| "go_bind (Panic m) f = Panic m"
| "go_bind Blocked f = Blocked"

fun returns :: "'a go \<Rightarrow> bool" where
  "returns (Ret _) = True"
| "returns _ = False"

lemma go_bind_eq_Ret: "go_bind m f = Ret y \<longleftrightarrow> (\<exists>x. m = Ret x \<and> f x = Ret y)"
  by (cases m) auto

lemma go_bind_RetE [elim]:
  assumes "go_bind m f = Ret y"
  obtains x where "m = Ret x" and "f x = Ret y"
  using assms by (auto simp: go_bind_eq_Ret)

lemma go_bind_assoc: "go_bind (go_bind m f) g = go_bind m (\<lambda>x. go_bind (f x) g)"
  by (cases m) auto

subsection \<open>Mutexes as one goroutine sees them\<close>

text \<open>
  \<^verbatim>\<open>sync.RWMutex\<close> is not reentrant.  A goroutine that asks for a lock while it holds a
  conflicting one itself waits for its own release: the call is \<open>Blocked\<close>.
\<close>

record rwmutex =
  rw_writer :: bool
  rw_readers :: nat

definition rw_free :: rwmutex where
  "rw_free = \<lparr>rw_writer = False, rw_readers = 0\<rparr>"

definition rw_Lock :: "rwmutex \<Rightarrow> rwmutex go" where
  "rw_Lock m = (if rw_writer m \<or> 0 < rw_readers m then Blocked else Ret (m\<lparr>rw_writer := True\<rparr>))"

definition rw_Unlock :: "rwmutex \<Rightarrow> rwmutex go" where
  "rw_Unlock m = (if rw_writer m then Ret (m\<lparr>rw_writer := False\<rparr>)
                  else Panic ''sync: Unlock of unlocked RWMutex'')"

definition rw_RLock :: "rwmutex \<Rightarrow> rwmutex go" where
  "rw_RLock m = (if rw_writer m then Blocked else Ret (m\<lparr>rw_readers := Suc (rw_readers m)\<rparr>))"

definition rw_RUnlock :: "rwmutex \<Rightarrow> rwmutex go" where
  "rw_RUnlock m = (if rw_readers m = 0 then Panic ''sync: RUnlock of unlocked RWMutex''
                   else Ret (m\<lparr>rw_readers := rw_readers m - 1\<rparr>))"

lemmas rw_defs [go_defs] = rw_free_def rw_Lock_def rw_Unlock_def rw_RLock_def rw_RUnlock_def

lemma rw_lock_unlock: "rw_Lock m = Ret m' \<Longrightarrow> rw_Unlock m' = Ret m"
  by (auto simp: rw_Lock_def rw_Unlock_def split: if_splits)

subsection \<open>Time\<close>

text \<open>
  A \<^verbatim>\<open>time.Time\<close> is the number of nanoseconds since the zero time (1 January of year 1), a
  \<^verbatim>\<open>time.Duration\<close> a number of nanoseconds.  \<^verbatim>\<open>Sub\<close> saturates at the range of \<^verbatim>\<open>int64\<close>, so that
  the distance of the present from the zero time is the greatest duration.
\<close>

type_synonym time = int
type_synonym duration = int

definition max_duration :: duration where "max_duration = 2 ^ 63 - 1"
definition min_duration :: duration where "min_duration = - (2 ^ 63)"

definition Second :: duration where "Second = 1000000000"
definition Minute :: duration where "Minute = 60 * Second"
definition Hour :: duration where "Hour = 60 * Minute"

definition time_zero :: time where "time_zero = 0"
definition IsZero :: "time \<Rightarrow> bool" where "IsZero t \<longleftrightarrow> t = time_zero"
definition time_Add :: "time \<Rightarrow> duration \<Rightarrow> time" where "time_Add t d = t + d"
definition time_Before :: "time \<Rightarrow> time \<Rightarrow> bool" where "time_Before t u \<longleftrightarrow> t < u"
definition time_After :: "time \<Rightarrow> time \<Rightarrow> bool" where "time_After t u \<longleftrightarrow> u < t"

definition time_Sub :: "time \<Rightarrow> time \<Rightarrow> duration" where
  "time_Sub t u = max min_duration (min max_duration (t - u))"

lemmas time_defs [go_defs] = max_duration_def min_duration_def Second_def Minute_def Hour_def
  time_zero_def IsZero_def time_Add_def time_Before_def time_After_def time_Sub_def

lemma time_Sub_self [simp]: "time_Sub t t = 0"
  by (simp add: time_defs)

lemma time_Sub_nonneg: "u \<le> t \<Longrightarrow> 0 \<le> time_Sub t u"
  by (simp add: time_defs)

lemma time_Sub_in_i64: "in_i64 (time_Sub t u)"
  by (simp add: time_defs in_i64_def)

lemma time_Sub_mono: "t \<le> t' \<Longrightarrow> time_Sub t u \<le> time_Sub t' u"
  by (simp add: time_defs)

text \<open>For a bound below the greatest duration, saturation is not seen.\<close>

lemma time_Sub_gt: "min_duration \<le> d \<Longrightarrow> d < max_duration \<Longrightarrow> d < time_Sub t u \<longleftrightarrow> d < t - u"
  by (auto simp: time_defs)

subsection \<open>Maps and their iteration\<close>

text \<open>
  A Go \<^verbatim>\<open>map\<close> is a finite map of HOL.  \<^verbatim>\<open>range\<close> visits every key once in an order the language
  leaves open: the order is an argument, and a theorem about a loop holds for every order.
\<close>

definition iteration_order :: "('k \<rightharpoonup> 'v) \<Rightarrow> 'k list \<Rightarrow> bool" where
  "iteration_order m ord \<longleftrightarrow> distinct ord \<and> set ord = dom m"

text \<open>The loop \<^verbatim>\<open>for k, v := range m { if P(v) { delete(m, k) } }\<close> that every clean-up job runs.\<close>

fun map_purge :: "('v \<Rightarrow> bool) \<Rightarrow> 'k list \<Rightarrow> ('k \<rightharpoonup> 'v) \<Rightarrow> ('k \<rightharpoonup> 'v)" where
  "map_purge P [] m = m"
| "map_purge P (k # ks) m =
     (case m k of
        None \<Rightarrow> map_purge P ks m
      | Some v \<Rightarrow> map_purge P ks (if P v then m(k := None) else m))"

definition map_keep :: "('v \<Rightarrow> bool) \<Rightarrow> ('k \<rightharpoonup> 'v) \<Rightarrow> ('k \<rightharpoonup> 'v)" where
  "map_keep Q m k = (case m k of None \<Rightarrow> None | Some v \<Rightarrow> if Q v then Some v else None)"

lemma map_purge_apply:
  "map_purge P ks m k =
     (case m k of None \<Rightarrow> None | Some v \<Rightarrow> if k \<in> set ks \<and> P v then None else Some v)"
  by (induction ks arbitrary: m) (auto split: option.splits)

text \<open>Whatever the order, the loop keeps exactly the entries that fail the test.\<close>

lemma map_purge_eq_keep:
  assumes "iteration_order m ord"
  shows "map_purge P ord m = map_keep (\<lambda>v. \<not> P v) m"
proof
  fix k
  show "map_purge P ord m k = map_keep (\<lambda>v. \<not> P v) m k"
    using assms by (auto simp: map_purge_apply map_keep_def iteration_order_def split: option.splits)
qed

lemma map_keep_eq_Some: "map_keep Q m k = Some v \<longleftrightarrow> m k = Some v \<and> Q v"
  by (auto simp: map_keep_def split: option.splits)

lemma map_keep_le: "map_keep Q m \<subseteq>\<^sub>m m"
  by (auto simp: map_le_def map_keep_def dom_def split: option.splits if_splits)

lemma finite_dom_map_keep [simp]: "finite (dom m) \<Longrightarrow> finite (dom (map_keep Q m))"
  by (rule finite_subset [of _ "dom m"]) (auto simp: map_keep_def split: option.splits)

lemma map_keep_idem [simp]: "map_keep Q (map_keep Q m) = map_keep Q m"
  by (rule ext) (simp add: map_keep_def split: option.splits)

subsection \<open>TLS configurations\<close>

text \<open>
  The fields of a \<^verbatim>\<open>tls.Config\<close> that the sources set, with the constants of \<^verbatim>\<open>crypto/tls\<close> they use.  A
  certificate is opaque.  A variable of type \<^verbatim>\<open>interface{}\<close> that should hold a \<^verbatim>\<open>*tls.Config\<close> may be nil
  or hold something else; the assertion \<^verbatim>\<open>x.(*tls.Config)\<close> then panics.
\<close>

record tls_Config =
  Certificates :: "bytes list"
  ClientAuth :: nat
  MinVersion :: "16 word"
  CipherSuites :: "16 word list"

definition VersionTLS13 :: "16 word" where "VersionTLS13 = 0x0304"
definition NoClientCert :: nat where "NoClientCert = 0"

datatype any_tls = Any_nil | Any_tls tls_Config | Any_other

fun assert_tls :: "any_tls \<Rightarrow> tls_Config go" where
  "assert_tls (Any_tls c) = Ret c"
| "assert_tls Any_nil = Panic ''interface conversion: interface {} is nil, not *tls.Config''"
| "assert_tls Any_other = Panic ''interface conversion: not *tls.Config''"

subsection \<open>Strings and bytes\<close>

text \<open>A Go string is a sequence of bytes; a conversion to \<^verbatim>\<open>[]byte\<close> copies it.\<close>

definition bytes_of_string :: "string \<Rightarrow> bytes" where
  "bytes_of_string s = map of_char s"

definition string_of_bytes :: "bytes \<Rightarrow> string" where
  "string_of_bytes bs = map (\<lambda>b. char_of (unat b)) bs"

lemma length_bytes_of_string [simp]: "length (bytes_of_string s) = length s"
  by (simp add: bytes_of_string_def)

lemma string_of_bytes_of_string [simp]: "string_of_bytes (bytes_of_string s) = s"
proof -
  have "unat (of_char c :: byte) = of_char c" for c
    using unat_of_nat [where ?'a = 8, of "of_char c"] by (simp add: of_nat_of_char)
  then show ?thesis by (simp add: string_of_bytes_def bytes_of_string_def comp_def)
qed

end
