(* ===== verification/WB_Interfaces.thy ===== *)
theory WB_Interfaces
  imports WB_Prelude
begin

text \<open>
  The interfaces of the development: each locale names the operations a client calls and the
  laws their provider promises, and proves once what follows from the laws.  The theories of
  the components interpret them on their own definitions.
\<close>

subsection \<open>Checksums as folds over the input\<close>

text \<open>
  A checksum that feeds one symbol at a time into a register.  Two registers that differ stay
  different under the same input, and inputs of at most \<open>w\<close> symbols are told apart.
\<close>

locale checksum_fold =
  fixes step :: "'s \<Rightarrow> 'a \<Rightarrow> 's"
    and w :: nat
  assumes inj_register: "step s x = step s' x \<Longrightarrow> s = s'"
    and inj_window: "length xs = length ys \<Longrightarrow> length xs \<le> w \<Longrightarrow>
      foldl step s xs = foldl step s ys \<Longrightarrow> xs = ys"
begin

lemma foldl_register_inj: "foldl step s xs = foldl step s' xs \<longleftrightarrow> s = s'"
proof (induction xs arbitrary: s s')
  case (Cons x xs)
  then show ?case using inj_register by auto
qed simp

text \<open>A burst: any change confined to \<open>w\<close> consecutive symbols changes the register.\<close>

lemma burst_detected:
  assumes "length xs = length ys" and "length xs \<le> w" and "xs \<noteq> ys"
  shows "foldl step s (pre @ xs @ post) \<noteq> foldl step s (pre @ ys @ post)"
proof
  assume "foldl step s (pre @ xs @ post) = foldl step s (pre @ ys @ post)"
  then have "foldl step (foldl step s pre) xs = foldl step (foldl step s pre) ys"
    by (simp add: foldl_register_inj)
  with assms show False using inj_window by blast
qed

end

subsection \<open>Parsers that consume a growing buffer\<close>

datatype ('a, 'f, 'e) parse_step = NeedMore | Parsed 'f "'a list" | Failed 'e

text \<open>
  The loop of a client: \<open>drain\<close> parses until more input is needed or the parser fails, and
  returns the items, the buffer that is left and the failure.  \<open>feed_chunks\<close> appends chunk
  after chunk to the buffer and drains it each time, stopping at the first failure.
\<close>

fun feed_chunks :: "('a list \<Rightarrow> 'f list \<times> 'a list \<times> 'e option) \<Rightarrow> 'a list \<Rightarrow> 'a list list \<Rightarrow>
    'f list \<times> 'a list \<times> 'e option" where
  "feed_chunks drain buf [] = ([], buf, None)"
| "feed_chunks drain buf (c # cs) =
     (case drain (buf @ c) of
        (fs, buf', Some e) \<Rightarrow> (fs, buf', Some e)
      | (fs, buf', None) \<Rightarrow>
          (case feed_chunks drain buf' cs of (gs, buf'', e) \<Rightarrow> (fs @ gs, buf'', e)))"

locale stream_parser =
  fixes parse :: "'a list \<Rightarrow> ('a, 'f, 'e) parse_step"
    and drain :: "'a list \<Rightarrow> 'f list \<times> 'a list \<times> 'e option"
  assumes parsed_extend: "parse buf = Parsed f rest \<Longrightarrow> parse (buf @ xs) = Parsed f (rest @ xs)"
    and failed_extend: "parse buf = Failed e \<Longrightarrow> parse (buf @ xs) = Failed e"
    and parsed_shrinks: "parse buf = Parsed f rest \<Longrightarrow> length rest < length buf"
    and parse_empty: "parse [] = NeedMore"
    and drain_eq: "drain buf =
      (case parse buf of
         NeedMore \<Rightarrow> ([], buf, None)
       | Failed e \<Rightarrow> ([], buf, Some e)
       | Parsed f rest \<Rightarrow> (case drain rest of (fs, buf', e) \<Rightarrow> (f # fs, buf', e)))"
begin

lemma drain_empty: "drain [] = ([], [], None)"
  by (simp add: drain_eq [of "[]"] parse_empty)

lemma drain_rest_needs_more: "drain buf = (fs, rest, None) \<Longrightarrow> parse rest = NeedMore"
proof (induction buf arbitrary: fs rest rule: length_induct)
  case (1 buf)
  show ?case
  proof (cases "parse buf")
    case (Parsed f r)
    then obtain gs where "drain r = (gs, rest, None)"
      using "1.prems" by (auto simp: drain_eq [of buf] split: prod.splits)
    then show ?thesis using "1.IH" parsed_shrinks [OF Parsed] by blast
  qed (use "1.prems" in \<open>auto simp: drain_eq [of buf]\<close>)
qed

text \<open>Draining part of the input first, and the rest after more has come, is the same.\<close>

lemma drain_append:
  "drain (buf @ xs) =
     (case drain buf of
        (fs, rest, Some e) \<Rightarrow> (fs, rest @ xs, Some e)
      | (fs, rest, None) \<Rightarrow> (case drain (rest @ xs) of (gs, rest', e) \<Rightarrow> (fs @ gs, rest', e)))"
proof (induction buf rule: length_induct)
  case (1 buf)
  show ?case
  proof (cases "parse buf")
    case NeedMore
    then show ?thesis by (simp add: drain_eq [of buf])
  next
    case (Failed e)
    then show ?thesis
      by (simp add: drain_eq [of buf] drain_eq [of "buf @ xs"] failed_extend)
  next
    case (Parsed f r)
    then have "length r < length buf" by (rule parsed_shrinks)
    with 1 Parsed show ?thesis
      by (auto simp: drain_eq [of buf] drain_eq [of "buf @ xs"] parsed_extend [OF Parsed]
          split: prod.splits option.splits)
  qed
qed

text \<open>
  How the input is cut into chunks does not matter: the items and the failure are those of the
  whole input at once, and so is the buffer that is left when nothing failed.
\<close>

lemma feed_chunks_concat:
  assumes "parse buf = NeedMore"
  shows "\<exists>tail. drain (buf @ concat cs) =
    (case feed_chunks drain buf cs of (fs, rest, e) \<Rightarrow> (fs, rest @ tail, e)) \<and>
    (snd (snd (feed_chunks drain buf cs)) = None \<longrightarrow> tail = [])"
  using assms
proof (induction cs arbitrary: buf)
  case Nil
  then show ?case by (simp add: drain_eq [of buf])
next
  case (Cons c cs)
  obtain fs rest e where d: "drain (buf @ c) = (fs, rest, e)" by (metis prod_cases3)
  have split: "drain (buf @ concat (c # cs)) = drain ((buf @ c) @ concat cs)" by simp
  show ?case
  proof (cases e)
    case (Some err)
    with d show ?thesis by (simp only: split drain_append [of "buf @ c"]) simp
  next
    case None
    with d have "parse rest = NeedMore" using drain_rest_needs_more by blast
    from Cons.IH [OF this] d None show ?thesis
      by (auto simp only: split drain_append [of "buf @ c"]) (auto split: prod.splits)
  qed
qed

corollary feed_chunks_items:
  assumes "parse buf = NeedMore"
  shows "fst (feed_chunks drain buf cs) = fst (drain (buf @ concat cs))"
    and "snd (snd (feed_chunks drain buf cs)) = snd (snd (drain (buf @ concat cs)))"
  using feed_chunks_concat [OF assms, of cs] by (cases "feed_chunks drain buf cs"; auto)+

end

subsection \<open>Labelled steps and invariants\<close>

text \<open>Runs of a component whose operations, in any order and number, are the labelled steps.\<close>

inductive run :: "('s \<Rightarrow> 'l \<Rightarrow> 's \<Rightarrow> bool) \<Rightarrow> 's \<Rightarrow> 'l list \<Rightarrow> 's \<Rightarrow> bool"
  for step :: "'s \<Rightarrow> 'l \<Rightarrow> 's \<Rightarrow> bool" where
  run_Nil: "run step s [] s"
| run_Cons: "step s l t \<Longrightarrow> run step t ls u \<Longrightarrow> run step s (l # ls) u"

inductive_cases run_NilE [elim!]: "run step s [] t"
inductive_cases run_ConsE [elim!]: "run step s (l # ls) t"

lemma run_append: "run step s (xs @ ys) u \<longleftrightarrow> (\<exists>t. run step s xs t \<and> run step t ys u)"
  by (induction xs arbitrary: s) (auto intro: run.intros, blast intro: run.intros)

lemma run_one: "step s l t \<Longrightarrow> run step s [l] t"
  by (rule run_Cons [OF _ run_Nil])

lemma run_snoc: "run step s ls t \<Longrightarrow> step t l u \<Longrightarrow> run step s (ls @ [l]) u"
  unfolding run_append using run_one [where step = step] by blast

lemma run_trans: "run step s xs t \<Longrightarrow> run step t ys u \<Longrightarrow> run step s (xs @ ys) u"
  unfolding run_append by (rule exI, rule conjI)

locale invariant_system =
  fixes step :: "'s \<Rightarrow> 'l \<Rightarrow> 's \<Rightarrow> bool"
    and inv :: "'s \<Rightarrow> bool"
  assumes inv_step: "inv s \<Longrightarrow> step s l t \<Longrightarrow> inv t"
begin

lemma inv_run: "run step s ls t \<Longrightarrow> inv s \<Longrightarrow> inv t"
  by (induction rule: run.induct) (auto intro: inv_step)

end

subsection \<open>Stores whose entries expire\<close>

text \<open>
  A store that a client reads with the time of the call, and that a background job purges.  An
  entry that has expired stays expired; a read returns the live entry or nothing and drops at
  most the expired entry it met; a purge drops exactly the expired entries.
\<close>

locale expiring_store =
  fixes entries :: "'s \<Rightarrow> ('k \<rightharpoonup> 'v)"
    and expired :: "'s \<Rightarrow> time \<Rightarrow> 'v \<Rightarrow> bool"
    and get :: "time \<Rightarrow> 'k \<Rightarrow> 's \<Rightarrow> 'v option \<times> 's"
    and purge :: "time \<Rightarrow> 'k list \<Rightarrow> 's \<Rightarrow> 's"
  assumes expired_later: "expired s t v \<Longrightarrow> t \<le> t' \<Longrightarrow> expired s t' v"
    and get_value: "fst (get t k s) =
      (case entries s k of None \<Rightarrow> None | Some v \<Rightarrow> if expired s t v then None else Some v)"
    and get_entries: "entries (snd (get t k s)) = entries s \<or>
      (entries (snd (get t k s)) = (entries s)(k := None) \<and> fst (get t k s) = None)"
    and purge_entries: "iteration_order (entries s) ord \<Longrightarrow>
      entries (purge t ord s) = map_keep (\<lambda>v. \<not> expired s t v) (entries s)"
    and get_expired: "expired (snd (get t k s)) = expired s"
    and purge_expired: "expired (purge t ord s) = expired s"
begin

text \<open>The background job cannot be seen by a reader that comes later.\<close>

lemma get_after_purge:
  assumes "iteration_order (entries s) ord" and "now \<le> t"
  shows "fst (get t k (purge now ord s)) = fst (get t k s)"
  using expired_later [OF _ assms(2)]
  by (auto simp: get_value purge_entries [OF assms(1)] purge_expired map_keep_def split: option.split)

text \<open>A read never changes what a later read of any key returns.\<close>

lemma get_after_get:
  assumes "t \<le> t'"
  shows "fst (get t' k' (snd (get t k s))) = fst (get t' k' s)"
  using get_entries [of t k s]
proof
  assume "entries (snd (get t k s)) = entries s"
  then show ?thesis by (simp add: get_value get_expired split: option.split)
next
  assume a: "entries (snd (get t k s)) = (entries s)(k := None) \<and> fst (get t k s) = None"
  then have "case entries s k of None \<Rightarrow> True | Some v \<Rightarrow> expired s t v"
    by (auto simp: get_value split: option.splits if_splits)
  with a expired_later [OF _ assms] show ?thesis
    by (auto simp: get_value get_expired split: option.splits)
qed

lemma purge_keeps_live:
  assumes "iteration_order (entries s) ord" and "entries s k = Some v" and "\<not> expired s now v"
  shows "entries (purge now ord s) k = Some v"
  using assms by (simp add: purge_entries map_keep_def)

end

end
