(* ===== verification/WB_Crc32.thy ===== *)
theory WB_Crc32
  imports WB_Interfaces
begin

text \<open>
  The standard library under the frame format: \<^verbatim>\<open>encoding/binary\<close> (big endian) and
  \<^verbatim>\<open>hash/crc32\<close> with the IEEE polynomial.  The checksum is the table-driven loop of the
  library; it is shown equal to the bitwise division of the standard, and every change
  confined to four consecutive bytes is shown to change it.
\<close>

unbundle bit_operations_syntax

subsection \<open>Big-endian 32-bit integers\<close>

definition PutUint32 :: "u32 \<Rightarrow> bytes" where
  "PutUint32 v = [ucast (drop_bit 24 v), ucast (drop_bit 16 v), ucast (drop_bit 8 v), ucast v]"

text \<open>The callers pass slices of exactly four bytes.\<close>

definition Uint32 :: "bytes \<Rightarrow> u32" where
  "Uint32 b = ucast (b ! 3) OR push_bit 8 (ucast (b ! 2)) OR push_bit 16 (ucast (b ! 1))
     OR push_bit 24 (ucast (b ! 0))"

lemma length_PutUint32 [simp, wire]: "length (PutUint32 v) = 4"
  by (simp add: PutUint32_def)

lemma Uint32_PutUint32 [simp, wire]: "Uint32 (PutUint32 v) = v"
proof (rule bit_word_eqI)
  fix n assume "n < LENGTH(32)"
  then consider "n < 8" | "8 \<le> n \<and> n < 16" | "16 \<le> n \<and> n < 24" | "24 \<le> n \<and> n < 32"
    by fastforce
  then show "bit (Uint32 (PutUint32 v)) n = bit v n"
    by cases (auto simp: Uint32_def PutUint32_def bit_simps)
qed

lemma length_4_cases: "length bs = 4 \<longleftrightarrow> (\<exists>a b c d. bs = [a, b, c, d])"
  by (auto simp: length_Suc_conv numeral_eq_Suc)

lemma PutUint32_Uint32 [wire]: "length bs = 4 \<Longrightarrow> PutUint32 (Uint32 bs) = bs"
  by (auto simp: length_4_cases Uint32_def PutUint32_def;
      rule bit_word_eqI; auto simp: bit_simps dest: bit_imp_le_length)

lemma PutUint32_inj [simp]: "PutUint32 v = PutUint32 v' \<longleftrightarrow> v = v'"
  by (metis Uint32_PutUint32)

subsection \<open>The CRC-32 register\<close>

definition crc_poly :: u32 where "crc_poly = 0xEDB88320"

definition crc_step :: "u32 \<Rightarrow> u32" where
  "crc_step r = (if bit r 0 then drop_bit 1 r XOR crc_poly else drop_bit 1 r)"

definition crc_table :: "byte \<Rightarrow> u32" where
  "crc_table i = (crc_step ^^ 8) (ucast i)"

definition crc_update :: "u32 \<Rightarrow> byte \<Rightarrow> u32" where
  "crc_update r b = crc_table (ucast r XOR b) XOR drop_bit 8 r"

definition ChecksumIEEE :: "bytes \<Rightarrow> u32" where
  "ChecksumIEEE data = NOT (foldl crc_update (NOT 0) data)"

lemma crc_poly_bit_31: "bit crc_poly 31"
  by (simp add: crc_poly_def bit_iff_odd)

lemma crc_step_xor: "crc_step (a XOR b) = crc_step a XOR crc_step b"
  by (rule bit_word_eqI) (auto simp: crc_step_def bit_simps)

lemma crc_steps_xor: "(crc_step ^^ n) (a XOR b) = (crc_step ^^ n) a XOR (crc_step ^^ n) b"
  by (induction n) (simp_all add: crc_step_xor)

text \<open>As long as the low bits are zero, a step is a shift.\<close>

lemma crc_steps_shift: "(\<And>i. i < k \<Longrightarrow> \<not> bit r i) \<Longrightarrow> (crc_step ^^ k) r = drop_bit k r"
proof (induction k arbitrary: r)
  case (Suc k)
  from Suc.prems have "crc_step r = drop_bit 1 r" by (simp add: crc_step_def)
  moreover have "(crc_step ^^ k) (drop_bit 1 r) = drop_bit k (drop_bit 1 r)"
    using Suc.prems by (intro Suc.IH) (simp add: bit_simps)
  ultimately show ?case by (simp add: funpow_swap1)
qed simp

lemma word_xor_cancel [simp]: "a XOR c = b XOR c \<longleftrightarrow> a = b" "c XOR a = c XOR b \<longleftrightarrow> a = b"
  for a b c :: "'a::len word"
  by (metis xor.assoc xor.commute xor_self_eq xor.right_neutral)+

lemma crc_step_inj: "crc_step a = crc_step b \<Longrightarrow> a = b"
proof -
  assume eq: "crc_step a = crc_step b"
  have top: "bit (crc_step r) 31 = bit r 0" for r
    using crc_poly_bit_31 by (auto simp: crc_step_def bit_simps dest: bit_imp_le_length)
  from eq top [of a] top [of b] have low: "bit a 0 = bit b 0" by simp
  with eq have "drop_bit 1 a = drop_bit 1 b"
    by (auto simp: crc_step_def split: if_splits)
  then have "bit (drop_bit 1 a) n = bit (drop_bit 1 b) n" for n by simp
  then have "bit a (Suc n) = bit b (Suc n)" for n by (simp only: bit_drop_bit_eq) simp
  with low show "a = b"
    by (metis bit_word_eqI not0_implies_Suc)
qed

lemma crc_steps_inj: "(crc_step ^^ n) a = (crc_step ^^ n) b \<Longrightarrow> a = b"
  by (induction n) (auto dest: crc_step_inj)

subsection \<open>The table computes the bitwise division\<close>

lemma crc_update_bitwise: "crc_update r b = (crc_step ^^ 8) (r XOR ucast b)"
proof -
  let ?lo = "ucast (ucast r XOR b :: byte) :: u32"
  let ?hi = "push_bit 8 (drop_bit 8 r)"
  have "r XOR ucast b = ?lo XOR ?hi"
    by (rule bit_word_eqI) (auto simp: bit_simps dest: bit_imp_le_length)
  moreover have "(crc_step ^^ 8) ?hi = drop_bit 8 ?hi"
    by (rule crc_steps_shift) (simp add: bit_simps)
  moreover have "drop_bit 8 ?hi = drop_bit 8 r"
    by (rule bit_word_eqI) (auto simp: bit_simps dest: bit_imp_le_length)
  ultimately show ?thesis by (simp add: crc_update_def crc_table_def crc_steps_xor)
qed

text \<open>Four bytes at once: the register takes them in as one little-endian word.\<close>

definition le32 :: "byte \<Rightarrow> byte \<Rightarrow> byte \<Rightarrow> byte \<Rightarrow> u32" where
  "le32 a b c d = ucast a XOR push_bit 8 (ucast b) XOR push_bit 16 (ucast c) XOR push_bit 24 (ucast d)"

lemma crc_steps_push:
  assumes "k \<le> n"
  shows "(crc_step ^^ k) (push_bit n (ucast (b :: byte))) = drop_bit k (push_bit n (ucast b))"
  using assms by (intro crc_steps_shift) (simp add: bit_simps)

lemma drop_push_ucast:
  assumes "k + 8 \<le> 32"
  shows "drop_bit k (push_bit k (ucast (b :: byte)) :: u32) = ucast b"
  using assms by (intro bit_word_eqI) (auto simp: bit_simps dest: bit_imp_le_length)

lemma crc_update4:
  "foldl crc_update r [a, b, c, d] = (crc_step ^^ 32) (r XOR le32 a b c d)"
proof -
  let ?S = "\<lambda>n. crc_step ^^ n"
  have S: "?S 8 (?S n x) = ?S (n + 8) x" for n x 
    by (simp add: funpow_add [of 8 n] add.commute [of n 8])
  have one: "?S 8 (?S n x XOR ucast y) = ?S (n + 8) (x XOR push_bit n (ucast y))"
    if "n + 8 \<le> 32" for n x and y :: byte
    using that by (simp add: crc_steps_xor crc_steps_push [of n n] drop_push_ucast
        flip: S)
  show ?thesis
    using one [of 0 r a] one [of 8 "r XOR ucast a" b]
      one [of 16 "r XOR ucast a XOR push_bit 8 (ucast b)" c]
      one [of 24 "r XOR ucast a XOR push_bit 8 (ucast b) XOR push_bit 16 (ucast c)" d]
    by (simp add: crc_update_bitwise le32_def xor.assoc)
qed

lemma le32_inj: "le32 a b c d = le32 a' b' c' d' \<longleftrightarrow> a = a' \<and> b = b' \<and> c = c' \<and> d = d'"
proof
  assume eq: "le32 a b c d = le32 a' b' c' d'"
  have part: "ucast (drop_bit 0 (le32 a b c d)) = a" "ucast (drop_bit 8 (le32 a b c d)) = b"
    "ucast (drop_bit 16 (le32 a b c d)) = c" "ucast (drop_bit 24 (le32 a b c d)) = d"
    for a b c d :: byte
    unfolding le32_def
    by (rule bit_word_eqI; auto simp: bit_simps dest: bit_imp_le_length)+
  from eq show "a = a' \<and> b = b' \<and> c = c' \<and> d = d'"
    using part by metis
qed simp

lemma crc_update_inj_register: "crc_update r b = crc_update r' b \<Longrightarrow> r = r'"
  by (auto simp: crc_update_bitwise dest: crc_steps_inj)

lemma foldl_crc_inj_register: "foldl crc_update r xs = foldl crc_update r' xs \<Longrightarrow> r = r'"
  by (induction xs arbitrary: r r') (auto dest: crc_update_inj_register)

lemma crc_inj_window:
  assumes len: "length xs = length ys" "length xs \<le> 4"
    and eq: "foldl crc_update r xs = foldl crc_update r ys"
  shows "xs = ys"
proof -
  define pad :: bytes where "pad = replicate (4 - length xs) 0"
  from len have "length (xs @ pad) = 4" "length (ys @ pad) = 4" by (simp_all add: pad_def)
  then obtain a b c d a' b' c' d'
    where xs: "xs @ pad = [a, b, c, d]" and ys: "ys @ pad = [a', b', c', d']"
    by (metis length_4_cases)
  from eq have "foldl crc_update r (xs @ pad) = foldl crc_update r (ys @ pad)" by simp
  then have "xs @ pad = ys @ pad"
    unfolding xs ys crc_update4 by (auto dest!: crc_steps_inj simp: le32_inj)
  then show ?thesis by simp
qed

interpretation crc: checksum_fold crc_update 4
  by unfold_locales (blast intro: crc_update_inj_register, rule crc_inj_window)

lemma ChecksumIEEE_burst:
  assumes "length xs = length ys" and "length xs \<le> 4" and "xs \<noteq> ys"
  shows "ChecksumIEEE (pre @ xs @ post) \<noteq> ChecksumIEEE (pre @ ys @ post)"
  unfolding ChecksumIEEE_def using crc.burst_detected [OF assms] by (metis bit.double_compl)

text \<open>Evaluation of the register on numerals, one step at a time.\<close>

lemma crc_step_numeral:
  "crc_step 0 = 0" "crc_step 1 = 0xEDB88320"
  "crc_step (numeral n) = (if bit (numeral n :: u32) 0 then drop_bit 1 (numeral n) XOR 0xEDB88320
                           else drop_bit 1 (numeral n))"
  by (simp_all add: crc_step_def crc_poly_def)

lemma crc_update_unrolled:
  "crc_update r b = crc_step (crc_step (crc_step (crc_step (crc_step (crc_step (crc_step
     (crc_step (r XOR ucast b))))))))"
  by (simp add: crc_update_bitwise numeral_eq_Suc)

lemma crc_start: "NOT 0 = (0xFFFFFFFF :: u32)"
  by simp

lemmas crc_eval = ChecksumIEEE_def crc_start crc_update_unrolled crc_step_numeral

end
