(* ===== verification/WB_Protocol.thy ===== *)
theory WB_Protocol
  imports WB_Crc32
begin

text \<open>
  The wire format (\<^verbatim>\<open>server/webbou/protocol.go\<close>): the frame, its checksum, validation,
  serialisation and parsing, and the reader that cuts a byte stream into frames.
\<close>

unbundle bit_operations_syntax

subsection \<open>Constants\<close>

definition MagicByte :: byte where "MagicByte = 0xB0"
definition Version :: byte where "Version = 0x01"
definition HeaderSize :: nat where "HeaderSize = 16"

definition FrameData :: byte where "FrameData = 0x01"
definition FramePing :: byte where "FramePing = 0x02"
definition FramePong :: byte where "FramePong = 0x03"
definition FrameStreamOpen :: byte where "FrameStreamOpen = 0x04"
definition FrameStreamClose :: byte where "FrameStreamClose = 0x05"
definition FrameAck :: byte where "FrameAck = 0x06"
definition FrameReset :: byte where "FrameReset = 0x07"
definition FrameSettings :: byte where "FrameSettings = 0x08"
definition FrameHello :: byte where "FrameHello = 0x10"
definition FrameHelloAck :: byte where "FrameHelloAck = 0x11"
definition FrameHelloDone :: byte where "FrameHelloDone = 0x12"
definition FrameMultiPath :: byte where "FrameMultiPath = 0x20"
definition FramePathClose :: byte where "FramePathClose = 0x21"
definition FrameFlowControl :: byte where "FrameFlowControl = 0x30"
definition FrameMaxData :: byte where "FrameMaxData = 0x31"
definition FrameBlocked :: byte where "FrameBlocked = 0x32"
definition FrameAck2 :: byte where "FrameAck2 = 0x33"

definition FlagCompressed :: byte where "FlagCompressed = 0x01"
definition FlagEncrypted :: byte where "FlagEncrypted = 0x02"
definition FlagReliable :: byte where "FlagReliable = 0x04"
definition FlagPriorityHigh :: byte where "FlagPriorityHigh = 0x08"
definition FlagFragmented :: byte where "FlagFragmented = 0x10"
definition FlagFinal :: byte where "FlagFinal = 0x20"
definition FlagZeroRTT :: byte where "FlagZeroRTT = 0x40"
definition FlagMultiPath :: byte where "FlagMultiPath = 0x80"

lemmas header_defs = MagicByte_def Version_def HeaderSize_def

lemmas frame_type_defs = FrameData_def FramePing_def FramePong_def FrameStreamOpen_def
  FrameStreamClose_def FrameAck_def FrameReset_def FrameSettings_def FrameHello_def
  FrameHelloAck_def FrameHelloDone_def FrameMultiPath_def FramePathClose_def
  FrameFlowControl_def FrameMaxData_def FrameBlocked_def FrameAck2_def

lemmas flag_defs = FlagCompressed_def FlagEncrypted_def FlagReliable_def FlagPriorityHigh_def
  FlagFragmented_def FlagFinal_def FlagZeroRTT_def FlagMultiPath_def

subsection \<open>Frames\<close>

record Frame =
  fMagic :: byte
  fVersion :: byte
  fType :: byte
  fFlags :: byte
  fStreamID :: u32
  fLength :: u32
  fChecksum :: u32
  fPayload :: bytes

definition calculateChecksum :: "Frame \<Rightarrow> u32" where
  "calculateChecksum f = ChecksumIEEE
     ([fMagic f, fVersion f, fType f, fFlags f] @ PutUint32 (fStreamID f) @ PutUint32 (fLength f)
      @ fPayload f)"

definition NewFrame :: "byte \<Rightarrow> u32 \<Rightarrow> bytes \<Rightarrow> Frame" where
  "NewFrame frameType streamID payload =
     (let frame = \<lparr>fMagic = MagicByte, fVersion = Version, fType = frameType, fFlags = 0,
                   fStreamID = streamID, fLength = of_nat (length payload), fChecksum = 0,
                   fPayload = payload\<rparr>
      in frame\<lparr>fChecksum := calculateChecksum frame\<rparr>)"

definition SetFlag :: "Frame \<Rightarrow> byte \<Rightarrow> Frame" where
  "SetFlag f flag = f\<lparr>fFlags := fFlags f OR flag\<rparr>"

definition HasFlag :: "Frame \<Rightarrow> byte \<Rightarrow> bool" where
  "HasFlag f flag \<longleftrightarrow> fFlags f AND flag \<noteq> 0"

text \<open>\<open>None\<close> is the nil error.\<close>

definition Validate :: "Frame \<Rightarrow> error option" where
  "Validate f =
     (if fMagic f \<noteq> MagicByte then Some ''invalid magic byte''
      else if fVersion f \<noteq> Version then Some ''unsupported version''
      else if fLength f \<noteq> of_nat (length (fPayload f)) then Some ''length mismatch''
      else if fChecksum f \<noteq> calculateChecksum f then Some ''checksum mismatch''
      else None)"

definition Marshal :: "Frame \<Rightarrow> bytes" where
  "Marshal f = [fMagic f, fVersion f, fType f, fFlags f] @ PutUint32 (fStreamID f)
     @ PutUint32 (fLength f) @ PutUint32 (fChecksum f) @ fPayload f"

text \<open>
  \<^verbatim>\<open>data[lo:hi]\<close>.  Go checks \<open>hi\<close> against the capacity, here it is checked against the length:
  the only call has \<open>hi\<close> within the length or \<open>hi < lo\<close>, where both checks agree.
\<close>

definition slice :: "'a list \<Rightarrow> nat \<Rightarrow> nat \<Rightarrow> 'a list go" where
  "slice xs lo hi =
     (if lo \<le> hi \<and> hi \<le> length xs then Ret (take (hi - lo) (drop lo xs))
      else Panic ''slice bounds out of range'')"

text \<open>
  The upper bound of the payload slice, \<^verbatim>\<open>HeaderSize+frame.Length\<close>, is computed in \<^verbatim>\<open>uint32\<close>
  and wraps around.
\<close>

definition UnmarshalFrame :: "bytes \<Rightarrow> (error + Frame) go" where
  "UnmarshalFrame data =
     (if length data < HeaderSize then Ret (Inl ''data too short'')
      else
        let frame = \<lparr>fMagic = data ! 0, fVersion = data ! 1, fType = data ! 2, fFlags = data ! 3,
                     fStreamID = Uint32 (take 4 (drop 4 data)),
                     fLength = Uint32 (take 4 (drop 8 data)),
                     fChecksum = Uint32 (take 4 (drop 12 data)), fPayload = []\<rparr>
        in if length data < HeaderSize + unat (fLength frame) then Ret (Inl ''incomplete frame'')
           else go_bind (slice data HeaderSize (unat (of_nat HeaderSize + fLength frame)))
             (\<lambda>payload.
                let frame = frame\<lparr>fPayload := payload\<rparr>
                in case Validate frame of Some err \<Rightarrow> Ret (Inl err) | None \<Rightarrow> Ret (Inr frame)))"

subsection \<open>The frame reader\<close>

record FrameReader =
  fr_buffer :: bytes
  fr_maxLength :: u32

definition NewFrameReader :: "int \<Rightarrow> FrameReader" where
  "NewFrameReader maxFrameSize =
     (let mx = of_int maxFrameSize :: u32; mx = (if mx = 0 then 65536 else mx)
      in \<lparr>fr_buffer = [], fr_maxLength = mx\<rparr>)"

definition Feed :: "FrameReader \<Rightarrow> bytes \<Rightarrow> FrameReader" where
  "Feed fr data = fr\<lparr>fr_buffer := fr_buffer fr @ data\<rparr>"

text \<open>\<open>Inr None\<close> is the pair of a nil frame and a nil error: more data is needed.\<close>

definition ReadFrame :: "FrameReader \<Rightarrow> ((error + Frame option) \<times> FrameReader) go" where
  "ReadFrame fr =
     (if length (fr_buffer fr) < HeaderSize then Ret (Inr None, fr)
      else
        let length' = Uint32 (take 4 (drop 8 (fr_buffer fr)))
        in if fr_maxLength fr > 0 \<and> length' > fr_maxLength fr
           then Ret (Inl ''frame too large'', fr)
           else
             let totalSize = HeaderSize + unat length'
             in if length (fr_buffer fr) < totalSize then Ret (Inr None, fr)
                else go_bind (UnmarshalFrame (take totalSize (fr_buffer fr)))
                  (\<lambda>r. case r of
                         Inl err \<Rightarrow> Ret (Inl err, fr)
                       | Inr frame \<Rightarrow>
                           Ret (Inr (Some frame),
                                fr\<lparr>fr_buffer := drop totalSize (fr_buffer fr)\<rparr>)))"

text \<open>
  The inner loop of the connection handlers, with the frames collected: read until the reader
  has no complete frame or stops with an error or a panic.
\<close>

function read_loop :: "FrameReader \<Rightarrow> Frame list \<times> FrameReader \<times> error go option" where
  "read_loop fr =
     (case ReadFrame fr of
        Ret (Inl err, fr') \<Rightarrow> ([], fr', Some (Ret err))
      | Ret (Inr None, fr') \<Rightarrow> ([], fr', None)
      | Ret (Inr (Some frame), fr') \<Rightarrow>
          (case read_loop fr' of (fs, fr'', e) \<Rightarrow> (frame # fs, fr'', e))
      | Panic m \<Rightarrow> ([], fr, Some (Panic m))
      | Blocked \<Rightarrow> ([], fr, Some Blocked))"
  by pat_completeness auto

definition length_field :: "bytes \<Rightarrow> u32" where
  "length_field buf = Uint32 (take 4 (drop 8 buf))"

abbreviation total_size :: "bytes \<Rightarrow> nat" where
  "total_size buf \<equiv> HeaderSize + unat (length_field buf)"

lemma ReadFrame_consumes:
  "ReadFrame fr = Ret (Inr (Some f), fr') \<Longrightarrow>
     fr' = fr\<lparr>fr_buffer := drop (total_size (fr_buffer fr)) (fr_buffer fr)\<rparr> \<and>
     total_size (fr_buffer fr) \<le> length (fr_buffer fr) \<and>
     UnmarshalFrame (take (total_size (fr_buffer fr)) (fr_buffer fr)) = Ret (Inr f)"
  by (auto simp: ReadFrame_def Let_def length_field_def elim!: go_bind_RetE split: if_split_asm sum.split_asm)

termination read_loop
  by (relation "measure (\<lambda>fr. length (fr_buffer fr))")
     (auto dest!: ReadFrame_consumes simp: HeaderSize_def)

declare read_loop.simps [simp del]

text \<open>The outer loop: feed a chunk, run the inner loop, stop at the first failure.\<close>

fun feed_read :: "FrameReader \<Rightarrow> bytes list \<Rightarrow> Frame list \<times> FrameReader \<times> error go option" where
  "feed_read fr [] = ([], fr, None)"
| "feed_read fr (c # cs) =
     (case read_loop (Feed fr c) of
        (fs, fr', Some e) \<Rightarrow> (fs, fr', Some e)
      | (fs, fr', None) \<Rightarrow> (case feed_read fr' cs of (gs, fr'', e) \<Rightarrow> (fs @ gs, fr'', e)))"

subsection \<open>Validation\<close>

lemma Validate_eq_None: "Validate f = None \<longleftrightarrow>
    fMagic f = MagicByte \<and> fVersion f = Version \<and> fLength f = of_nat (length (fPayload f)) \<and>
    fChecksum f = calculateChecksum f"
  by (auto simp: Validate_def)

lemma calculateChecksum_update [simp]:
  "calculateChecksum (f\<lparr>fChecksum := c\<rparr>) = calculateChecksum f"
  by (simp add: calculateChecksum_def)

lemma Validate_NewFrame [simp]: "Validate (NewFrame t s p) = None"
  by (simp add: Validate_eq_None NewFrame_def calculateChecksum_def Let_def)

lemma NewFrame_fields [simp]:
  "fType (NewFrame t s p) = t" "fFlags (NewFrame t s p) = 0" "fStreamID (NewFrame t s p) = s"
  "fPayload (NewFrame t s p) = p" "fLength (NewFrame t s p) = of_nat (length p)"
  by (simp_all add: NewFrame_def Let_def)

text \<open>The length of a valid frame, where it fits the field.\<close>

lemma Validate_length:
  assumes "Validate f = None" and "length (fPayload f) < 2 ^ 32"
  shows "unat (fLength f) = length (fPayload f)"
  using assms by (simp add: Validate_eq_None unat_of_nat)

subsection \<open>Serialisation\<close>

lemma length_Marshal [simp]: "length (Marshal f) = HeaderSize + length (fPayload f)"
  by (simp add: Marshal_def HeaderSize_def)

lemma Marshal_fields [wire]:
  "Marshal f ! 0 = fMagic f" "Marshal f ! 1 = fVersion f" "Marshal f ! Suc 0 = fVersion f"
  "Marshal f ! 2 = fType f"
  "Marshal f ! 3 = fFlags f" "take 4 (drop 4 (Marshal f)) = PutUint32 (fStreamID f)"
  "take 4 (drop 8 (Marshal f)) = PutUint32 (fLength f)"
  "take 4 (drop 12 (Marshal f)) = PutUint32 (fChecksum f)"
  "drop 16 (Marshal f) = fPayload f"
  by (simp_all add: Marshal_def numeral_eq_Suc PutUint32_def)

lemma length_field_Marshal [wire]: "length_field (Marshal f) = fLength f"
  by (simp add: length_field_def wire)

text \<open>Every sequence of at least 16 bytes is the serialisation of its fields.\<close>

definition raw_frame :: "bytes \<Rightarrow> Frame" where
  "raw_frame data = \<lparr>fMagic = data ! 0, fVersion = data ! 1, fType = data ! 2, fFlags = data ! 3,
     fStreamID = Uint32 (take 4 (drop 4 data)), fLength = Uint32 (take 4 (drop 8 data)),
     fChecksum = Uint32 (take 4 (drop 12 data)), fPayload = drop 16 data\<rparr>"

lemma raw_frame_fields [simp]:
  "fLength (raw_frame data) = length_field data" "fPayload (raw_frame data) = drop 16 data"
  by (simp_all add: raw_frame_def length_field_def)

lemma Marshal_raw_frame:
  assumes "HeaderSize \<le> length data"
  shows "Marshal (raw_frame data) = data"
proof -
  have four: "take 4 (drop n data) = PutUint32 (Uint32 (take 4 (drop n data)))" if "n \<le> 12" for n
    using assms that by (simp add: wire HeaderSize_def)
  have "data = take 4 data @ take 4 (drop 4 data) @ take 4 (drop 8 data) @ take 4 (drop 12 data)
      @ drop 16 data"
    using append_take_drop_id [of 4 data] append_take_drop_id [of 4 "drop 4 data"]
      append_take_drop_id [of 4 "drop 8 data"] append_take_drop_id [of 4 "drop 12 data"]
    by (simp add: drop_drop)
  moreover have "take 4 data = [data ! 0, data ! 1, data ! 2, data ! 3]"
    using assms by (intro nth_equalityI) (auto simp: HeaderSize_def less_Suc_eq numeral_eq_Suc)
  ultimately show ?thesis
    using four [of 4] four [of 8] four [of 12] by (simp add: Marshal_def raw_frame_def)
qed

subsection \<open>Parsing\<close>

text \<open>
  What the parser makes of the serialisation of arbitrary fields \<open>g\<close>, whose payload part may
  be longer or shorter than its length field says.
\<close>

definition cut_payload :: "Frame \<Rightarrow> Frame" where
  "cut_payload g = g\<lparr>fPayload := take (unat (fLength g)) (fPayload g)\<rparr>"

lemma cut_payload_fields [simp]:
  "fMagic (cut_payload g) = fMagic g" "fVersion (cut_payload g) = fVersion g"
  "fType (cut_payload g) = fType g" "fFlags (cut_payload g) = fFlags g"
  "fStreamID (cut_payload g) = fStreamID g" "fLength (cut_payload g) = fLength g"
  "fChecksum (cut_payload g) = fChecksum g"
  "fPayload (cut_payload g) = take (unat (fLength g)) (fPayload g)"
  by (simp_all add: cut_payload_def)

lemma cut_payload_id: "unat (fLength g) = length (fPayload g) \<Longrightarrow> cut_payload g = g"
  by (simp add: cut_payload_def)

lemma unat_header_plus:
  "unat (of_nat HeaderSize + n :: u32) =
     (if unat n < 2 ^ 32 - 16 then HeaderSize + unat n else unat n - (2 ^ 32 - 16))"
  unfolding HeaderSize_def by unat_arith auto

lemma slice_payload:
  assumes "unat (fLength g) \<le> length (fPayload g)"
  shows "slice (Marshal g) HeaderSize (unat (of_nat HeaderSize + fLength g)) =
    (if 2 ^ 32 - 16 \<le> unat (fLength g) then Panic ''slice bounds out of range''
     else Ret (take (unat (fLength g)) (fPayload g)))"
proof -
  have "drop HeaderSize (Marshal g) = fPayload g" by (simp add: wire HeaderSize_def)
  moreover have "\<not> HeaderSize \<le> unat (fLength g) - (2 ^ 32 - 16)"
    using unat_u32_less [of "fLength g"] by (simp add: HeaderSize_def)
  ultimately show ?thesis
    using assms unfolding slice_def unat_header_plus by (simp add: not_le)
qed

lemma UnmarshalFrame_Marshal:
  "UnmarshalFrame (Marshal g) =
     (if length (fPayload g) < unat (fLength g) then Ret (Inl ''incomplete frame'')
      else if 2 ^ 32 - 16 \<le> unat (fLength g) then Panic ''slice bounds out of range''
      else case Validate (cut_payload g) of
             Some err \<Rightarrow> Ret (Inl err) | None \<Rightarrow> Ret (Inr (cut_payload g)))"
proof -
  have cut: "\<lparr>fMagic = fMagic g, fVersion = fVersion g, fType = fType g, fFlags = fFlags g,
      fStreamID = fStreamID g, fLength = fLength g, fChecksum = fChecksum g,
      fPayload = take (unat (fLength g)) (fPayload g)\<rparr> = cut_payload g"
    by (cases g) (simp add: cut_payload_def)
  show ?thesis
    by (simp add: UnmarshalFrame_def Let_def wire slice_payload cut del: of_nat_numeral
        split: option.split)
qed

text \<open>The parser returns, and panics only for a length field close to the top of its range.\<close>

lemma UnmarshalFrame_cases:
  "UnmarshalFrame data =
     (if length data < HeaderSize then Ret (Inl ''data too short'')
      else if length data < total_size data then Ret (Inl ''incomplete frame'')
      else if 2 ^ 32 \<le> total_size data then Panic ''slice bounds out of range''
      else case Validate (cut_payload (raw_frame data)) of
             Some err \<Rightarrow> Ret (Inl err) | None \<Rightarrow> Ret (Inr (cut_payload (raw_frame data))))"
proof (cases "length data < HeaderSize")
  case True
  then show ?thesis by (simp add: UnmarshalFrame_def)
next
  case False
  then have m: "Marshal (raw_frame data) = data" by (simp add: Marshal_raw_frame)
  have f: "fLength (raw_frame data) = length_field data"
    "length (fPayload (raw_frame data)) = length data - HeaderSize"
    by (simp_all add: raw_frame_def length_field_def HeaderSize_def)
  from False show ?thesis
    unfolding UnmarshalFrame_Marshal [of "raw_frame data", unfolded m] f
    by (auto simp: HeaderSize_def)
qed

lemma cut_payload_append:
  assumes "unat (fLength g) \<le> length (fPayload g)"
  shows "cut_payload (g\<lparr>fPayload := fPayload g @ xs\<rparr>) = cut_payload g"
  using assms by (simp add: cut_payload_def)

lemma Marshal_append: "Marshal g @ xs = Marshal (g\<lparr>fPayload := fPayload g @ xs\<rparr>)"
  by (simp add: Marshal_def)

text \<open>A valid frame is parsed back, whatever follows it.\<close>

lemma UnmarshalFrame_Marshal_append:
  assumes "Validate f = None" and "length (fPayload f) < 2 ^ 32 - 16"
  shows "UnmarshalFrame (Marshal f @ xs) = Ret (Inr f)"
proof -
  have len: "unat (fLength f) = length (fPayload f)" using assms by (simp add: Validate_length)
  then show ?thesis
    using assms by (simp add: Marshal_append UnmarshalFrame_Marshal cut_payload_append cut_payload_id)
qed

text \<open>What the parser accepts begins with the serialisation of the frame it returns.\<close>

lemma UnmarshalFrame_accepts:
  assumes "UnmarshalFrame data = Ret (Inr f)"
  shows "Validate f = None \<and> unat (fLength f) = length (fPayload f) \<and>
    length (fPayload f) < 2 ^ 32 - 16 \<and> (\<exists>xs. data = Marshal f @ xs)"
proof -
  from assms have h: "HeaderSize \<le> length data" and t: "total_size data \<le> length data"
    and w: "total_size data < 2 ^ 32" and v: "Validate f = None" and f: "f = cut_payload (raw_frame data)"
    by (auto simp: UnmarshalFrame_cases split: if_split_asm option.split_asm)
  let ?n = "unat (length_field data)"
  from f have fl: "fLength f = length_field data"
    and fp: "fPayload f = take ?n (drop 16 data)" by (simp_all add: raw_frame_def length_field_def)
  have "data = Marshal f @ drop (total_size data) data"
  proof -
    have "raw_frame data = f\<lparr>fPayload := fPayload f @ drop (total_size data) data\<rparr>"
      by (simp add: f cut_payload_def raw_frame_def HeaderSize_def length_field_def
          add.commute [of 16] flip: drop_drop)
    then show ?thesis using Marshal_raw_frame [OF h] by (simp add: Marshal_append)
  qed
  moreover have "length (fPayload f) = ?n" using t by (simp add: fp HeaderSize_def)
  ultimately show ?thesis using v w by (auto simp: fl HeaderSize_def)
qed

subsection \<open>Corruption on the wire\<close>

text \<open>The bytes under the checksum: everything but the checksum field itself.\<close>

definition covered :: "bytes \<Rightarrow> bytes" where
  "covered data = take 12 data @ drop 16 data"

lemma calculateChecksum_covered: "calculateChecksum f = ChecksumIEEE (covered (Marshal f))"
  by (simp add: covered_def calculateChecksum_def Marshal_def PutUint32_def)

lemma Validate_covered:
  "Validate f = None \<Longrightarrow> take 4 (drop 12 (Marshal f)) = PutUint32 (ChecksumIEEE (covered (Marshal f)))"
  by (simp add: Validate_eq_None wire calculateChecksum_covered)

text \<open>Where a change may lie: in front of the length field, in the checksum, or behind it.\<close>

definition clear_of_length :: "nat \<Rightarrow> nat \<Rightarrow> bool" where
  "clear_of_length i n \<longleftrightarrow> i + n \<le> 8 \<or> (12 \<le> i \<and> i + n \<le> 16) \<or> 16 \<le> i"

lemma clear_of_length_field:
  assumes "length xs = length ys" and "clear_of_length (length pre) (length xs)"
  shows "length_field (pre @ ys @ post) = length_field (pre @ xs @ post)"
proof -
  have "take 4 (drop 8 (pre @ ys @ post)) = take 4 (drop 8 (pre @ xs @ post))"
    using assms by (auto simp: clear_of_length_def)
  then show ?thesis by (simp only: length_field_def)
qed

text \<open>Two serialised valid frames never differ in such a window only.\<close>

lemma burst_not_valid:
  assumes len: "length xs = length ys" "length xs \<le> 4"
    and pos: "clear_of_length (length pre) (length xs)"
    and f: "Validate f = None" "Marshal f = pre @ xs @ post"
    and g: "Validate g = None" "Marshal g = pre @ ys @ post"
  shows "xs = ys"
proof (cases "12 \<le> length pre \<and> length pre + length xs \<le> 16")
  case True
  then have c: "covered (pre @ xs @ post) = covered (pre @ ys @ post)"
    using len by (auto simp: covered_def)
  have "take 4 (drop 12 (pre @ xs @ post)) = take 4 (drop 12 (pre @ ys @ post))"
    using Validate_covered [OF f(1)] Validate_covered [OF g(1)] by (simp add: f(2) g(2) c)
  with True len show ?thesis
    by auto
next
  case False
  with pos have *: "length pre + length xs \<le> 8 \<or> 16 \<le> length pre"
    by (auto simp: clear_of_length_def)
  have cs: "take 4 (drop 12 (pre @ xs @ post)) = take 4 (drop 12 (pre @ ys @ post))"
    using * len by auto
  have "\<exists>p q. covered (pre @ xs @ post) = p @ xs @ q \<and> covered (pre @ ys @ post) = p @ ys @ q"
  proof (rule disjE [OF *])
    assume a: "length pre + length xs \<le> 8"
    let ?q = "take (12 - length (pre @ xs)) post @ drop (16 - length (pre @ xs)) post"
    have "covered (pre @ zs @ post) = pre @ zs @ ?q" if "length zs = length xs" for zs
      using a that by (simp add: covered_def)
    then show ?thesis using len(1) by metis
  next
    assume "16 \<le> length pre"
    then have "covered (pre @ zs @ post) = (take 12 pre @ drop 16 pre) @ zs @ post" for zs
      by (simp add: covered_def)
    then show ?thesis by metis
  qed
  then obtain p q where pq: "covered (pre @ xs @ post) = p @ xs @ q"
    "covered (pre @ ys @ post) = p @ ys @ q" by blast
  have "ChecksumIEEE (p @ xs @ q) = ChecksumIEEE (p @ ys @ q)"
    using Validate_covered [OF f(1)] Validate_covered [OF g(1)] cs by (simp add: f(2) g(2) pq)
  then show ?thesis using ChecksumIEEE_burst [OF len, of p q] by blast
qed

text \<open>A serialised frame damaged in one window of at most four bytes is refused.\<close>

lemma UnmarshalFrame_burst:
  assumes v: "Validate f = None" and small: "length (fPayload f) < 2 ^ 32 - 16"
    and m: "Marshal f = pre @ xs @ post"
    and len: "length xs = length ys" "length xs \<le> 4" and diff: "xs \<noteq> ys"
    and pos: "clear_of_length (length pre) (length xs)"
  shows "\<exists>err. UnmarshalFrame (pre @ ys @ post) = Ret (Inl err)"
proof -
  let ?data = "pre @ ys @ post" and ?g = "raw_frame (pre @ ys @ post)"
  have dlen: "length ?data = HeaderSize + length (fPayload f)"
    using len m length_Marshal [of f] by simp
  then have g: "Marshal ?g = ?data" by (simp add: Marshal_raw_frame)
  have "length_field ?data = fLength f"
    using clear_of_length_field [OF len(1) pos, of post] by (simp add: wire flip: m)
  then have size: "total_size ?data = length ?data" "fLength ?g = fLength f"
    using dlen v small by (simp_all add: Validate_length)
  then have cut: "cut_payload ?g = ?g"
    using dlen v small by (intro cut_payload_id) (simp add: Validate_length HeaderSize_def)
  have "Validate ?g \<noteq> None"
    using burst_not_valid [OF len pos v m _ g] diff by blast
  then obtain err where "Validate ?g = Some err" by blast
  with small dlen size(1) show ?thesis
    unfolding UnmarshalFrame_cases [of ?data] cut by (auto simp: HeaderSize_def)
qed

subsection \<open>The reader as a stream parser\<close>

text \<open>\<open>ReadFrame\<close> as a parser of the buffer, for a reader with limit \<open>mx\<close>.\<close>

definition frame_parse :: "u32 \<Rightarrow> bytes \<Rightarrow> (byte, Frame, error go) parse_step" where
  "frame_parse mx buf =
     (case ReadFrame \<lparr>fr_buffer = buf, fr_maxLength = mx\<rparr> of
        Ret (Inl err, _) \<Rightarrow> Failed (Ret err)
      | Ret (Inr None, _) \<Rightarrow> NeedMore
      | Ret (Inr (Some f), fr') \<Rightarrow> Parsed f (fr_buffer fr')
      | Panic m \<Rightarrow> Failed (Panic m)
      | Blocked \<Rightarrow> Failed Blocked)"

definition frame_drain :: "u32 \<Rightarrow> bytes \<Rightarrow> Frame list \<times> bytes \<times> error go option" where
  "frame_drain mx buf =
     (case read_loop \<lparr>fr_buffer = buf, fr_maxLength = mx\<rparr> of (fs, fr', e) \<Rightarrow> (fs, fr_buffer fr', e))"

lemma frame_parse_cases:
  "frame_parse mx buf =
     (if length buf < HeaderSize then NeedMore
      else if 0 < mx \<and> mx < length_field buf then Failed (Ret ''frame too large'')
      else if length buf < total_size buf then NeedMore
      else case UnmarshalFrame (take (total_size buf) buf) of
             Ret (Inl err) \<Rightarrow> Failed (Ret err)
           | Ret (Inr f) \<Rightarrow> Parsed f (drop (total_size buf) buf)
           | Panic m \<Rightarrow> Failed (Panic m)
           | Blocked \<Rightarrow> Failed Blocked)"
  by (simp add: frame_parse_def ReadFrame_def Let_def length_field_def split: go.split sum.split)

lemma read_loop_maxLength: "read_loop fr = (fs, fr', e) \<Longrightarrow> fr_maxLength fr' = fr_maxLength fr"
proof (induction fr arbitrary: fs rule: read_loop.induct)
  case (1 fr)
  show ?case
  proof (cases "ReadFrame fr")
    case (Ret r)
    obtain a fr1 where r: "r = (a, fr1)" by (cases r)
    with Ret have ml: "fr_maxLength fr1 = fr_maxLength fr"
      by (auto simp: ReadFrame_def Let_def elim!: go_bind_RetE split: if_split_asm sum.split_asm)
    show ?thesis
    proof (cases a)
      case (Inr b)
      then show ?thesis using "1.prems" "1.IH" [OF Ret r [symmetric] Inr] Ret r ml
        by (cases b) (auto simp: read_loop.simps [of fr] split: prod.splits)
    qed (use "1.prems" Ret r ml in \<open>simp add: read_loop.simps [of fr]\<close>)
  qed (use "1.prems" in \<open>simp_all add: read_loop.simps [of fr]\<close>)
qed

lemma read_loop_drain:
  "read_loop fr = (case frame_drain (fr_maxLength fr) (fr_buffer fr) of
     (fs, buf, e) \<Rightarrow> (fs, fr\<lparr>fr_buffer := buf\<rparr>, e))"
proof -
  have "fr = \<lparr>fr_buffer = fr_buffer fr, fr_maxLength = fr_maxLength fr\<rparr>" by simp
  then show ?thesis
    unfolding frame_drain_def using read_loop_maxLength [of fr]
    by (cases fr) (auto split: prod.splits intro!: FrameReader.equality)
qed

lemma frame_drain_eq:
  "frame_drain mx buf =
     (case frame_parse mx buf of
        NeedMore \<Rightarrow> ([], buf, None)
      | Failed e \<Rightarrow> ([], buf, Some e)
      | Parsed f rest \<Rightarrow> (case frame_drain mx rest of (fs, buf', e) \<Rightarrow> (f # fs, buf', e)))"
proof -
  let ?fr = "\<lparr>fr_buffer = buf, fr_maxLength = mx\<rparr>"
  have keep: "fr' = ?fr" if "ReadFrame ?fr = Ret (Inl err, fr')" for err fr'
    using that by (auto simp: ReadFrame_def Let_def elim!: go_bind_RetE split: if_split_asm sum.split_asm)
  have keep2: "fr' = ?fr" if "ReadFrame ?fr = Ret (Inr None, fr')" for fr'
    using that by (auto simp: ReadFrame_def Let_def elim!: go_bind_RetE split: if_split_asm sum.split_asm)
  have rest: "fr' = \<lparr>fr_buffer = fr_buffer fr', fr_maxLength = mx\<rparr>"
    if "ReadFrame ?fr = Ret (Inr (Some f), fr')" for f fr'
    using ReadFrame_consumes [OF that] by simp
  show ?thesis
    unfolding frame_drain_def frame_parse_def read_loop.simps [of ?fr]
    by (auto split: go.split sum.split option.split prod.split dest: keep keep2 rest)
qed

lemma length_field_append: "HeaderSize \<le> length buf \<Longrightarrow> length_field (buf @ xs) = length_field buf"
  by (simp add: length_field_def HeaderSize_def)

interpretation frames: stream_parser "frame_parse mx" "frame_drain mx" for mx
proof
  fix buf f rest xs
  assume "frame_parse mx buf = Parsed f rest"
  then show "frame_parse mx (buf @ xs) = Parsed f (rest @ xs)"
    by (auto simp: frame_parse_cases length_field_append
        split: if_split_asm go.split_asm sum.split_asm)
next
  fix buf e xs
  assume "frame_parse mx buf = Failed e"
  then show "frame_parse mx (buf @ xs) = Failed e"
    by (auto simp: frame_parse_cases length_field_append
        split: if_split_asm go.split_asm sum.split_asm)
next
  fix buf f rest
  assume "frame_parse mx buf = Parsed f rest"
  then show "length rest < length buf"
    by (auto simp: frame_parse_cases HeaderSize_def split: if_split_asm go.split_asm sum.split_asm)
qed (simp add: frame_parse_cases HeaderSize_def, rule frame_drain_eq)

lemma feed_read_chunks:
  "feed_read fr cs = (case feed_chunks (frame_drain (fr_maxLength fr)) (fr_buffer fr) cs of
     (fs, buf, e) \<Rightarrow> (fs, fr\<lparr>fr_buffer := buf\<rparr>, e))"
  by (induction cs arbitrary: fr) (auto simp: read_loop_drain Feed_def split: prod.splits option.splits)

text \<open>A reader that has just been drained or made, and so waits for input.\<close>

lemma frame_parse_empty [simp]: "frame_parse mx [] = NeedMore"
  by (rule frames.parse_empty)

lemma NewFrameReader_buffer [simp]: "fr_buffer (NewFrameReader n) = []"
  by (simp add: NewFrameReader_def Let_def)

lemma NewFrameReader_maxLength:
  "fr_maxLength (NewFrameReader n) = (if (of_int n :: u32) = 0 then 65536 else of_int n)"
  by (simp add: NewFrameReader_def Let_def)

lemma NewFrameReader_limit: "0 < fr_maxLength (NewFrameReader n)"
  by (simp add: NewFrameReader_maxLength word_gt_0)

text \<open>The frames and the failure of a fresh reader depend on the bytes fed, not on the chunks.\<close>

lemma feed_read_whole:
  "fst (feed_read (NewFrameReader n) cs) =
     fst (frame_drain (fr_maxLength (NewFrameReader n)) (concat cs))"
  "snd (snd (feed_read (NewFrameReader n) cs)) =
     snd (snd (frame_drain (fr_maxLength (NewFrameReader n)) (concat cs)))"
  using frames.feed_chunks_items [of "fr_maxLength (NewFrameReader n)" "[]" cs]
  unfolding feed_read_chunks NewFrameReader_buffer
  by (simp_all add: case_prod_unfold)

lemma feed_read_rest:
  "feed_read (NewFrameReader n) cs = (fs, fr', None) \<Longrightarrow>
     frame_parse (fr_maxLength fr') (fr_buffer fr') = NeedMore"
proof -
  let ?mx = "fr_maxLength (NewFrameReader n)"
  assume "feed_read (NewFrameReader n) cs = (fs, fr', None)"
  then obtain buf where f: "feed_chunks (frame_drain ?mx) [] cs = (fs, buf, None)"
    and fr': "fr' = (NewFrameReader n)\<lparr>fr_buffer := buf\<rparr>"
    by (auto simp: feed_read_chunks split: prod.splits)
  from frames.feed_chunks_concat [of ?mx "[]" cs] f
  have "frame_drain ?mx (concat cs) = (fs, buf, None)" by auto
  then show ?thesis
    using frames.drain_rest_needs_more [of ?mx "concat cs"] by (simp add: fr')
qed

text \<open>Serialised frames, one after the other, are read back one after the other.\<close>

definition acceptable :: "u32 \<Rightarrow> Frame \<Rightarrow> bool" where
  "acceptable mx f \<longleftrightarrow> Validate f = None \<and> length (fPayload f) < 2 ^ 32 - 16 \<and>
     length (fPayload f) \<le> unat mx"

lemma frame_parse_Marshal:
  assumes "acceptable mx f"
  shows "frame_parse mx (Marshal f @ xs) = Parsed f xs"
proof -
  have len: "unat (fLength f) = length (fPayload f)"
    using assms by (simp add: acceptable_def Validate_length)
  have "length_field (Marshal f @ xs) = fLength f"
    by (simp add: length_field_append wire)
  moreover have "\<not> mx < fLength f"
    using assms by (simp add: acceptable_def word_less_nat_alt len)
  moreover have "UnmarshalFrame (Marshal f) = Ret (Inr f)"
    using UnmarshalFrame_Marshal_append [of f "[]"] assms by (simp add: acceptable_def)
  ultimately show ?thesis
    by (simp add: frame_parse_cases len)
qed

lemma frame_drain_Marshals:
  "list_all (acceptable mx) fs \<Longrightarrow> frame_drain mx (concat (map Marshal fs)) = (fs, [], None)"
proof (induction fs)
  case Nil
  show ?case by (simp add: frames.drain_empty)
next
  case (Cons f fs)
  then show ?case
    by (simp add: frames.drain_eq [of mx "Marshal f @ _"] frame_parse_Marshal)
qed

lemma feed_read_Marshals:
  assumes "list_all (acceptable (fr_maxLength (NewFrameReader n))) fs"
    and "concat cs = concat (map Marshal fs)"
  shows "feed_read (NewFrameReader n) cs = (fs, NewFrameReader n, None)"
proof -
  let ?mx = "fr_maxLength (NewFrameReader n)"
  have "frame_drain ?mx (concat cs) = (fs, [], None)"
    using frame_drain_Marshals [OF assms(1)] by (simp only: assms(2))
  then have "feed_chunks (frame_drain ?mx) [] cs = (fs, [], None)"
    using frames.feed_chunks_concat [of ?mx "[]" cs]
    by (cases "feed_chunks (frame_drain ?mx) [] cs") auto
  then show ?thesis
    unfolding feed_read_chunks NewFrameReader_buffer by (simp add: NewFrameReader_def Let_def)
qed

text \<open>A reader whose limit keeps the length field away from the wrap-around never panics.\<close>

lemma frame_parse_no_panic:
  assumes "0 < mx" and "unat mx < 2 ^ 32 - 16" and "frame_parse mx buf = Failed e"
  shows "\<exists>err. e = Ret err"
proof -
  have l: "unat (length_field buf) < 2 ^ 32 - 16" if "\<not> mx < length_field buf"
    using that assms(2) by (simp add: word_less_nat_alt)
  have "\<exists>r. UnmarshalFrame (take (total_size buf) buf) = Ret r"
    if "\<not> mx < length_field buf" "HeaderSize \<le> length buf" "total_size buf \<le> length buf"
  proof -
    have h: "HeaderSize \<le> length (take (total_size buf) buf)" using that by simp
    have "length_field (take (total_size buf) buf) = length_field buf"
      using length_field_append [OF h, of "drop (total_size buf) buf"] by simp
    then have "fLength (raw_frame (take (total_size buf) buf)) = length_field buf" by simp
    then have "\<exists>r. UnmarshalFrame (Marshal (raw_frame (take (total_size buf) buf))) = Ret r"
      using l [OF that(1)] unfolding UnmarshalFrame_Marshal by (auto split: option.split)
    then show ?thesis by (simp add: Marshal_raw_frame [OF h])
  qed
  with assms(1,3) show ?thesis
    by (auto simp: frame_parse_cases not_less split: if_split_asm go.split_asm sum.split_asm)
qed

lemma frame_drain_no_panic:
  assumes "0 < mx" and "unat mx < 2 ^ 32 - 16"
  shows "frame_drain mx buf = (fs, rest, Some e) \<Longrightarrow> \<exists>err. e = Ret err"
proof (induction buf arbitrary: fs rule: length_induct)
  case (1 buf)
  show ?case
  proof (cases "frame_parse mx buf")
    case (Parsed f r)
    then show ?thesis
      using 1 frames.parsed_shrinks [OF Parsed] by (auto simp: frames.drain_eq [of mx buf] split: prod.splits)
  next
    case (Failed e')
    then show ?thesis
      using "1.prems" frame_parse_no_panic [OF assms Failed] by (simp add: frames.drain_eq [of mx buf])
  qed (use "1.prems" in \<open>simp add: frames.drain_eq [of mx buf]\<close>)
qed

subsection \<open>Flags\<close>

text \<open>
  Setting a bit after the checksum was taken: the flag byte is under the checksum, and a change
  of one byte is always seen.
\<close>

lemma SetFlag_checksum:
  assumes "Validate f = None" and "fFlags f OR flag \<noteq> fFlags f"
  shows "Validate (SetFlag f flag) = Some ''checksum mismatch''"
proof -
  let ?pre = "[fMagic f, fVersion f, fType f]"
  let ?post = "PutUint32 (fStreamID f) @ PutUint32 (fLength f) @ fPayload f"
  have "calculateChecksum (SetFlag f flag) \<noteq> calculateChecksum f"
    using ChecksumIEEE_burst [of "[fFlags f OR flag]" "[fFlags f]" ?pre ?post] assms(2)
    by (simp add: calculateChecksum_def SetFlag_def)
  then show ?thesis
    using assms(1) [unfolded Validate_eq_None] by (auto simp: Validate_def SetFlag_def)
qed

subsection \<open>Properties\<close>

text \<open>C3: A valid frame whose payload fits the wire format is read back exactly as it was written,
  whatever bytes follow it.\<close>

theorem frame_roundtrip:
  assumes "Validate f = None" and "length (fPayload f) < 2 ^ 32 - 16"
  shows "UnmarshalFrame (Marshal f @ xs) = Ret (Inr f)"
  using assms by (rule UnmarshalFrame_Marshal_append)

theorem frame_roundtrip_witness:
  "UnmarshalFrame (Marshal (NewFrame FrameData 7 [112, 105]) @ [1, 2]) =
     Ret (Inr (NewFrame FrameData 7 [112, 105]))"
  by (rule frame_roundtrip) simp_all

text \<open>C17: Parsing is canonical: whatever is accepted is a valid frame, and the input begins with
  exactly the bytes this frame serialises to.\<close>

theorem frame_canonical:
  assumes "UnmarshalFrame data = Ret (Inr f)"
  shows "Validate f = None \<and> unat (fLength f) = length (fPayload f) \<and> (\<exists>xs. data = Marshal f @ xs)"
  using UnmarshalFrame_accepts [OF assms] by blast

theorem frame_canonical_witness:
  "\<exists>data. UnmarshalFrame data = Ret (Inr (NewFrame FramePing 1 [])) \<and>
     Validate (NewFrame FramePing 1 []) = None"
proof -
  let ?f = "NewFrame FramePing 1 []"
  have p: "UnmarshalFrame (Marshal ?f @ []) = Ret (Inr ?f)"
    by (rule UnmarshalFrame_Marshal_append) simp_all
  show ?thesis using frame_canonical [OF p] p by blast
qed

text \<open>C8: Corruption is detected: replacing up to four consecutive bytes of a serialised frame,
  outside the length field and not across the border of checksum and payload, makes the parser
  return an error.\<close>

theorem frame_burst_detected:
  assumes "Validate f = None" and "length (fPayload f) < 2 ^ 32 - 16"
    and "Marshal f = pre @ xs @ post"
    and "length xs = length ys" and "length xs \<le> 4" and "xs \<noteq> ys"
    and "clear_of_length (length pre) (length xs)"
  shows "\<exists>err. UnmarshalFrame (pre @ ys @ post) = Ret (Inl err)"
  using UnmarshalFrame_burst [OF assms] .

theorem frame_burst_detected_witness:
  "\<exists>err. UnmarshalFrame (take 16 (Marshal (NewFrame FrameData 7 [112, 105])) @ [112, 104]) = Ret (Inl err)"
proof -
  let ?f = "NewFrame FrameData 7 [112, 105]"
  have "Marshal ?f = take 16 (Marshal ?f) @ [112, 105] @ []"
    using append_take_drop_id [of 16 "Marshal ?f"] by (simp add: wire)
  from frame_burst_detected [OF _ _ this, of "[112, 104]"] show ?thesis
    by (simp add: clear_of_length_def HeaderSize_def)
qed

text \<open>Cutting the stream into chunks does not matter: feeding the chunks one by one, reading
  all complete frames after each, gives the frames and the error of feeding everything at once.\<close>

theorem reader_chunking:
  "fst (feed_read (NewFrameReader n) cs) = fst (feed_read (NewFrameReader n) [concat cs]) \<and>
   snd (snd (feed_read (NewFrameReader n) cs)) = snd (snd (feed_read (NewFrameReader n) [concat cs]))"
  by (simp only: feed_read_whole concat.simps append_Nil2 simp_thms)

text \<open>C5: End to end: valid frames within the limit, serialised one after the other and cut into
  arbitrary chunks, are returned in order by the reader, with no error and an empty buffer.\<close>

theorem reader_stream_roundtrip:
  assumes "list_all (acceptable (fr_maxLength (NewFrameReader n))) fs"
    and "concat cs = concat (map Marshal fs)"
  shows "feed_read (NewFrameReader n) cs = (fs, NewFrameReader n, None)"
  using assms by (rule feed_read_Marshals)

theorem reader_stream_roundtrip_witness:
  "feed_read (NewFrameReader 65536)
     [take 5 (Marshal (NewFrame FramePing 3 [9])), drop 5 (Marshal (NewFrame FramePing 3 [9]))] =
   ([NewFrame FramePing 3 [9]], NewFrameReader 65536, None)"
  by (rule reader_stream_roundtrip) (simp_all add: acceptable_def NewFrameReader_maxLength)

text \<open>C18: The reader holds on to less than one maximal frame: after any chunks that gave no error
  the buffer is shorter than a header plus the frame limit.\<close>

theorem reader_memory_bound:
  assumes "feed_read (NewFrameReader n) cs = (fs, fr', None)"
  shows "length (fr_buffer fr') < HeaderSize + unat (fr_maxLength fr')"
proof -
  have need: "frame_parse (fr_maxLength fr') (fr_buffer fr') = NeedMore"
    by (rule feed_read_rest [OF assms])
  have "fr_maxLength fr' = fr_maxLength (NewFrameReader n)"
    using assms by (auto simp: feed_read_chunks split: prod.splits)
  then have pos: "0 < fr_maxLength fr'" using NewFrameReader_limit [of n] by simp
  from need consider "length (fr_buffer fr') < HeaderSize"
    | "length (fr_buffer fr') < total_size (fr_buffer fr')" "length_field (fr_buffer fr') \<le> fr_maxLength fr'"
    using pos by (auto simp: frame_parse_cases not_less split: if_split_asm go.split_asm sum.split_asm)
  then show ?thesis
    by cases (auto simp: word_le_nat_alt)
qed

theorem reader_memory_bound_witness:
  "feed_read (NewFrameReader 4) [[1, 2], [3]] = ([], \<lparr>fr_buffer = [1, 2, 3], fr_maxLength = 4\<rparr>, None) \<and>
   length (fr_buffer \<lparr>fr_buffer = [1, 2, 3], fr_maxLength = 4\<rparr>) < HeaderSize + 4"
proof -
  have run: "feed_read (NewFrameReader 4) [[1, 2], [3]] =
      ([], \<lparr>fr_buffer = [1, 2, 3], fr_maxLength = 4\<rparr>, None)"
    by (simp add: NewFrameReader_def Feed_def read_loop.simps ReadFrame_def HeaderSize_def)
  from reader_memory_bound [OF run] run show ?thesis by simp
qed

text \<open>No input shorter than 4 GiB makes the parser panic, and it always returns.\<close>

theorem unmarshal_returns:
  assumes "length data < 2 ^ 32"
  shows "\<exists>r. UnmarshalFrame data = Ret r"
  using assms by (auto simp: UnmarshalFrame_cases split: option.split)

theorem unmarshal_returns_witness: "\<exists>r. UnmarshalFrame [0xB0, 1, 1, 0] = Ret r"
  by (rule unmarshal_returns) simp

text \<open>Setting a flag that was not set on a finished frame makes the frame invalid, since the
  stored checksum is not taken again.\<close>

theorem set_flag_invalidates:
  assumes "Validate f = None" and "fFlags f OR flag \<noteq> fFlags f"
  shows "Validate (SetFlag f flag) = Some ''checksum mismatch''"
  using assms by (rule SetFlag_checksum)

theorem set_flag_invalidates_witness:
  "Validate (SetFlag (NewFrame FrameData 7 [1]) FlagCompressed) = Some ''checksum mismatch''"
  by (rule set_flag_invalidates) (simp_all add: FlagCompressed_def)

text \<open>The golden fixture of the repository: the DATA frame on stream 7 with payload
  \<^verbatim>\<open>ping\<close> serialises to the bytes of \<^verbatim>\<open>protocol/testdata/data_frame_v1.hex\<close>.\<close>

theorem golden_frame:
  "Marshal (NewFrame FrameData 7 (bytes_of_string ''ping'')) =
     [0xb0, 0x01, 0x01, 0x00, 0x00, 0x00, 0x00, 0x07, 0x00, 0x00, 0x00, 0x04,
      0xf0, 0xda, 0xf0, 0x34, 0x70, 0x69, 0x6e, 0x67]"
proof -
  have "ChecksumIEEE [0xb0, 1, 1, 0, 0, 0, 0, 7, 0, 0, 0, 4, 0x70, 0x69, 0x6e, 0x67] = 0xf0daf034"
    unfolding crc_eval(1,2) by (simp add: crc_eval)
  then show ?thesis
    by (simp add: NewFrame_def Marshal_def calculateChecksum_def bytes_of_string_def PutUint32_def
        Let_def header_defs FrameData_def)
qed

end
