(* ===== verification/WB_State.thy ===== *)
theory WB_State
  imports WB_Interfaces
begin

text \<open>
  Life cycle and health (\<^verbatim>\<open>server/webbou/state.go\<close>): the connection state machine with its
  transition callbacks, the server state machine built on it, the health endpoint and the
  circuit breaker.
\<close>

subsection \<open>Connection states\<close>

text \<open>\<^verbatim>\<open>ConnectionState\<close> is an integer type; values outside the seven named ones are \<open>StateOther\<close>.\<close>

datatype ConnectionState =
    StateClosed | StateConnecting | StateConnected | StateAuth | StateReady | StateClosing
  | StateDraining | StateOther int

fun ConnectionState_String :: "ConnectionState \<Rightarrow> string" where
  "ConnectionState_String StateClosed = ''CLOSED''"
| "ConnectionState_String StateConnecting = ''CONNECTING''"
| "ConnectionState_String StateConnected = ''CONNECTED''"
| "ConnectionState_String StateAuth = ''AUTH''"
| "ConnectionState_String StateReady = ''READY''"
| "ConnectionState_String StateClosing = ''CLOSING''"
| "ConnectionState_String StateDraining = ''DRAINING''"
| "ConnectionState_String (StateOther _) = ''UNKNOWN''"

record StateTransition =
  st_From :: ConnectionState
  st_To :: ConnectionState
  st_Time :: time
  st_Duration :: duration

text \<open>
  A transition callback acts on an environment \<open>'e\<close>, the variables its closure captured, and
  may read the clock once.
\<close>

type_synonym 'e callback = "ConnectionState \<Rightarrow> time \<Rightarrow> 'e \<Rightarrow> error option \<times> 'e"

record 'e StateMachine =
  sm_state :: ConnectionState
  sm_reason :: string
  sm_lastChange :: time
  sm_transitions :: "StateTransition list"
  sm_onChange :: "ConnectionState \<rightharpoonup> 'e callback"

definition NewStateMachine :: "time \<Rightarrow> 'e StateMachine" where
  "NewStateMachine now = \<lparr>sm_state = StateClosed, sm_reason = [], sm_lastChange = now,
     sm_transitions = [], sm_onChange = Map.empty\<rparr>"

definition Current :: "'e StateMachine \<Rightarrow> ConnectionState" where
  "Current sm = sm_state sm"

fun validTransitions :: "ConnectionState \<Rightarrow> ConnectionState list" where
  "validTransitions StateClosed = [StateConnecting]"
| "validTransitions StateConnecting = [StateConnected, StateClosed]"
| "validTransitions StateConnected = [StateAuth, StateClosed]"
| "validTransitions StateAuth = [StateReady, StateClosed]"
| "validTransitions StateReady = [StateClosing, StateClosed]"
| "validTransitions StateClosing = [StateDraining, StateClosed]"
| "validTransitions StateDraining = [StateClosed]"
| "validTransitions (StateOther _) = []"

definition isValidTransition :: "ConnectionState \<Rightarrow> ConnectionState \<Rightarrow> bool" where
  "isValidTransition from to = list_ex (\<lambda>valid. valid = to) (validTransitions from)"

text \<open>
  \<open>t0\<close> is what the callback reads from the clock, \<open>t1\<close> to \<open>t3\<close> are the three readings of
  \<^verbatim>\<open>SetState\<close> itself.  The field \<open>lastChange\<close> is overwritten before the duration is taken.
\<close>

definition SetState :: "'e StateMachine \<Rightarrow> 'e \<Rightarrow> ConnectionState \<Rightarrow> time \<Rightarrow> time \<Rightarrow> time \<Rightarrow> time \<Rightarrow>
    error option \<times> 'e StateMachine \<times> 'e" where
  "SetState sm e newState t0 t1 t2 t3 =
     (let oldState = sm_state sm in
      if \<not> isValidTransition oldState newState
      then (Some (''invalid transition from '' @ ConnectionState_String oldState @ '' to ''
                  @ ConnectionState_String newState), sm, e)
      else
        let (err, e') = (case sm_onChange sm newState of
                           Some fn \<Rightarrow> fn newState t0 e | None \<Rightarrow> (None, e))
        in case err of
             Some msg \<Rightarrow> (Some msg, sm, e')
           | None \<Rightarrow>
               let sm' = sm\<lparr>sm_state := newState, sm_lastChange := t1\<rparr>
               in (None, sm'\<lparr>sm_transitions := sm_transitions sm' @
                     [\<lparr>st_From = oldState, st_To = newState, st_Time = t2,
                       st_Duration = time_Sub t3 (sm_lastChange sm')\<rparr>]\<rparr>, e'))"

definition OnStateChange :: "'e StateMachine \<Rightarrow> ConnectionState \<Rightarrow> 'e callback \<Rightarrow> 'e StateMachine" where
  "OnStateChange sm state fn = sm\<lparr>sm_onChange := (sm_onChange sm)(state \<mapsto> fn)\<rparr>"

definition IsReady :: "'e StateMachine \<Rightarrow> bool" where
  "IsReady sm \<longleftrightarrow> sm_state sm = StateReady"

definition CanClose :: "'e StateMachine \<Rightarrow> bool" where
  "CanClose sm \<longleftrightarrow> sm_state sm = StateReady \<or> sm_state sm = StateClosing"

lemma isValidTransition_iff: "isValidTransition a b \<longleftrightarrow> b \<in> set (validTransitions a)"
  by (simp add: isValidTransition_def list_ex_iff)

lemma SetState_cases:
  obtains (invalid) "\<not> isValidTransition (sm_state sm) s" "SetState sm e s t0 t1 t2 t3 =
      (Some (''invalid transition from '' @ ConnectionState_String (sm_state sm) @ '' to ''
             @ ConnectionState_String s), sm, e)"
    | (refused) msg e' where "isValidTransition (sm_state sm) s"
      "SetState sm e s t0 t1 t2 t3 = (Some msg, sm, e')"
    | (moved) e' where "isValidTransition (sm_state sm) s"
      "SetState sm e s t0 t1 t2 t3 = (None, sm\<lparr>sm_state := s, sm_lastChange := t1,
         sm_transitions := sm_transitions sm @
           [\<lparr>st_From = sm_state sm, st_To = s, st_Time = t2, st_Duration = time_Sub t3 t1\<rparr>]\<rparr>, e')"
proof (cases "isValidTransition (sm_state sm) s")
  case True
  obtain err e' where "(case sm_onChange sm s of Some fn \<Rightarrow> fn s t0 e | None \<Rightarrow> (None, e)) = (err, e')"
    by (metis surj_pair)
  with True show ?thesis
    by (cases err) (auto simp: SetState_def Let_def intro: refused moved)
qed (auto simp: SetState_def Let_def intro: invalid)

subsection \<open>The recorded history\<close>

text \<open>The history is a path: each entry starts where the one before ended.\<close>

fun path :: "ConnectionState \<Rightarrow> StateTransition list \<Rightarrow> ConnectionState \<Rightarrow> bool" where
  "path a [] b \<longleftrightarrow> a = b"
| "path a (t # ts) b \<longleftrightarrow> st_From t = a \<and> isValidTransition a (st_To t) \<and> path (st_To t) ts b"

lemma path_append: "path a (xs @ ys) c \<longleftrightarrow> (\<exists>b. path a xs b \<and> path b ys c)"
  by (induction xs arbitrary: a) auto

lemma path_snoc: "path a (xs @ [t]) c \<longleftrightarrow> path a xs (st_From t) \<and> isValidTransition (st_From t) (st_To t)
    \<and> st_To t = c"
  by (auto simp: path_append)

definition sm_inv :: "'e StateMachine \<Rightarrow> bool" where
  "sm_inv sm \<longleftrightarrow> path StateClosed (sm_transitions sm) (sm_state sm)"

lemma sm_inv_New: "sm_inv (NewStateMachine now)"
  by (simp add: sm_inv_def NewStateMachine_def)

lemma sm_inv_SetState:
  assumes "sm_inv sm"
  shows "sm_inv (fst (snd (SetState sm e s t0 t1 t2 t3)))"
  using assms
  by (cases rule: SetState_cases [of sm s e t0 t1 t2 t3]) (simp_all add: sm_inv_def path_snoc)

lemma sm_inv_OnStateChange: "sm_inv (OnStateChange sm s fn) = sm_inv sm"
  by (simp add: sm_inv_def OnStateChange_def)

datatype sm_op = OpSetState ConnectionState | OpOnStateChange ConnectionState

inductive sm_step :: "'e StateMachine \<times> 'e \<Rightarrow> sm_op \<Rightarrow> 'e StateMachine \<times> 'e \<Rightarrow> bool" where
  set_state: "SetState sm e s t0 t1 t2 t3 = (err, sm', e') \<Longrightarrow>
     sm_step (sm, e) (OpSetState s) (sm', e')"
| on_change: "sm_step (sm, e) (OpOnStateChange s) (OnStateChange sm s fn, e)"

interpretation smi: invariant_system sm_step "\<lambda>(sm, e). sm_inv sm"
proof
  fix x :: "'a StateMachine \<times> 'a" and l y
  assume inv: "case x of (sm, e) \<Rightarrow> sm_inv sm" and "sm_step x l y"
  from this(2) inv show "case y of (sm, e) \<Rightarrow> sm_inv sm"
  proof cases
    case (set_state sm e s t0 t1 t2 t3 err sm' e')
    then show ?thesis using inv sm_inv_SetState [of sm e s t0 t1 t2 t3] by simp
  qed (simp add: sm_inv_OnStateChange)
qed

lemma path_last:
  "path StateClosed ts b \<Longrightarrow> b \<noteq> StateClosed \<Longrightarrow>
     \<exists>ts' t. ts = ts' @ [t] \<and> st_To t = b \<and> path StateClosed ts' (st_From t) \<and>
       isValidTransition (st_From t) b"
  by (cases ts rule: rev_cases) (auto simp: path_snoc)

lemma only_predecessor:
  "isValidTransition a StateReady \<Longrightarrow> a = StateAuth"
  "isValidTransition a StateAuth \<Longrightarrow> a = StateConnected"
  "isValidTransition a StateConnected \<Longrightarrow> a = StateConnecting"
  "isValidTransition a StateConnecting \<Longrightarrow> a = StateClosed"
  by (cases a; simp add: isValidTransition_iff)+

lemma path_to_ready:
  assumes "path StateClosed ts StateReady"
  shows "\<exists>us a b c d. ts = us @ [a, b, c, d] \<and>
    map st_To [a, b, c, d] = [StateConnecting, StateConnected, StateAuth, StateReady] \<and>
    st_From a = StateClosed"
proof -
  obtain w d where d: "ts = w @ [d]" "st_To d = StateReady" "path StateClosed w StateAuth"
    using path_last [OF assms] by (auto dest: only_predecessor)
  obtain v c where c: "w = v @ [c]" "st_To c = StateAuth" "path StateClosed v StateConnected"
    using path_last [OF d(3)] by (auto dest: only_predecessor)
  obtain u b where b: "v = u @ [b]" "st_To b = StateConnected" "path StateClosed u StateConnecting"
    using path_last [OF c(3)] by (auto dest: only_predecessor)
  obtain us a where a: "u = us @ [a]" "st_To a = StateConnecting" "st_From a = StateClosed"
    using path_last [OF b(3)] by (auto dest: only_predecessor)
  from a b c d show ?thesis by auto
qed

subsection \<open>The server state machine\<close>

text \<open>
  The callbacks registered by the constructor write two fields of the machine; these fields
  are the environment of the inner state machine.
\<close>

record ssm_env =
  ssm_draining :: bool
  ssm_drainStart :: time

record 'ch ServerStateMachine =
  ssm_sm :: "ssm_env StateMachine"
  ssm_uptime :: time
  ssm_vars :: ssm_env
  ssm_shutdown :: bool
  ssm_listeners :: "'ch list"

definition NewServerStateMachine :: "time \<Rightarrow> time \<Rightarrow> 'ch ServerStateMachine" where
  "NewServerStateMachine t1 t2 =
     (let sm = NewStateMachine t1;
          sm = OnStateChange sm StateReady (\<lambda>s t e. (None, e));
          sm = OnStateChange sm StateClosing
                 (\<lambda>s t e. (None, e\<lparr>ssm_draining := True, ssm_drainStart := t\<rparr>));
          sm = OnStateChange sm StateClosed (\<lambda>s t e. (None, e\<lparr>ssm_draining := False\<rparr>))
      in \<lparr>ssm_sm = sm, ssm_uptime = t2,
          ssm_vars = \<lparr>ssm_draining = False, ssm_drainStart = time_zero\<rparr>,
          ssm_shutdown = False, ssm_listeners = []\<rparr>)"

text \<open>The clock readings of one \<open>SetState\<close> call, including that of the callback.\<close>

record clock4 =
  ck0 :: time
  ck1 :: time
  ck2 :: time
  ck3 :: time

definition ssm_SetState :: "'ch ServerStateMachine \<Rightarrow> ConnectionState \<Rightarrow> clock4 \<Rightarrow>
    error option \<times> 'ch ServerStateMachine" where
  "ssm_SetState ssm s ck =
     (case SetState (ssm_sm ssm) (ssm_vars ssm) s (ck0 ck) (ck1 ck) (ck2 ck) (ck3 ck) of
        (err, sm, e) \<Rightarrow> (err, ssm\<lparr>ssm_sm := sm, ssm_vars := e\<rparr>))"

definition ssm_Start :: "'ch ServerStateMachine \<Rightarrow> clock4 \<Rightarrow> error option \<times> 'ch ServerStateMachine" where
  "ssm_Start ssm ck = ssm_SetState ssm StateConnecting ck"

definition ssm_Ready :: "'ch ServerStateMachine \<Rightarrow> clock4 \<Rightarrow> error option \<times> 'ch ServerStateMachine" where
  "ssm_Ready ssm ck = ssm_SetState ssm StateReady ck"

text \<open>
  \<^verbatim>\<open>GracefulShutdown\<close> in two parts: up to the wait for the timeout, and after it.  Other
  operations may come in between.
\<close>

definition GracefulShutdown_begin :: "'ch ServerStateMachine \<Rightarrow> clock4 \<Rightarrow>
    error option \<times> 'ch ServerStateMachine" where
  "GracefulShutdown_begin ssm ck =
     (case ssm_SetState ssm StateClosing ck of
        (Some err, ssm') \<Rightarrow> (Some err, ssm')
      | (None, ssm') \<Rightarrow> (None, ssm'\<lparr>ssm_vars := (ssm_vars ssm')\<lparr>ssm_draining := True\<rparr>\<rparr>))"

definition GracefulShutdown_end :: "'ch ServerStateMachine \<Rightarrow> clock4 \<Rightarrow>
    error option \<times> 'ch ServerStateMachine" where
  "GracefulShutdown_end ssm ck = ssm_SetState ssm StateClosed ck"

text \<open>The call as a whole, when nothing else happens during the wait.\<close>

definition GracefulShutdown :: "'ch ServerStateMachine \<Rightarrow> clock4 \<Rightarrow> clock4 \<Rightarrow>
    error option \<times> 'ch ServerStateMachine" where
  "GracefulShutdown ssm ck ck' =
     (case GracefulShutdown_begin ssm ck of
        (Some err, ssm') \<Rightarrow> (Some err, ssm')
      | (None, ssm') \<Rightarrow> GracefulShutdown_end ssm' ck')"

definition ForceClose :: "'ch ServerStateMachine \<Rightarrow> clock4 \<Rightarrow> error option \<times> 'ch ServerStateMachine" where
  "ForceClose ssm ck = ssm_SetState ssm StateClosed ck"

definition IsDraining :: "'ch ServerStateMachine \<Rightarrow> bool" where
  "IsDraining ssm = ssm_draining (ssm_vars ssm)"

definition Uptime :: "'ch ServerStateMachine \<Rightarrow> time \<Rightarrow> duration" where
  "Uptime ssm now = time_Sub now (ssm_uptime ssm)"

definition Subscribe :: "'ch ServerStateMachine \<Rightarrow> 'ch \<Rightarrow> 'ch ServerStateMachine" where
  "Subscribe ssm ch = ssm\<lparr>ssm_listeners := ssm_listeners ssm @ [ch]\<rparr>"

datatype ssm_op = SsmStart | SsmReady | SsmGracefulBegin | SsmGracefulEnd | SsmForceClose | SsmSubscribe

inductive ssm_step :: "'ch ServerStateMachine \<Rightarrow> ssm_op \<Rightarrow> 'ch ServerStateMachine \<Rightarrow> bool" where
  start: "ssm_Start s ck = (err, t) \<Longrightarrow> ssm_step s SsmStart t"
| ready: "ssm_Ready s ck = (err, t) \<Longrightarrow> ssm_step s SsmReady t"
| graceful_begin: "GracefulShutdown_begin s ck = (err, t) \<Longrightarrow> ssm_step s SsmGracefulBegin t"
| graceful_end: "GracefulShutdown_end s ck = (err, t) \<Longrightarrow> ssm_step s SsmGracefulEnd t"
| force_close: "ForceClose s ck = (err, t) \<Longrightarrow> ssm_step s SsmForceClose t"
| subscribe: "ssm_step s SsmSubscribe (Subscribe s ch)"

lemmas ssm_op_defs = ssm_Start_def ssm_Ready_def GracefulShutdown_begin_def GracefulShutdown_end_def
  ForceClose_def Subscribe_def

text \<open>
  No operation moves the machine to \<^verbatim>\<open>CONNECTED\<close> or \<^verbatim>\<open>AUTH\<close>, so it alternates between two states.
\<close>

definition ssm_inv :: "'ch ServerStateMachine \<Rightarrow> bool" where
  "ssm_inv s \<longleftrightarrow> sm_state (ssm_sm s) \<in> {StateClosed, StateConnecting} \<and> \<not> ssm_draining (ssm_vars s) \<and>
     sm_onChange (ssm_sm s) StateConnecting = None \<and>
     sm_onChange (ssm_sm s) StateClosed = Some (\<lambda>s t e. (None, e\<lparr>ssm_draining := False\<rparr>))"

lemma ssm_inv_New: "ssm_inv (NewServerStateMachine t1 t2)"
  by (simp add: ssm_inv_def NewServerStateMachine_def NewStateMachine_def OnStateChange_def Let_def)

lemma ssm_inv_SetState:
  assumes "ssm_inv s" and "x \<in> {StateConnecting, StateReady, StateClosing, StateClosed}"
  shows "ssm_inv (snd (ssm_SetState s x ck))" and
    "x \<in> {StateReady, StateClosing} \<Longrightarrow> ssm_SetState s x ck =
       (Some (''invalid transition from '' @ ConnectionState_String (sm_state (ssm_sm s)) @ '' to ''
              @ ConnectionState_String x), s)"
  using assms
  by (auto simp: ssm_inv_def ssm_SetState_def SetState_def isValidTransition_iff Let_def)

interpretation ssm: invariant_system ssm_step ssm_inv
proof
  fix s :: "'a ServerStateMachine" and l t
  assume inv: "ssm_inv s" and "ssm_step s l t"
  from this(2) show "ssm_inv t"
  proof cases
    case (graceful_begin ck err)
    then show ?thesis using inv ssm_inv_SetState(2) [OF inv, of StateClosing ck]
      by (simp add: ssm_op_defs)
  next
    case (subscribe ch)
    then show ?thesis using inv by (simp add: ssm_op_defs ssm_inv_def)
  qed (use ssm_inv_SetState(1) [OF inv] in \<open>(metis insert_iff snd_conv ssm_op_defs)+\<close>)
qed

subsection \<open>Health endpoint\<close>

text \<open>
  A check is what its function returns at the time of the request.  A response is the status
  code and the value that is formatted into the JSON body.
\<close>

record HealthCheck =
  hc_Name :: string
  hc_Fn :: "error option"
  hc_Timeout :: duration

record HealthServer =
  hs_ready :: bool
  hs_checks :: "string \<rightharpoonup> HealthCheck"
  hs_startTime :: time

datatype health_body = BodyOk duration | BodyNotReady | BodyUnhealthy string error | BodyReady

definition NewHealthServer :: HealthServer where
  "NewHealthServer = \<lparr>hs_ready = False, hs_checks = Map.empty, hs_startTime = time_zero\<rparr>"

definition HealthServer_Register :: "HealthServer \<Rightarrow> string \<Rightarrow> error option \<Rightarrow> duration \<Rightarrow> HealthServer" where
  "HealthServer_Register h name fn timeout =
     h\<lparr>hs_checks := (hs_checks h)(name \<mapsto> \<lparr>hc_Name = name, hc_Fn = fn, hc_Timeout = timeout\<rparr>)\<rparr>"

definition Liveness :: "HealthServer \<Rightarrow> time \<Rightarrow> nat \<times> health_body" where
  "Liveness h now = (200, BodyOk (time_Sub now (hs_startTime h)))"

text \<open>The loop over the checks, in the iteration order \<open>ord\<close>.\<close>

fun run_checks :: "(string \<rightharpoonup> HealthCheck) \<Rightarrow> string list \<Rightarrow> (string \<times> error) option" where
  "run_checks checks [] = None"
| "run_checks checks (k # ks) =
     (case checks k of
        None \<Rightarrow> run_checks checks ks
      | Some check \<Rightarrow> (case hc_Fn check of
                         Some err \<Rightarrow> Some (hc_Name check, err)
                       | None \<Rightarrow> run_checks checks ks))"

definition Readiness :: "HealthServer \<Rightarrow> string list \<Rightarrow> nat \<times> health_body" where
  "Readiness h ord =
     (if \<not> hs_ready h then (503, BodyNotReady)
      else case run_checks (hs_checks h) ord of
             Some (name, err) \<Rightarrow> (503, BodyUnhealthy name err)
           | None \<Rightarrow> (200, BodyReady))"

definition SetReady :: "HealthServer \<Rightarrow> bool \<Rightarrow> HealthServer" where
  "SetReady h ready = h\<lparr>hs_ready := ready\<rparr>"

text \<open>\<^verbatim>\<open>Handler\<close>: the two routes; every other path is not found.\<close>

definition HealthServer_Handler :: "HealthServer \<Rightarrow> string \<Rightarrow> time \<Rightarrow> string list \<Rightarrow> (nat \<times> health_body) option" where
  "HealthServer_Handler h url now ord =
     (if url = ''/health'' then Some (Liveness h now)
      else if url = ''/ready'' then Some (Readiness h ord) else None)"

lemma run_checks_None:
  "run_checks checks ord = None \<longleftrightarrow>
     (\<forall>k \<in> set ord. \<forall>check. checks k = Some check \<longrightarrow> hc_Fn check = None)"
  by (induction ord) (auto split: option.splits)

lemma run_checks_Some:
  "run_checks checks ord = Some (name, err) \<Longrightarrow>
     \<exists>k check. checks k = Some check \<and> hc_Name check = name \<and> hc_Fn check = Some err"
  by (induction ord) (auto split: option.splits)

subsection \<open>Circuit breaker\<close>

datatype CircuitState = CircuitClosed | CircuitOpen | CircuitHalfOpen

text \<open>The hooks act on an environment \<open>'e\<close>; a missing hook is nil.\<close>

record 'e CircuitBreaker =
  cb_failures :: u64
  cb_successes :: u64
  cb_mu :: rwmutex
  cb_state :: CircuitState
  cb_threshold :: u64
  cb_timeout :: duration
  cb_lastFail :: time
  cb_onOpen :: "('e \<Rightarrow> 'e) option"
  cb_onClose :: "('e \<Rightarrow> 'e) option"

definition CircuitBreaker_New :: "u64 \<Rightarrow> duration \<Rightarrow> 'e CircuitBreaker" where
  "CircuitBreaker_New threshold timeout =
     \<lparr>cb_failures = 0, cb_successes = 0, cb_mu = rw_free, cb_state = CircuitClosed,
      cb_threshold = threshold, cb_timeout = timeout, cb_lastFail = time_zero,
      cb_onOpen = None, cb_onClose = None\<rparr>"

definition cb_Lock :: "'e CircuitBreaker \<Rightarrow> 'e CircuitBreaker go" where
  "cb_Lock cb = go_bind (rw_Lock (cb_mu cb)) (\<lambda>m. Ret (cb\<lparr>cb_mu := m\<rparr>))"

definition cb_Unlock :: "'e CircuitBreaker \<Rightarrow> 'e CircuitBreaker go" where
  "cb_Unlock cb = go_bind (rw_Unlock (cb_mu cb)) (\<lambda>m. Ret (cb\<lparr>cb_mu := m\<rparr>))"

definition cb_RLock :: "'e CircuitBreaker \<Rightarrow> 'e CircuitBreaker go" where
  "cb_RLock cb = go_bind (rw_RLock (cb_mu cb)) (\<lambda>m. Ret (cb\<lparr>cb_mu := m\<rparr>))"

definition cb_RUnlock :: "'e CircuitBreaker \<Rightarrow> 'e CircuitBreaker go" where
  "cb_RUnlock cb = go_bind (rw_RUnlock (cb_mu cb)) (\<lambda>m. Ret (cb\<lparr>cb_mu := m\<rparr>))"

text \<open>\<open>Allow\<close> asks for the write lock while it holds the read lock.\<close>

definition CircuitBreaker_Allow :: "'e CircuitBreaker \<Rightarrow> time \<Rightarrow> (bool \<times> 'e CircuitBreaker) go" where
  "CircuitBreaker_Allow cb now =
     go_bind (cb_RLock cb) (\<lambda>cb.
     go_bind (case cb_state cb of
                CircuitClosed \<Rightarrow> Ret (True, cb)
              | CircuitOpen \<Rightarrow>
                  if cb_timeout cb < time_Sub now (cb_lastFail cb)
                  then go_bind (cb_Lock cb) (\<lambda>cb.
                       go_bind (cb_Unlock (cb\<lparr>cb_state := CircuitHalfOpen\<rparr>)) (\<lambda>cb. Ret (True, cb)))
                  else Ret (False, cb)
              | CircuitHalfOpen \<Rightarrow> Ret (True, cb)) (\<lambda>(res, cb).
     go_bind (cb_RUnlock cb) (\<lambda>cb. Ret (res, cb))))"

definition CircuitBreaker_Success :: "'e CircuitBreaker \<Rightarrow> 'e \<Rightarrow> ('e CircuitBreaker \<times> 'e) go" where
  "CircuitBreaker_Success cb e =
     (let cb = cb\<lparr>cb_successes := cb_successes cb + 1, cb_failures := 0\<rparr> in
      go_bind (cb_Lock cb) (\<lambda>cb.
      let (cb, e) =
        (if cb_state cb = CircuitHalfOpen
         then (cb\<lparr>cb_state := CircuitClosed\<rparr>, case cb_onClose cb of Some f \<Rightarrow> f e | None \<Rightarrow> e)
         else (cb, e))
      in go_bind (cb_Unlock cb) (\<lambda>cb. Ret (cb, e))))"

definition CircuitBreaker_Failure :: "'e CircuitBreaker \<Rightarrow> 'e \<Rightarrow> time \<Rightarrow> ('e CircuitBreaker \<times> 'e) go" where
  "CircuitBreaker_Failure cb e now =
     (let cb = cb\<lparr>cb_failures := cb_failures cb + 1, cb_lastFail := now\<rparr> in
      if cb_failures cb \<ge> cb_threshold cb
      then go_bind (cb_Lock cb) (\<lambda>cb.
             let cb = cb\<lparr>cb_state := CircuitOpen\<rparr>;
                 e = (case cb_onOpen cb of Some f \<Rightarrow> f e | None \<Rightarrow> e)
             in go_bind (cb_Unlock cb) (\<lambda>cb. Ret (cb, e)))
      else Ret (cb, e))"

definition CircuitBreaker_State :: "'e CircuitBreaker \<Rightarrow> CircuitState" where
  "CircuitBreaker_State cb = cb_state cb"

definition CircuitBreaker_OnOpen :: "'e CircuitBreaker \<Rightarrow> ('e \<Rightarrow> 'e) \<Rightarrow> 'e CircuitBreaker" where
  "CircuitBreaker_OnOpen cb fn = cb\<lparr>cb_onOpen := Some fn\<rparr>"

definition CircuitBreaker_OnClose :: "'e CircuitBreaker \<Rightarrow> ('e \<Rightarrow> 'e) \<Rightarrow> 'e CircuitBreaker" where
  "CircuitBreaker_OnClose cb fn = cb\<lparr>cb_onClose := Some fn\<rparr>"

lemmas cb_lock_defs = cb_Lock_def cb_Unlock_def cb_RLock_def cb_RUnlock_def rw_defs

text \<open>The three operations on a breaker whose mutex is free.\<close>

lemma CircuitBreaker_Allow_eq:
  assumes "cb_mu cb = rw_free"
  shows "CircuitBreaker_Allow cb now =
    (case cb_state cb of
       CircuitOpen \<Rightarrow> if cb_timeout cb < time_Sub now (cb_lastFail cb) then Blocked else Ret (False, cb)
     | _ \<Rightarrow> Ret (True, cb))"
  using assms
  by (cases cb) (auto simp: CircuitBreaker_Allow_def cb_lock_defs split: CircuitState.split)

lemma CircuitBreaker_Success_eq:
  assumes "cb_mu cb = rw_free"
  shows "CircuitBreaker_Success cb e = Ret
    (cb\<lparr>cb_successes := cb_successes cb + 1, cb_failures := 0,
        cb_state := (if cb_state cb = CircuitHalfOpen then CircuitClosed else cb_state cb)\<rparr>,
     if cb_state cb = CircuitHalfOpen then case cb_onClose cb of Some f \<Rightarrow> f e | None \<Rightarrow> e else e)"
  using assms
  by (cases cb) (auto simp: CircuitBreaker_Success_def cb_lock_defs Let_def)

lemma CircuitBreaker_Failure_eq:
  assumes "cb_mu cb = rw_free"
  shows "CircuitBreaker_Failure cb e now = Ret
    (cb\<lparr>cb_failures := cb_failures cb + 1, cb_lastFail := now,
        cb_state := (if cb_threshold cb \<le> cb_failures cb + 1 then CircuitOpen else cb_state cb)\<rparr>,
     if cb_threshold cb \<le> cb_failures cb + 1
     then case cb_onOpen cb of Some f \<Rightarrow> f e | None \<Rightarrow> e else e)"
  using assms
  by (cases cb) (auto simp: CircuitBreaker_Failure_def cb_lock_defs Let_def)

datatype cb_op = CbAllow bool | CbSuccess | CbFailure | CbHook

text \<open>The calls that return.\<close>

inductive cb_step :: "'e CircuitBreaker \<times> 'e \<Rightarrow> cb_op \<Rightarrow> 'e CircuitBreaker \<times> 'e \<Rightarrow> bool" where
  allow: "CircuitBreaker_Allow cb now = Ret (b, cb') \<Longrightarrow> cb_step (cb, e) (CbAllow b) (cb', e)"
| success: "CircuitBreaker_Success cb e = Ret (cb', e') \<Longrightarrow> cb_step (cb, e) CbSuccess (cb', e')"
| failure: "CircuitBreaker_Failure cb e now = Ret (cb', e') \<Longrightarrow> cb_step (cb, e) CbFailure (cb', e')"
| on_open: "cb_step (cb, e) CbHook (CircuitBreaker_OnOpen cb f, e)"
| on_close: "cb_step (cb, e) CbHook (CircuitBreaker_OnClose cb f, e)"

definition cb_inv :: "'e CircuitBreaker \<Rightarrow> bool" where
  "cb_inv cb \<longleftrightarrow> cb_mu cb = rw_free \<and> cb_state cb \<noteq> CircuitHalfOpen"

lemma cb_inv_New: "cb_inv (CircuitBreaker_New threshold timeout)"
  by (simp add: cb_inv_def CircuitBreaker_New_def)

lemma cb_step_inv:
  assumes "cb_step x l y" and "cb_inv (fst x)"
  shows "cb_inv (fst y)" and "cb_state (fst x) = CircuitOpen \<Longrightarrow> cb_state (fst y) = CircuitOpen"
    and "cb_state (fst x) = CircuitOpen \<Longrightarrow> l \<noteq> CbAllow True"
  using assms
  by (cases; auto simp: cb_inv_def CircuitBreaker_Allow_eq CircuitBreaker_Success_eq
      CircuitBreaker_Failure_eq CircuitBreaker_OnOpen_def CircuitBreaker_OnClose_def
      split: CircuitState.split_asm if_split_asm)+

interpretation cbi: invariant_system cb_step "\<lambda>x. cb_inv (fst x)"
  by unfold_locales (rule cb_step_inv(1))

text \<open>Once open, a breaker stays open, and no call of \<open>Allow\<close> that returns lets a request through.\<close>

interpretation cbo: invariant_system cb_step "\<lambda>x. cb_inv (fst x) \<and> cb_state (fst x) = CircuitOpen"
  by unfold_locales (use cb_step_inv in blast)

lemma cb_open_no_allow:
  assumes "run cb_step x ls y" and "cb_inv (fst x)" and "cb_state (fst x) = CircuitOpen"
  shows "CbAllow True \<notin> set ls"
  using assms
proof (induction rule: run.induct)
  case (run_Cons s l t ls u)
  then show ?case using cb_step_inv [OF run_Cons.hyps(1)] by auto
qed simp

text \<open>Failures in a row, seen from a fresh breaker.\<close>

lemma cb_failure_run:
  assumes "run cb_step x (replicate n CbFailure) y" and "cb_inv (fst x)"
    and "cb_state (fst x) = CircuitClosed" and "cb_failures (fst x) = of_nat m" and "m < unat (cb_threshold (fst x))"
  shows "cb_state (fst y) = CircuitOpen \<longleftrightarrow> unat (cb_threshold (fst x)) \<le> m + n"
  using assms
proof (induction n arbitrary: x m)
  case 0
  then show ?case by auto
next
  case (Suc n)
  let ?k = "cb_threshold (fst x)"
  obtain cb e where x: "x = (cb, e)" by (cases x)
  from Suc.prems(1) obtain z where step: "cb_step x CbFailure z" and rest: "run cb_step z (replicate n CbFailure) y"
    by auto
  then obtain now where z: "fst z = cb\<lparr>cb_failures := of_nat (Suc m), cb_lastFail := now,
      cb_state := (if ?k \<le> of_nat (Suc m) then CircuitOpen else cb_state cb)\<rparr>"
    using Suc.prems(2,4) unfolding x
    by cases (auto simp: cb_inv_def CircuitBreaker_Failure_eq add.commute)
  have le: "?k \<le> of_nat (Suc m) \<longleftrightarrow> unat ?k \<le> Suc m"
  proof -
    have "Suc m < 2 ^ 64" using unsigned_less [of ?k, where ?'a = nat] Suc.prems(5) by simp
    then have "unat (of_nat (Suc m) :: u64) = Suc m" by (simp add: unat_of_nat del: of_nat_Suc)
    then show ?thesis by (simp only: word_le_nat_alt)
  qed
  have inv: "cb_inv (fst z)" using cb_step_inv(1) [OF step Suc.prems(2)] .
  show ?case
  proof (cases "unat ?k \<le> Suc m")
    case True
    then have "cb_state (fst z) = CircuitOpen" using z le by simp
    then have "cb_state (fst y) = CircuitOpen" using cbo.inv_run [OF rest] inv by simp
    with True show ?thesis by simp
  next
    case False
    then have "cb_state (fst z) = CircuitClosed" "cb_threshold (fst z) = ?k"
      "cb_failures (fst z) = of_nat (Suc m)" using z le Suc.prems(3) x by simp_all
    with Suc.IH [OF rest inv, of "Suc m"] False show ?thesis by simp
  qed
qed

subsection \<open>Properties\<close>

text \<open>C27: Whatever sequence of \<^verbatim>\<open>SetState\<close> and \<^verbatim>\<open>OnStateChange\<close> calls is made on a new state machine,
  with whatever callbacks, the recorded transitions form a path of allowed transitions from
  \<^verbatim>\<open>CLOSED\<close> to the current state.\<close>

theorem history_is_path:
  assumes "run sm_step (NewStateMachine now, e) ops (sm, e')"
  shows "path StateClosed (sm_transitions sm) (Current sm)"
  using smi.inv_run [OF assms] sm_inv_New [of now] by (simp add: sm_inv_def Current_def)

theorem history_is_path_witness:
  "\<exists>sm :: unit StateMachine. run sm_step (NewStateMachine 5, ()) [OpSetState StateConnecting] (sm, ()) \<and>
     path StateClosed (sm_transitions sm) (Current sm) \<and> Current sm = StateConnecting"
proof -
  obtain sm :: "unit StateMachine" where
    sm: "SetState (NewStateMachine 5) () StateConnecting 6 6 6 6 = (None, sm, ())" "sm_state sm = StateConnecting"
    by (auto simp: SetState_def NewStateMachine_def isValidTransition_iff Let_def)
  then have r: "run sm_step (NewStateMachine 5, ()) [OpSetState StateConnecting] (sm, ())"
    by (auto intro!: run.intros sm_step.set_state)
  show ?thesis
    by (intro exI [of _ sm] conjI r history_is_path [OF r]) (simp add: Current_def sm(2))
qed

text \<open>Authentication cannot be skipped: in every run that ends in \<^verbatim>\<open>READY\<close> the last four
  transitions went from \<^verbatim>\<open>CLOSED\<close> through \<^verbatim>\<open>CONNECTING\<close>, \<^verbatim>\<open>CONNECTED\<close> and \<^verbatim>\<open>AUTH\<close>.\<close>

theorem ready_only_through_auth:
  assumes "run sm_step (NewStateMachine now, e) ops (sm, e')" and "IsReady sm"
  shows "\<exists>us a b c d. sm_transitions sm = us @ [a, b, c, d] \<and>
    map st_To [a, b, c, d] = [StateConnecting, StateConnected, StateAuth, StateReady] \<and>
    st_From a = StateClosed"
proof -
  have "path StateClosed (sm_transitions sm) StateReady"
    using smi.inv_run [OF assms(1)] sm_inv_New [of now] assms(2) by (simp add: sm_inv_def IsReady_def)
  then show ?thesis by (rule path_to_ready)
qed

theorem ready_only_through_auth_witness:
  "\<exists>sm :: unit StateMachine. run sm_step (NewStateMachine 5, ()) (map OpSetState
      [StateConnecting, StateConnected, StateAuth, StateReady]) (sm, ()) \<and> IsReady sm \<and>
     (\<exists>us a b c d. sm_transitions sm = us @ [a, b, c, d] \<and> st_From a = StateClosed)"
proof -
  define s1 where "s1 = fst (snd (SetState (NewStateMachine 5) () StateConnecting 6 6 6 6))"
  define s2 where "s2 = fst (snd (SetState s1 () StateConnected 6 6 6 6))"
  define s3 where "s3 = fst (snd (SetState s2 () StateAuth 6 6 6 6))"
  define s4 where "s4 = fst (snd (SetState s3 () StateReady 6 6 6 6))"
  have e: "SetState (NewStateMachine 5) () StateConnecting 6 6 6 6 = (None, s1, ())"
    "SetState s1 () StateConnected 6 6 6 6 = (None, s2, ())"
    "SetState s2 () StateAuth 6 6 6 6 = (None, s3, ())"
    "SetState s3 () StateReady 6 6 6 6 = (None, s4, ())"
    by (simp_all add: s1_def s2_def s3_def s4_def SetState_def NewStateMachine_def
        isValidTransition_iff Let_def)
  have r: "run sm_step (NewStateMachine 5, ()) (map OpSetState
      [StateConnecting, StateConnected, StateAuth, StateReady]) (s4, ())"
    by (auto intro!: run.intros sm_step.set_state e)
  have k: "IsReady s4"
    by (simp add: s1_def s2_def s3_def s4_def SetState_def NewStateMachine_def
        isValidTransition_iff Let_def IsReady_def)
  show ?thesis
    using ready_only_through_auth [OF r k] k by (intro exI [of _ s4] conjI r) auto
qed

text \<open>The server state machine never becomes ready: whatever calls are made on a new one, in
  whatever interleaving, it is \<^verbatim>\<open>CLOSED\<close> or \<^verbatim>\<open>CONNECTING\<close>, not draining, and both \<^verbatim>\<open>Ready\<close> and
  \<^verbatim>\<open>GracefulShutdown\<close> return an error.\<close>

theorem server_never_ready:
  assumes "run ssm_step (NewServerStateMachine t1 t2) ops s"
  shows "Current (ssm_sm s) \<in> {StateClosed, StateConnecting} \<and> \<not> IsDraining s \<and>
    (\<exists>err. fst (ssm_Ready s ck) = Some err) \<and> (\<exists>err. fst (GracefulShutdown s ck ck') = Some err)"
proof -
  have inv: "ssm_inv s" using ssm.inv_run [OF assms ssm_inv_New] .
  then show ?thesis
    using ssm_inv_SetState(2) [OF inv]
    by (simp add: ssm_inv_def Current_def IsDraining_def ssm_Ready_def GracefulShutdown_def
        GracefulShutdown_begin_def)
qed

theorem server_never_ready_witness:
  "\<exists>s :: unit ServerStateMachine. run ssm_step (NewServerStateMachine 1 2) [SsmStart] s \<and>
     (\<exists>err. fst (ssm_Ready s \<lparr>ck0 = 3, ck1 = 3, ck2 = 3, ck3 = 3\<rparr>) = Some err)"
proof -
  obtain s :: "unit ServerStateMachine" where
    s: "ssm_Start (NewServerStateMachine 1 2) \<lparr>ck0 = 3, ck1 = 3, ck2 = 3, ck3 = 3\<rparr> = (None, s)"
    by (auto simp: ssm_Start_def ssm_SetState_def SetState_def NewServerStateMachine_def
        NewStateMachine_def OnStateChange_def isValidTransition_iff Let_def)
  have r: "run ssm_step (NewServerStateMachine 1 2) [SsmStart] s"
    using s by (auto intro!: run.intros ssm_step.start)
  show ?thesis using server_never_ready [OF r] by (intro exI [of _ s] conjI r) simp
qed

text \<open>C16: The breaker trips exactly at its threshold: after \<open>n\<close> failures in a row a new breaker with
  a positive threshold \<open>k\<close> is open if and only if \<open>n\<close> has reached \<open>k\<close>.\<close>

theorem breaker_trips_at_threshold:
  assumes "run cb_step (CircuitBreaker_New k d, e) (replicate n CbFailure) (cb, e')" and "0 < k"
  shows "CircuitBreaker_State cb = CircuitOpen \<longleftrightarrow> unat k \<le> n"
  using cb_failure_run [OF assms(1), of 0] assms(2) cb_inv_New [of k d, where ?'a = 'a]
  by (simp add: CircuitBreaker_State_def CircuitBreaker_New_def unat_gt_0 word_gt_0)

theorem breaker_trips_at_threshold_witness:
  "\<exists>cb e'. run cb_step (CircuitBreaker_New 1 5, ()) (replicate 1 CbFailure) (cb, e') \<and>
     CircuitBreaker_State cb = CircuitOpen"
proof -
  let ?cb = "CircuitBreaker_New 1 5 :: unit CircuitBreaker"
  obtain cb where "CircuitBreaker_Failure ?cb () 7 = Ret (cb, ())"
    by (simp add: CircuitBreaker_Failure_eq CircuitBreaker_New_def)
  then have r: "run cb_step (?cb, ()) (replicate 1 CbFailure) (cb, ())"
    by (auto intro!: run.intros cb_step.failure)
  then have "CircuitBreaker_State cb = CircuitOpen"
    using breaker_trips_at_threshold [OF r] by simp
  with r show ?thesis by blast
qed

text \<open>C38: An open breaker never lets a request through again: in any sequence of calls that
  return, it stays open and no \<^verbatim>\<open>Allow\<close> answers true; once the timeout has passed, \<^verbatim>\<open>Allow\<close> does
  not return at all, since it waits for the write lock while holding the read lock.\<close>

theorem open_breaker_never_recovers:
  assumes "run cb_step (CircuitBreaker_New k d, e) before (cb, e1)"
    and "CircuitBreaker_State cb = CircuitOpen"
    and "run cb_step (cb, e1) after (cb', e2)"
  shows "CircuitBreaker_State cb' = CircuitOpen \<and> CbAllow True \<notin> set after \<and>
    CircuitBreaker_Allow cb' now =
      (if cb_timeout cb' < time_Sub now (cb_lastFail cb') then Blocked else Ret (False, cb'))"
proof -
  have inv: "cb_inv cb" using cbi.inv_run [OF assms(1)] cb_inv_New by auto
  then have "cb_inv cb' \<and> cb_state cb' = CircuitOpen"
    using cbo.inv_run [OF assms(3)] assms(2) by (simp add: CircuitBreaker_State_def)
  moreover have "CbAllow True \<notin> set after"
    using cb_open_no_allow [OF assms(3)] inv assms(2) by (simp add: CircuitBreaker_State_def)
  ultimately show ?thesis
    by (simp add: CircuitBreaker_State_def cb_inv_def CircuitBreaker_Allow_eq)
qed

theorem open_breaker_never_recovers_witness:
  "\<exists>cb. run cb_step (CircuitBreaker_New 1 5, ()) [CbFailure] (cb, ()) \<and>
     CircuitBreaker_State cb = CircuitOpen \<and> CircuitBreaker_Allow cb 100 = Blocked"
proof -
  let ?cb = "CircuitBreaker_New 1 5 :: unit CircuitBreaker"
  obtain cb where c: "CircuitBreaker_Failure ?cb () 7 = Ret (cb, ())"
    and o: "CircuitBreaker_State cb = CircuitOpen" "cb_timeout cb = 5" "cb_lastFail cb = 7"
    by (simp add: CircuitBreaker_Failure_eq CircuitBreaker_New_def CircuitBreaker_State_def)
  then have r: "run cb_step (?cb, ()) [CbFailure] (cb, ())"
    by (auto intro!: run.intros cb_step.failure)
  show ?thesis
    using open_breaker_never_recovers [OF r o(1) run.run_Nil, of 100] o
    by (intro exI [of _ cb] conjI r) (simp_all add: time_defs)
qed

text \<open>The readiness endpoint answers 200 exactly when the server was marked ready and every
  registered check passes, and 503 otherwise, in whatever order the checks are visited.\<close>

theorem readiness_iff_all_pass:
  assumes "iteration_order (hs_checks h) ord"
  shows "fst (Readiness h ord) = (if hs_ready h \<and> (\<forall>check \<in> ran (hs_checks h). hc_Fn check = None)
    then 200 else 503)"
proof -
  have "run_checks (hs_checks h) ord = None \<longleftrightarrow> (\<forall>check \<in> ran (hs_checks h). hc_Fn check = None)"
    using assms by (fastforce simp: run_checks_None iteration_order_def ran_def)
  then show ?thesis
    by (cases "run_checks (hs_checks h) ord") (auto simp: Readiness_def)
qed

theorem readiness_iff_all_pass_witness:
  "fst (Readiness (SetReady (HealthServer_Register NewHealthServer ''db'' (Some ''down'') 5) True) [''db'']) = 503"
  using readiness_iff_all_pass
    [of "SetReady (HealthServer_Register NewHealthServer ''db'' (Some ''down'') 5) True" "[''db'']"]
  by (simp add: iteration_order_def SetReady_def HealthServer_Register_def NewHealthServer_def)

text \<open>The liveness endpoint of a server made by the constructor reports the greatest duration
  as its uptime, at any time more than 292 years after the zero time: the start time is never set.\<close>

theorem liveness_uptime_saturates:
  assumes "max_duration \<le> now"
  shows "Liveness NewHealthServer now = (200, BodyOk max_duration)"
  using assms by (simp add: Liveness_def NewHealthServer_def time_defs)

theorem liveness_uptime_saturates_witness:
  "Liveness NewHealthServer (2 ^ 64) = (200, BodyOk max_duration)"
  by (rule liveness_uptime_saturates) (simp add: time_defs)

end
