(* ===== verification/WB_LoadBalancer.thy ===== *)
theory WB_LoadBalancer
  imports WB_Interfaces "HOL-Library.Multiset"
begin

text \<open>
  Load balancing (\<^verbatim>\<open>server/webbou/loadbalancer.go\<close>).  The balancers hold pointers to backends
  that their callers keep using, so the backends live in a store and a pointer is an address.
\<close>

unbundle bit_operations_syntax

subsection \<open>Backends in the store\<close>

record Backend =
  be_Addr :: string
  be_Weight :: int
  be_MaxConns :: int
  be_ActiveConns :: int
  be_FailedReqs :: int
  be_LastError :: time
  be_Latency :: int
  be_Healthy :: bool

type_synonym ptr = nat

record store =
  st_next :: ptr
  st_mem :: "ptr \<Rightarrow> Backend"

abbreviation deref :: "store \<Rightarrow> ptr \<Rightarrow> Backend" where
  "deref h p \<equiv> st_mem h p"

definition store_put :: "store \<Rightarrow> ptr \<Rightarrow> Backend \<Rightarrow> store" where
  "store_put h p b = h\<lparr>st_mem := (st_mem h)(p := b)\<rparr>"

definition store_new :: "store \<Rightarrow> Backend \<Rightarrow> ptr \<times> store" where
  "store_new h b = (st_next h, h\<lparr>st_next := Suc (st_next h), st_mem := (st_mem h)(st_next h := b)\<rparr>)"

lemma deref_store_put [simp]: "deref (store_put h p b) q = (if q = p then b else deref h q)"
  by (simp add: store_put_def)

lemma st_next_store_put [simp]: "st_next (store_put h p b) = st_next h"
  by (simp add: store_put_def)

text \<open>What both balancers do when a request has succeeded or failed.\<close>

definition record_success :: "store \<Rightarrow> ptr \<Rightarrow> duration \<Rightarrow> store" where
  "record_success h p latency =
     store_put h p ((deref h p)\<lparr>be_FailedReqs := 0, be_Latency := latency, be_Healthy := True\<rparr>)"

definition record_failure :: "store \<Rightarrow> ptr \<Rightarrow> time \<Rightarrow> store" where
  "record_failure h p now =
     (let b = (deref h p)\<lparr>be_FailedReqs := i64 (be_FailedReqs (deref h p) + 1), be_LastError := now\<rparr>
      in store_put h p (if be_FailedReqs b > 5 then b\<lparr>be_Healthy := False\<rparr> else b))"

text \<open>The registration loop and the removal loop, which both balancers share.\<close>

definition register_backend :: "store \<Rightarrow> ptr list \<Rightarrow> ptr \<Rightarrow> store \<times> ptr list" where
  "register_backend h bs p =
     (if list_ex (\<lambda>b. be_Addr (deref h b) = be_Addr (deref h p)) bs then (h, bs)
      else (store_put h p ((deref h p)\<lparr>be_Healthy := True\<rparr>), bs @ [p]))"

fun unregister_backend :: "store \<Rightarrow> ptr list \<Rightarrow> string \<Rightarrow> ptr list" where
  "unregister_backend h [] addr = []"
| "unregister_backend h (b # bs) addr =
     (if be_Addr (deref h b) = addr then bs else b # unregister_backend h bs addr)"

subsection \<open>Round robin\<close>

record RoundRobin =
  rr_backends :: "ptr list"
  rr_index :: u32

definition NewRoundRobin :: RoundRobin where
  "NewRoundRobin = \<lparr>rr_backends = [], rr_index = 0\<rparr>"

definition RoundRobin_Select :: "store \<Rightarrow> RoundRobin \<Rightarrow> (ptr option \<times> RoundRobin) go" where
  "RoundRobin_Select h rr =
     (if rr_backends rr = [] then Ret (None, rr)
      else
        let index = rr_index rr + 1; rr = rr\<lparr>rr_index := index\<rparr>;
            n = of_nat (length (rr_backends rr)) :: u32
        in if n = 0 then Panic ''integer divide by zero''
           else
             let backend = rr_backends rr ! unat ((index - 1) mod n)
             in if \<not> be_Healthy (deref h backend) then Ret (None, rr) else Ret (Some backend, rr))"

definition RoundRobin_Register :: "store \<Rightarrow> RoundRobin \<Rightarrow> ptr \<Rightarrow> store \<times> RoundRobin" where
  "RoundRobin_Register h rr p =
     (case register_backend h (rr_backends rr) p of (h', bs) \<Rightarrow> (h', rr\<lparr>rr_backends := bs\<rparr>))"

definition RoundRobin_Unregister :: "store \<Rightarrow> RoundRobin \<Rightarrow> string \<Rightarrow> RoundRobin" where
  "RoundRobin_Unregister h rr addr =
     rr\<lparr>rr_backends := unregister_backend h (rr_backends rr) addr\<rparr>"

definition RoundRobin_RecordSuccess :: "store \<Rightarrow> ptr \<Rightarrow> duration \<Rightarrow> store" where
  "RoundRobin_RecordSuccess = record_success"

definition RoundRobin_RecordFailure :: "store \<Rightarrow> ptr \<Rightarrow> time \<Rightarrow> store" where
  "RoundRobin_RecordFailure = record_failure"

subsection \<open>Least connections\<close>

record LeastConnections =
  lc_backends :: "ptr list"

definition NewLeastConnections :: LeastConnections where
  "NewLeastConnections = \<lparr>lc_backends = []\<rparr>"

text \<open>The loop over the backends carries the selected backend and the least count so far.\<close>

fun least_loop :: "store \<Rightarrow> ptr list \<Rightarrow> ptr option \<Rightarrow> int \<Rightarrow> ptr option" where
  "least_loop h [] selected minConns = selected"
| "least_loop h (b # bs) selected minConns =
     (if be_Healthy (deref h b) \<and> be_ActiveConns (deref h b) < be_MaxConns (deref h b)
      then let conns = be_ActiveConns (deref h b)
           in if conns < minConns then least_loop h bs (Some b) conns
              else least_loop h bs selected minConns
      else least_loop h bs selected minConns)"

text \<open>The initial minimum is \<^verbatim>\<open>^int64(0)\<close>, the bitwise complement of zero.\<close>

definition LeastConnections_Select :: "store \<Rightarrow> LeastConnections \<Rightarrow> (ptr option \<times> LeastConnections) go" where
  "LeastConnections_Select h lc =
     (if lc_backends lc = [] then Ret (None, lc)
      else Ret (least_loop h (lc_backends lc) None (NOT 0), lc))"

definition LeastConnections_Register :: "store \<Rightarrow> LeastConnections \<Rightarrow> ptr \<Rightarrow> store \<times> LeastConnections" where
  "LeastConnections_Register h lc p =
     (case register_backend h (lc_backends lc) p of (h', bs) \<Rightarrow> (h', lc\<lparr>lc_backends := bs\<rparr>))"

definition LeastConnections_Unregister :: "store \<Rightarrow> LeastConnections \<Rightarrow> string \<Rightarrow> LeastConnections" where
  "LeastConnections_Unregister h lc addr =
     lc\<lparr>lc_backends := unregister_backend h (lc_backends lc) addr\<rparr>"

definition LeastConnections_RecordSuccess :: "store \<Rightarrow> ptr \<Rightarrow> duration \<Rightarrow> store" where
  "LeastConnections_RecordSuccess = record_success"

definition LeastConnections_RecordFailure :: "store \<Rightarrow> ptr \<Rightarrow> time \<Rightarrow> store" where
  "LeastConnections_RecordFailure = record_failure"

subsection \<open>Discovery and the proxy protocol\<close>

text \<open>
  \<open>NewDiscoveryBackend\<close> calls \<^verbatim>\<open>Register\<close> of the interface value it is given: an argument.
\<close>

record DiscoveryBackend =
  db_addrs :: "string list"
  db_interval :: duration

fun register_all :: "(store \<Rightarrow> 's \<Rightarrow> ptr \<Rightarrow> store \<times> 's) \<Rightarrow> store \<Rightarrow> 's \<Rightarrow> string list \<Rightarrow> store \<times> 's" where
  "register_all register h lb [] = (h, lb)"
| "register_all register h lb (addr # addrs) =
     (let (p, h1) = store_new h \<lparr>be_Addr = addr, be_Weight = 100, be_MaxConns = 0, be_ActiveConns = 0,
            be_FailedReqs = 0, be_LastError = time_zero, be_Latency = 0, be_Healthy = False\<rparr>;
          (h2, lb') = register h1 lb p
      in register_all register h2 lb' addrs)"

definition NewDiscoveryBackend :: "(store \<Rightarrow> 's \<Rightarrow> ptr \<Rightarrow> store \<times> 's) \<Rightarrow> store \<Rightarrow> string list \<Rightarrow>
    duration \<Rightarrow> 's \<Rightarrow> DiscoveryBackend \<times> store \<times> 's" where
  "NewDiscoveryBackend register h addrs interval lb =
     (case register_all register h lb addrs of
        (h', lb') \<Rightarrow> (\<lparr>db_addrs = addrs, db_interval = interval\<rparr>, h', lb'))"

definition DiscoveryBackend_Start :: "DiscoveryBackend \<Rightarrow> DiscoveryBackend" where
  "DiscoveryBackend_Start db = (if db_interval db = 0 then db\<lparr>db_interval := 30 * Second\<rparr> else db)"

definition DiscoveryBackend_refresh :: "DiscoveryBackend \<Rightarrow> DiscoveryBackend" where
  "DiscoveryBackend_refresh db = db"

text \<open>
  \<^verbatim>\<open>Dial\<close>, with \<^verbatim>\<open>net.DialTimeout\<close> (from the address and the time-out to a connection or an error) as a
  parameter; the context of the caller is not used.
\<close>

definition Backend_Dial :: "(string \<Rightarrow> duration \<Rightarrow> error + 'conn) \<Rightarrow> 'ctx \<Rightarrow> Backend \<Rightarrow> error + 'conn" where
  "Backend_Dial dialTimeout ctx b = dialTimeout (be_Addr b) (be_Latency b)"

record ProxyProtocol =
  pp_srcIP :: string
  pp_srcPort :: int
  pp_dstIP :: string
  pp_dstPort :: int

definition ParseProxyProtocol :: "bytes \<Rightarrow> error + ProxyProtocol" where
  "ParseProxyProtocol data =
     (if length data < 16 then Inl ''data too short''
      else if string_of_bytes (take 5 data) \<noteq> ''PROXY'' then Inl ''not proxy protocol''
      else Inr \<lparr>pp_srcIP = [], pp_srcPort = 0, pp_dstIP = [], pp_dstPort = 0\<rparr>)"

subsection \<open>The registry\<close>

abbreviation addrs_of :: "store \<Rightarrow> ptr list \<Rightarrow> string list" where
  "addrs_of h bs \<equiv> map (\<lambda>p. be_Addr (deref h p)) bs"

lemma addr_record [simp]:
  "be_Addr (deref (record_success h p latency) q) = be_Addr (deref h q)"
  "be_Addr (deref (record_failure h p now) q) = be_Addr (deref h q)"
  by (simp_all add: record_success_def record_failure_def Let_def)

lemma register_backend_store:
  assumes "register_backend h bs p = (h', bs')"
  shows "be_Addr (deref h' q) = be_Addr (deref h q)" and "st_next h' = st_next h"
    and "bs' = (if be_Addr (deref h p) \<in> set (addrs_of h bs) then bs else bs @ [p])"
proof -
  have ex: "list_ex (\<lambda>b. be_Addr (deref h b) = be_Addr (deref h p)) bs \<longleftrightarrow>
      be_Addr (deref h p) \<in> set (addrs_of h bs)"
    by (auto simp: list_ex_iff image_iff) metis
  show "be_Addr (deref h' q) = be_Addr (deref h q)" and "st_next h' = st_next h"
    and "bs' = (if be_Addr (deref h p) \<in> set (addrs_of h bs) then bs else bs @ [p])"
    using assms by (simp_all only: register_backend_def ex split: if_split_asm) auto
qed

lemma register_backend_addrs:
  assumes "register_backend h bs p = (h', bs')"
  shows "set (addrs_of h' bs') = insert (be_Addr (deref h p)) (set (addrs_of h bs))"
    and "distinct (addrs_of h bs) \<Longrightarrow> distinct (addrs_of h' bs')"
proof -
  have "addrs_of h' bs' = addrs_of h bs'" by (simp add: register_backend_store(1) [OF assms])
  then have "addrs_of h' bs' = (if be_Addr (deref h p) \<in> set (addrs_of h bs) then addrs_of h bs
      else addrs_of h bs @ [be_Addr (deref h p)])"
    by (simp only: register_backend_store(3) [OF assms]) simp
  then show "set (addrs_of h' bs') = insert (be_Addr (deref h p)) (set (addrs_of h bs))"
    and "distinct (addrs_of h bs) \<Longrightarrow> distinct (addrs_of h' bs')"
    by (simp_all only: split: if_split) auto
qed

lemma unregister_backend_addrs: "addrs_of h (unregister_backend h bs a) = remove1 a (addrs_of h bs)"
  by (induction bs) auto

lemma set_unregister_backend: "set (unregister_backend h bs a) \<subseteq> set bs"
  by (induction bs) auto

subsection \<open>The interface of a balancer\<close>

text \<open>
  The Go interface \<^verbatim>\<open>LoadBalancer\<close> with the laws its clients rely on: the selected backend is
  registered and healthy, registration goes by address and keeps addresses apart.
\<close>

locale load_balancer =
  fixes backends :: "'s \<Rightarrow> ptr list"
    and select :: "store \<Rightarrow> 's \<Rightarrow> (ptr option \<times> 's) go"
    and register :: "store \<Rightarrow> 's \<Rightarrow> ptr \<Rightarrow> store \<times> 's"
    and unregister :: "store \<Rightarrow> 's \<Rightarrow> string \<Rightarrow> 's"
  assumes select_sound: "select h s = Ret (Some p, s') \<Longrightarrow> p \<in> set (backends s) \<and> be_Healthy (deref h p)"
    and select_backends: "select h s = Ret (r, s') \<Longrightarrow> backends s' = backends s"
    and register_eq: "register h s p = (h', s') \<Longrightarrow> register_backend h (backends s) p = (h', backends s')"
    and unregister_eq: "backends (unregister h s a) = unregister_backend h (backends s) a"
begin

text \<open>An operation on the pair of store and balancer.\<close>

inductive lb_step :: "store \<times> 's \<Rightarrow> unit \<Rightarrow> store \<times> 's \<Rightarrow> bool" where
  "register h s p = (h', s') \<Longrightarrow> lb_step (h, s) () (h', s')"
| "lb_step (h, s) () (h, unregister h s a)"
| "select h s = Ret (r, s') \<Longrightarrow> lb_step (h, s) () (h, s')"
| "lb_step (h, s) () (record_success h p latency, s)"
| "lb_step (h, s) () (record_failure h p now, s)"

definition distinct_addrs :: "store \<times> 's \<Rightarrow> bool" where
  "distinct_addrs x \<longleftrightarrow> distinct (addrs_of (fst x) (backends (snd x)))"

lemma distinct_addrs_step: "distinct_addrs x \<Longrightarrow> lb_step x l y \<Longrightarrow> distinct_addrs y"
proof (erule lb_step.cases, goal_cases)
  case (1 h s p h' s')
  then show ?case using register_backend_addrs(2) [OF register_eq]
    by (simp add: distinct_addrs_def)
next
  case (2 h s a)
  then show ?case
    by (simp add: distinct_addrs_def unregister_eq unregister_backend_addrs)
next
  case (3 h s r s')
  then show ?case by (simp add: distinct_addrs_def select_backends)
next
  case (4 h s p latency)
  then show ?case by (simp add: distinct_addrs_def)
next
  case (5 h s p now)
  then show ?case by (simp add: distinct_addrs_def)
qed

lemma distinct_addrs_run: "run lb_step x ls y \<Longrightarrow> distinct_addrs x \<Longrightarrow> distinct_addrs y"
  by (induction rule: run.induct) (auto intro: distinct_addrs_step)

text \<open>A balancer with distinct addresses forgets an address it unregisters.\<close>

lemma unregister_gone:
  assumes "distinct_addrs (h, s)" and "select h (unregister h s a) = Ret (Some p, s')"
  shows "be_Addr (deref h p) \<noteq> a"
proof -
  have "p \<in> set (backends (unregister h s a))" using select_sound [OF assms(2)] by simp
  then have "be_Addr (deref h p) \<in> set (remove1 a (addrs_of h (backends s)))"
    by (simp only: unregister_eq flip: unregister_backend_addrs) auto
  then show ?thesis using assms(1) by (auto simp: distinct_addrs_def)
qed

text \<open>Discovery registers every address once.\<close>

lemma register_all_addrs:
  assumes "\<forall>p \<in> set (backends s). p < st_next h" and "register_all register h s as = (h', s')"
    and "distinct_addrs (h, s)"
  shows "distinct_addrs (h', s') \<and>
    set (addrs_of h' (backends s')) = set (addrs_of h (backends s)) \<union> set as"
  using assms
proof (induction as arbitrary: h s)
  case (Cons a as)
  define b where "b = \<lparr>be_Addr = a, be_Weight = 100, be_MaxConns = 0, be_ActiveConns = 0,
    be_FailedReqs = 0, be_LastError = time_zero, be_Latency = 0, be_Healthy = False\<rparr>"
  obtain p h1 where n: "store_new h b = (p, h1)" by (cases "store_new h b")
  obtain h2 s2 where r: "register h1 s p = (h2, s2)" by (cases "register h1 s p")
  have p: "p = st_next h" "st_next h1 = Suc p" "be_Addr (deref h1 p) = a"
    "\<And>q. q \<noteq> p \<Longrightarrow> deref h1 q = deref h q"
    using n by (auto simp: store_new_def b_def)
  have old: "addrs_of h1 (backends s) = addrs_of h (backends s)"
    using Cons.prems(1) p by (intro map_cong) auto
  have reg: "register_backend h1 (backends s) p = (h2, backends s2)" by (rule register_eq [OF r])
  have "\<forall>q \<in> set (backends s2). q < st_next h2"
    using Cons.prems(1) p register_backend_store(2,3) [OF reg]
    by (auto split: if_split_asm intro: less_SucI)
  moreover have "distinct_addrs (h2, s2)"
    using register_backend_addrs(2) [OF reg] Cons.prems(3) old by (simp add: distinct_addrs_def)
  moreover have "register_all register h2 s2 as = (h', s')"
    using Cons.prems(2) n r by (simp add: b_def)
  ultimately have "distinct_addrs (h', s') \<and>
      set (addrs_of h' (backends s')) = set (addrs_of h2 (backends s2)) \<union> set as"
    using Cons.IH by blast
  then show ?case using register_backend_addrs(1) [OF reg] old p by auto
qed simp

end

subsection \<open>Both balancers implement the interface\<close>

lemma u32_mod_less:
  assumes "(of_nat n :: u32) \<noteq> 0"
  shows "unat (i mod of_nat n :: u32) < n"
proof -
  have "unat (i mod of_nat n :: u32) < unat (of_nat n :: u32)"
    using assms by (simp add: unat_mod_distrib unat_gt_0)
  also have "\<dots> \<le> n" by (simp add: unat_of_nat)
  finally show ?thesis .
qed

lemma least_loop_sound:
  "least_loop h bs sel m = Some p \<Longrightarrow> sel = Some p \<or> (p \<in> set bs \<and> be_Healthy (deref h p))"
  by (induction bs arbitrary: sel m) (fastforce simp: Let_def split: if_split_asm)+

interpretation rr: load_balancer rr_backends RoundRobin_Select RoundRobin_Register RoundRobin_Unregister
proof
  fix h rr p rr'
  assume "RoundRobin_Select h rr = Ret (Some p, rr')"
  then show "p \<in> set (rr_backends rr) \<and> be_Healthy (deref h p)"
    by (auto simp: RoundRobin_Select_def Let_def u32_mod_less split: if_split_asm)
qed (auto simp: RoundRobin_Select_def RoundRobin_Register_def RoundRobin_Unregister_def Let_def
      split: if_split_asm prod.split_asm)

interpretation lc: load_balancer lc_backends LeastConnections_Select LeastConnections_Register
  LeastConnections_Unregister
proof
  fix h lc p lc'
  assume "LeastConnections_Select h lc = Ret (Some p, lc')"
  then show "p \<in> set (lc_backends lc) \<and> be_Healthy (deref h p)"
    by (auto simp: LeastConnections_Select_def split: if_split_asm dest!: least_loop_sound)
qed (auto simp: LeastConnections_Select_def LeastConnections_Register_def
      LeastConnections_Unregister_def split: if_split_asm prod.split_asm)

subsection \<open>Turns of the round robin\<close>

fun select_many :: "store \<Rightarrow> RoundRobin \<Rightarrow> nat \<Rightarrow> (ptr option list \<times> RoundRobin) go" where
  "select_many h rr 0 = Ret ([], rr)"
| "select_many h rr (Suc k) =
     go_bind (RoundRobin_Select h rr) (\<lambda>(r, rr').
     go_bind (select_many h rr' k) (\<lambda>(rs, rr''). Ret (r # rs, rr'')))"

text \<open>One turn: the backend at the index, or nil when that backend is not healthy.\<close>

lemma RoundRobin_Select_turn:
  assumes "rr_backends rr \<noteq> []" and "length (rr_backends rr) < 2 ^ 32"
  shows "RoundRobin_Select h rr =
    (let p = rr_backends rr ! (unat (rr_index rr) mod length (rr_backends rr))
     in Ret (if be_Healthy (deref h p) then Some p else None, rr\<lparr>rr_index := rr_index rr + 1\<rparr>))"
proof -
  let ?n = "length (rr_backends rr)"
  have n: "unat (of_nat ?n :: u32) = ?n" using assms(2) by (simp add: unat_of_nat)
  then have "(of_nat ?n :: u32) \<noteq> 0" using assms(1) by (metis length_0_conv unat_0)
  moreover have "unat (rr_index rr mod of_nat ?n) = unat (rr_index rr) mod ?n"
    by (simp add: unat_mod_distrib n)
  ultimately show ?thesis
    using assms(1) by (simp add: RoundRobin_Select_def Let_def)
qed

lemma select_many_healthy:
  assumes "rr_backends rr \<noteq> []" and "length (rr_backends rr) < 2 ^ 32"
    and "\<forall>p \<in> set (rr_backends rr). be_Healthy (deref h p)"
    and "unat (rr_index rr) + k \<le> 2 ^ 32"
  shows "select_many h rr k = Ret
    (map (\<lambda>j. Some (rr_backends rr ! ((unat (rr_index rr) + j) mod length (rr_backends rr)))) [0..<k],
     rr\<lparr>rr_index := rr_index rr + of_nat k\<rparr>)"
  using assms(1,2,3,4)
proof (induction k arbitrary: rr)
  case (Suc k)
  let ?bs = "rr_backends rr" and ?i = "unat (rr_index rr)"
  let ?rr = "rr\<lparr>rr_index := rr_index rr + 1\<rparr>"
  have "?bs ! (?i mod length ?bs) \<in> set ?bs" using Suc.prems(1) by simp
  then have sel: "RoundRobin_Select h rr = Ret (Some (?bs ! (?i mod length ?bs)), ?rr)"
    using Suc.prems by (simp add: RoundRobin_Select_turn Let_def)
  show ?case
  proof (cases k)
    case 0
    then show ?thesis using sel by simp
  next
    case (Suc k')
    have i: "unat (rr_index ?rr) = Suc ?i"
      using Suc.prems(4) Suc by (simp add: unat_word_ariths)
    have "select_many h ?rr k = Ret
        (map (\<lambda>j. Some (?bs ! ((Suc ?i + j) mod length ?bs))) [0..<k],
         rr\<lparr>rr_index := rr_index rr + of_nat (Suc k)\<rparr>)"
      using Suc.IH [of ?rr] Suc.prems i by (simp add: algebra_simps)
    then show ?thesis
      using sel by (simp add: upt_conv_Cons map_Suc_upt [symmetric] del: upt_Suc)
  qed
qed simp

lemma map_rotate: "map (\<lambda>j. xs ! ((i + j) mod length xs)) [0..<length xs] = rotate i xs"
  by (rule nth_equalityI) (simp_all add: nth_rotate)

lemma mset_rotate_eq: "mset (rotate i xs) = mset xs"
  by (metis append_take_drop_id mset_append rotate_drop_take union_commute)

text \<open>The loop of the least-connections balancer never improves on a minimum of \<open>-1\<close>.\<close>

lemma least_loop_nonneg:
  "(\<forall>p \<in> set bs. m \<le> be_ActiveConns (deref h p)) \<Longrightarrow> least_loop h bs sel m = sel"
  by (induction bs) (auto simp: Let_def)

text \<open>Failures in a row on one backend.\<close>

fun fail_many :: "store \<Rightarrow> ptr \<Rightarrow> time list \<Rightarrow> store" where
  "fail_many h p [] = h"
| "fail_many h p (t # ts) = fail_many (record_failure h p t) p ts"

lemma fail_many_count:
  assumes "be_FailedReqs (deref h p) = int m" and "int m + int (length ts) < 2 ^ 63"
    and "be_Healthy (deref h p) \<longleftrightarrow> m \<le> 5"
  shows "be_FailedReqs (deref (fail_many h p ts) p) = int m + int (length ts) \<and>
    (be_Healthy (deref (fail_many h p ts) p) \<longleftrightarrow> m + length ts \<le> 5)"
  using assms
proof (induction ts arbitrary: h m)
  case (Cons t ts)
  have i: "i64 (int m + 1) = int (Suc m)" using Cons.prems(2) by (simp add: in_i64_def)
  have "be_FailedReqs (deref (record_failure h p t) p) = int (Suc m)"
    "be_Healthy (deref (record_failure h p t) p) \<longleftrightarrow> Suc m \<le> 5"
    using Cons.prems(1,3) i by (auto simp: record_failure_def Let_def)
  from Cons.IH [OF this(1) _ this(2)] Cons.prems(2) show ?case by simp
qed simp

subsection \<open>Properties\<close>

text \<open>C28: Round robin is fair: with all \<open>n\<close> backends healthy, \<open>n\<close> consecutive calls of \<^verbatim>\<open>Select\<close> return
  every backend exactly once, as long as the 32-bit index does not wrap around on the way.\<close>

theorem round_robin_fair:
  assumes "rr_backends rr \<noteq> []" and "unat (rr_index rr) + length (rr_backends rr) \<le> 2 ^ 32"
    and "length (rr_backends rr) < 2 ^ 32"
    and "\<forall>p \<in> set (rr_backends rr). be_Healthy (deref h p)"
  shows "\<exists>rs rr'. select_many h rr (length (rr_backends rr)) = Ret (rs, rr') \<and>
    mset rs = mset (map Some (rr_backends rr))"
proof -
  let ?bs = "rr_backends rr" and ?i = "unat (rr_index rr)"
  have "map (\<lambda>j. Some (?bs ! ((?i + j) mod length ?bs))) [0..<length ?bs] = map Some (rotate ?i ?bs)"
    using map_rotate [of ?bs ?i, symmetric] by simp
  then show ?thesis
    using select_many_healthy [OF assms(1,3,4,2)] by (simp add: mset_rotate_eq)
qed

theorem round_robin_fair_witness:
  "let b = \<lparr>be_Addr = ''a'', be_Weight = 1, be_MaxConns = 9, be_ActiveConns = 0, be_FailedReqs = 0,
            be_LastError = 0, be_Latency = 0, be_Healthy = True\<rparr>;
       h = \<lparr>st_next = 9, st_mem = (\<lambda>_. b)\<rparr>
   in \<exists>rs rr'. select_many h \<lparr>rr_backends = [4, 7, 8], rr_index = 5\<rparr> 3 = Ret (rs, rr') \<and>
        mset rs = mset (map Some [4, 7, 8])"
  using round_robin_fair [of "\<lparr>rr_backends = [4, 7, 8], rr_index = 5\<rparr>"] by (simp add: numeral_3_eq_3)

text \<open>Whatever calls are made on a round-robin balancer and its backends, starting from the
  empty one, the registered addresses stay distinct, and the backend \<^verbatim>\<open>Select\<close> returns is
  registered and healthy.\<close>

theorem round_robin_registry:
  assumes "run rr.lb_step (h0, NewRoundRobin) ops (h, rr)"
  shows "distinct (addrs_of h (rr_backends rr)) \<and>
    (\<forall>p rr'. RoundRobin_Select h rr = Ret (Some p, rr') \<longrightarrow>
       p \<in> set (rr_backends rr) \<and> be_Healthy (deref h p))"
proof -
  have "rr.distinct_addrs (h0, NewRoundRobin)"
    by (simp add: rr.distinct_addrs_def NewRoundRobin_def)
  with assms have "rr.distinct_addrs (h, rr)" by (rule rr.distinct_addrs_run)
  then show ?thesis using rr.select_sound by (auto simp: rr.distinct_addrs_def)
qed

theorem round_robin_registry_witness:
  "let b = \<lparr>be_Addr = ''a'', be_Weight = 1, be_MaxConns = 9, be_ActiveConns = 0, be_FailedReqs = 0,
            be_LastError = 0, be_Latency = 0, be_Healthy = True\<rparr>;
       h = \<lparr>st_next = 9, st_mem = (\<lambda>_. b)\<rparr>
   in run rr.lb_step (h, NewRoundRobin) [()] (RoundRobin_Register h NewRoundRobin 3) \<and>
      distinct (addrs_of (fst (RoundRobin_Register h NewRoundRobin 3))
        (rr_backends (snd (RoundRobin_Register h NewRoundRobin 3))))"
proof -
  have *: "run rr.lb_step (h, NewRoundRobin) [()] (h', rr') \<and> distinct (addrs_of h' (rr_backends rr'))"
    if r: "RoundRobin_Register h NewRoundRobin 3 = (h', rr')" for h h' rr'
  proof -
    have "run rr.lb_step (h, NewRoundRobin) [()] (h', rr')"
      by (rule run.run_Cons [where t = "(h', rr')"]) (rule rr.lb_step.intros(1) [OF r], rule run.run_Nil)
    from this round_robin_registry [OF this] show ?thesis by simp
  qed
  show ?thesis unfolding Let_def by (metis * prod.collapse)
qed

text \<open>C40: The least-connections balancer never selects anything: when no backend has a negative
  connection count, \<^verbatim>\<open>Select\<close> returns nil, since the minimum starts at \<open>-1\<close> instead of the
  greatest integer.\<close>

theorem least_connections_never_selects:
  assumes "\<forall>p \<in> set (lc_backends lc). 0 \<le> be_ActiveConns (deref h p)"
  shows "LeastConnections_Select h lc = Ret (None, lc)"
proof -
  have "\<forall>p \<in> set (lc_backends lc). NOT 0 \<le> be_ActiveConns (deref h p)"
    using assms by fastforce
  then show ?thesis by (simp only: LeastConnections_Select_def least_loop_nonneg) simp
qed

theorem least_connections_never_selects_witness:
  "let b = \<lparr>be_Addr = ''a'', be_Weight = 1, be_MaxConns = 9, be_ActiveConns = 0, be_FailedReqs = 0,
            be_LastError = 0, be_Latency = 0, be_Healthy = True\<rparr>;
       h = \<lparr>st_next = 9, st_mem = (\<lambda>_. b)\<rparr>
   in LeastConnections_Select h \<lparr>lc_backends = [1, 2]\<rparr> = Ret (None, \<lparr>lc_backends = [1, 2]\<rparr>)"
  unfolding Let_def by (rule least_connections_never_selects) simp

text \<open>A backend is taken out of service exactly at the sixth failure in a row since its last
  success, and the next success brings it back.\<close>

theorem backend_health:
  assumes "be_FailedReqs (deref h p) = 0" and "be_Healthy (deref h p)" and "length ts < 2 ^ 63"
  shows "(be_Healthy (deref (fail_many h p ts) p) \<longleftrightarrow> length ts \<le> 5) \<and>
    be_Healthy (deref (RoundRobin_RecordSuccess (fail_many h p ts) p l) p)"
  using fail_many_count [of h p 0 ts] assms
  by (simp add: RoundRobin_RecordSuccess_def record_success_def)

theorem backend_health_witness:
  "let b = \<lparr>be_Addr = ''a'', be_Weight = 1, be_MaxConns = 9, be_ActiveConns = 0, be_FailedReqs = 0,
            be_LastError = 0, be_Latency = 0, be_Healthy = True\<rparr>;
       h = \<lparr>st_next = 9, st_mem = (\<lambda>_. b)\<rparr>
   in \<not> be_Healthy (deref (fail_many h 1 [1, 2, 3, 4, 5, 6]) 1)"
proof -
  let ?b = "\<lparr>be_Addr = ''a'', be_Weight = 1, be_MaxConns = 9, be_ActiveConns = 0, be_FailedReqs = 0,
            be_LastError = 0, be_Latency = 0, be_Healthy = True\<rparr>"
  show ?thesis
    using backend_health [of "\<lparr>st_next = 9, st_mem = (\<lambda>_. ?b)\<rparr>" 1 "[1, 2, 3, 4, 5, 6]"]
    by (simp add: Let_def del: fail_many.simps)
qed

text \<open>Discovery registers every address of its list, each once, with a balancer that held
  distinct backends before.\<close>

theorem discovery_registers_all:
  assumes "distinct (addrs_of h (rr_backends rr))" and "\<forall>p \<in> set (rr_backends rr). p < st_next h"
    and "NewDiscoveryBackend RoundRobin_Register h as interval rr = (db, h', rr')"
  shows "distinct (addrs_of h' (rr_backends rr')) \<and>
    set (addrs_of h' (rr_backends rr')) = set (addrs_of h (rr_backends rr)) \<union> set as"
proof -
  have "register_all RoundRobin_Register h rr as = (h', rr')"
    using assms(3) by (auto simp: NewDiscoveryBackend_def split: prod.split_asm)
  from rr.register_all_addrs [OF assms(2) this] assms(1) show ?thesis
    by (simp add: rr.distinct_addrs_def)
qed

theorem discovery_registers_all_witness:
  "let b = \<lparr>be_Addr = ''a'', be_Weight = 1, be_MaxConns = 9, be_ActiveConns = 0, be_FailedReqs = 0,
            be_LastError = 0, be_Latency = 0, be_Healthy = True\<rparr>;
       h = \<lparr>st_next = 9, st_mem = (\<lambda>_. b)\<rparr>;
       (db, h', rr') = NewDiscoveryBackend RoundRobin_Register h [''x'', ''y'', ''x''] 5 NewRoundRobin
   in distinct (addrs_of h' (rr_backends rr')) \<and> set (addrs_of h' (rr_backends rr')) = {''x'', ''y''}"
proof -
  let ?b = "\<lparr>be_Addr = ''a'', be_Weight = 1, be_MaxConns = 9, be_ActiveConns = 0, be_FailedReqs = 0,
            be_LastError = 0, be_Latency = 0, be_Healthy = True\<rparr>"
  let ?h = "\<lparr>st_next = 9, st_mem = (\<lambda>_. ?b)\<rparr>"
  obtain db h' rr' where
    n: "NewDiscoveryBackend RoundRobin_Register ?h [''x'', ''y'', ''x''] 5 NewRoundRobin = (db, h', rr')"
    by (metis prod_cases3)
  have "distinct (addrs_of h' (rr_backends rr')) \<and> set (addrs_of h' (rr_backends rr')) = {''x'', ''y''}"
    using discovery_registers_all [OF _ _ n] by (auto simp: NewRoundRobin_def)
  then show ?thesis by (simp only: Let_def n prod.case)
qed

end
