(* ===== verification/WB_Float64.thy ===== *)
theory WB_Float64
  imports Complex_Main WB_Prelude
begin

text \<open>
  \<^verbatim>\<open>float64\<close>: a finite double is a rational number, and an operation is the exact operation
  followed by rounding to nearest, ties to even, with a 53-bit significand and gradual
  underflow at \<open>2\<^sup>-\<^sup>1\<^sup>0\<^sup>7\<^sup>4\<close>.  Infinities, NaN and the sign of zero are left out: no value of
  the modelled code comes near \<open>2\<^sup>1\<^sup>0\<^sup>2\<^sup>4\<close>.  Each operation rounds, as on amd64; a fused
  multiply-add is not modelled.
\<close>

subsection \<open>Rounding to an integer, ties to even\<close>

definition round_even :: "rat \<Rightarrow> int" where
  "round_even r =
     (let f = \<lfloor>r\<rfloor>; d = r - of_int f
      in if d < 1 / 2 then f else if 1 / 2 < d then f + 1 else if even f then f else f + 1)"

lemma round_even_of_int [simp]: "round_even (of_int n) = n"
  by (simp add: round_even_def)

lemma round_even_bounds: "\<lfloor>r\<rfloor> \<le> round_even r" "round_even r \<le> \<lfloor>r\<rfloor> + 1"
  by (simp_all add: round_even_def Let_def)

lemma round_even_mono:
  assumes "r \<le> s"
  shows "round_even r \<le> round_even s"
proof (cases "\<lfloor>r\<rfloor> = \<lfloor>s\<rfloor>")
  case True
  with assms show ?thesis by (auto simp: round_even_def Let_def)
next
  case False
  then have "\<lfloor>r\<rfloor> + 1 \<le> \<lfloor>s\<rfloor>" using floor_mono [OF assms] by simp
  then show ?thesis using round_even_bounds(2) [of r] round_even_bounds(1) [of s] by linarith
qed

lemma round_even_minus [simp]: "round_even (- r) = - round_even r"
proof (cases "r = of_int \<lfloor>r\<rfloor>")
  case True
  then show ?thesis by (metis of_int_minus round_even_of_int)
next
  case False
  then have "\<lfloor>- r\<rfloor> = - \<lfloor>r\<rfloor> - 1"
    by (intro floor_unique) (auto simp: algebra_simps le_less; linarith)+
  then have "of_int \<lfloor>- r\<rfloor> = - of_int \<lfloor>r\<rfloor> - (1 :: rat)" "even \<lfloor>- r\<rfloor> \<longleftrightarrow> odd \<lfloor>r\<rfloor>" "\<lfloor>- r\<rfloor> = - \<lfloor>r\<rfloor> - 1"
    by simp_all
  then show ?thesis
    unfolding round_even_def Let_def by (simp only:) auto
qed

subsection \<open>The binary exponent\<close>

function bit_length :: "int \<Rightarrow> nat" where
  "bit_length n = (if n \<le> 0 then 0 else Suc (bit_length (n div 2)))"
  by auto
termination by (relation "measure nat") auto

declare bit_length.simps [simp del]

definition ilog2 :: "rat \<Rightarrow> int" where
  "ilog2 x = (if 1 \<le> x then int (bit_length \<lfloor>x\<rfloor>) - 1 else - int (bit_length (\<lceil>1 / x\<rceil> - 1)))"

lemma powi_rat_pos [simp]: "0 < (2 :: rat) powi e" "0 \<le> (2 :: rat) powi e" "(2 :: rat) powi e \<noteq> 0"
    "\<not> (2 :: rat) powi e \<le> 0"
  by (simp_all add: zero_less_power_int zero_le_power_int not_le)

lemma bit_length_bounds:
  "0 < n \<Longrightarrow> 2 ^ (bit_length n - 1) \<le> n \<and> n + 1 \<le> 2 ^ bit_length n \<and> 0 < bit_length n"
proof (induction n rule: bit_length.induct)
  case (1 n)
  show ?case
  proof (cases "n = 1")
    case True
    then show ?thesis by (simp add: bit_length.simps [of 1] bit_length.simps [of 0])
  next
    case False
    with 1 have "0 < n div 2" by auto
    with 1 have IH: "2 ^ (bit_length (n div 2) - 1) \<le> n div 2" "n div 2 + 1 \<le> 2 ^ bit_length (n div 2)"
        "0 < bit_length (n div 2)" by auto
    then obtain k where k: "bit_length (n div 2) = Suc k" using gr0_conv_Suc by blast
    with IH have "2 * 2 ^ k \<le> n" "n + 1 \<le> 2 * 2 ^ Suc k" by auto
    with k 1 show ?thesis by (simp add: bit_length.simps [of n])
  qed
qed

lemma bit_length_rat:
  assumes "0 < n"
  shows "(2 :: rat) ^ (bit_length n - 1) \<le> of_int n" and "of_int n + 1 \<le> (2 :: rat) ^ bit_length n"
    and "0 < bit_length n"
proof -
  have "(of_int (2 ^ (bit_length n - 1)) :: rat) \<le> of_int n" "(of_int (n + 1) :: rat) \<le> of_int (2 ^ bit_length n)"
      "0 < bit_length n"
    using bit_length_bounds [OF assms] by (simp_all only: of_int_le_iff)
  then show "(2 :: rat) ^ (bit_length n - 1) \<le> of_int n" "of_int n + 1 \<le> (2 :: rat) ^ bit_length n"
      "0 < bit_length n"
    by simp_all
qed

lemma ilog2_bounds_ge1:
  assumes "1 \<le> x"
  shows "2 powi (ilog2 x) \<le> x \<and> x < 2 powi (ilog2 x + 1)"
proof -
  define k where "k = bit_length \<lfloor>x\<rfloor>"
  have n: "0 < \<lfloor>x\<rfloor>" using assms by linarith
  have x: "of_int \<lfloor>x\<rfloor> \<le> x" "x < of_int \<lfloor>x\<rfloor> + 1" by linarith+
  have k: "0 < k" unfolding k_def by (rule bit_length_rat [OF n])
  have e: "ilog2 x = int (k - 1)" using assms k by (simp add: ilog2_def k_def)
  have p: "int (k - 1) + 1 = int k" using k by simp
  show ?thesis
    unfolding e p power_int_of_nat using bit_length_rat [OF n, folded k_def] x by (intro conjI) linarith+
qed

lemma ilog2_bounds_lt1:
  assumes "0 < x" and "x < 1"
  shows "2 powi (ilog2 x) \<le> x \<and> x < 2 powi (ilog2 x + 1)"
proof -
  define c where "c = \<lceil>1 / x\<rceil> - 1"
  define k where "k = bit_length c"
  have "1 < 1 / x" using assms by (simp add: field_simps)
  then have "1 < \<lceil>1 / x\<rceil>" by (simp only: less_ceiling_iff of_int_1)
  then have c: "0 < c" by (simp add: c_def)
  have k: "0 < k" unfolding k_def by (rule bit_length_rat [OF c])
  have r: "1 / x \<le> of_int c + 1" "of_int c < 1 / x" unfolding c_def of_int_diff of_int_1 by linarith+
  have b: "1 / x \<le> 2 ^ k" "2 ^ (k - 1) < 1 / x" using bit_length_rat [OF c, folded k_def] r by linarith+
  have lo: "1 / 2 ^ k \<le> x" using b(1) assms(1) by (simp add: pos_divide_le_eq mult.commute)
  have hi: "x < 1 / 2 ^ (k - 1)" using b(2) assms(1) by (simp add: pos_less_divide_eq mult.commute)
  have e: "ilog2 x = - int k" using assms by (simp add: ilog2_def c_def k_def)
  have p: "- int k + 1 = - int (k - 1)" using k by simp
  show ?thesis
    unfolding e p power_int_minus power_int_of_nat using lo hi by (simp add: inverse_eq_divide)
qed

lemma ilog2_bounds:
  assumes "0 < x"
  shows "2 powi (ilog2 x) \<le> x" and "x < 2 powi (ilog2 x + 1)"
  using ilog2_bounds_ge1 [of x] ilog2_bounds_lt1 [of x] assms by (cases "1 \<le> x"; auto)+

lemma powi_less_iff: "(2 :: rat) powi a < 2 powi b \<longleftrightarrow> a < b"
  by (metis not_less_iff_gr_or_eq one_less_numeral_iff power_int_strict_increasing semiring_norm(76))

lemma powi_le_iff: "(2 :: rat) powi a \<le> 2 powi b \<longleftrightarrow> a \<le> b"
  by (metis leI not_le powi_less_iff)

lemma ilog2_mono:
  assumes "0 < x" and "x \<le> y"
  shows "ilog2 x \<le> ilog2 y"
proof -
  have "2 powi (ilog2 x) < (2 :: rat) powi (ilog2 y + 1)"
    using ilog2_bounds(1) [of x] ilog2_bounds(2) [of y] assms by linarith
  then show ?thesis by (simp add: powi_less_iff)
qed

lemma ilog2_less:
  assumes "0 < x" and "x < 2 powi e"
  shows "ilog2 x < e"
  using ilog2_bounds(1) [OF assms(1)] assms(2) powi_less_iff [of "ilog2 x" e] by linarith

lemma ilog2_ge:
  assumes "2 powi e \<le> x"
  shows "e \<le> ilog2 x"
proof -
  have "0 < x" using assms powi_rat_pos(1) [of e] by linarith
  then show ?thesis using ilog2_bounds(2) [of x] assms powi_less_iff [of e "ilog2 x + 1"] by linarith
qed

subsection \<open>Rounding to a double\<close>

definition f64_exp :: "rat \<Rightarrow> int" where
  "f64_exp x = max (ilog2 \<bar>x\<bar> - 52) (-1074)"

definition f64 :: "rat \<Rightarrow> rat" where
  "f64 x = (if x = 0 then 0 else of_int (round_even (x / 2 powi f64_exp x)) * 2 powi f64_exp x)"

lemma f64_zero [simp]: "f64 0 = 0"
  by (simp add: f64_def)

lemma f64_minus [simp]: "f64 (- x) = - f64 x"
  by (simp add: f64_def f64_exp_def)

lemma round_even_ge: "of_int n \<le> r \<Longrightarrow> n \<le> round_even r"
  by (metis round_even_mono round_even_of_int)

lemma round_even_le: "r \<le> of_int n \<Longrightarrow> round_even r \<le> n"
  by (metis round_even_mono round_even_of_int)

text \<open>A number with a significand of at most 53 bits is not changed.\<close>

lemma f64_exact:
  assumes "\<bar>m\<bar> \<le> 2 ^ 53" and "-1074 \<le> e"
  shows "f64 (of_int m * 2 powi e) = of_int m * 2 powi e"
proof (cases "m = 0")
  case False
  let ?x = "of_int m * 2 powi e :: rat"
  have x: "\<bar>?x\<bar> = of_int \<bar>m\<bar> * 2 powi e" by (simp add: abs_mult)
  have nz: "?x \<noteq> 0" using False by simp
  show ?thesis
  proof (cases "f64_exp ?x \<le> e")
    case True
    define g where "g = f64_exp ?x"
    define d where "d = nat (e - g)"
    have g: "(2 :: rat) powi e = 2 ^ d * 2 powi g"
    proof -
      have "e = int d + g" using True by (simp add: d_def g_def)
      then show ?thesis by (simp add: power_int_add)
    qed
    have "?x / 2 powi g = of_int (m * 2 ^ d)" unfolding g by simp
    then have "f64 ?x = of_int (m * 2 ^ d) * 2 powi g"
      unfolding f64_def g_def [symmetric] using nz by (simp only: round_even_of_int if_False)
    also have "\<dots> = ?x" unfolding g by simp
    finally show ?thesis .
  next
    case False
    then have big: "e < ilog2 \<bar>?x\<bar> - 52" using assms(2) by (auto simp: f64_exp_def max_def split: if_splits)
    have "2 powi (ilog2 \<bar>?x\<bar>) \<le> \<bar>?x\<bar>" using nz by (intro ilog2_bounds) simp
    also have "\<dots> \<le> 2 ^ 53 * 2 powi e"
      unfolding x using assms(1) by (intro mult_right_mono) (simp_all flip: of_int_le_iff)
    also have "\<dots> = 2 powi (e + 53)" by (simp add: power_int_add)
    finally have "ilog2 \<bar>?x\<bar> \<le> e + 53" by (simp only: powi_le_iff)
    with big have eq: "ilog2 \<bar>?x\<bar> = e + 53" by linarith
    then have "2 powi (e + 53) \<le> \<bar>?x\<bar>" using nz by (metis ilog2_bounds(1) zero_less_abs_iff)
    then have "2 ^ 53 * 2 powi e \<le> of_int \<bar>m\<bar> * (2 :: rat) powi e"
      unfolding x by (simp add: power_int_add)
    then have "\<bar>m\<bar> = 2 ^ 53" using assms(1) by (simp flip: of_int_le_iff)
    then have "even \<bar>m\<bar>" by simp
    then have "even m" by simp
    then obtain h where h: "m = h * 2" by (auto elim: evenE)
    have g: "f64_exp ?x = e + 1" using eq assms(2) by (simp add: f64_exp_def)
    have "?x / 2 powi (e + 1) = of_int h" unfolding h by (simp add: power_int_add)
    then have "f64 ?x = of_int h * 2 powi (e + 1)"
      unfolding f64_def g using nz by (simp only: round_even_of_int if_False)
    then show ?thesis unfolding h by (simp add: power_int_add)
  qed
qed simp

lemma f64_of_int [simp]: "\<bar>m\<bar> \<le> 2 ^ 53 \<Longrightarrow> f64 (of_int m) = of_int m"
  using f64_exact [of m 0] by simp

lemma powi_diff_nat: "g \<le> l \<Longrightarrow> (2 :: rat) powi l = of_int (2 ^ nat (l - g)) * 2 powi g"
  using power_int_add [of "2 :: rat" "int (nat (l - g))" g] power_int_of_nat [of "2 :: rat" "nat (l - g)"]
  by simp

text \<open>A power of two that is not below the last place bounds the rounded number too.\<close>

lemma f64_le_powi:
  assumes "0 < x" and "x \<le> 2 powi l" and "f64_exp x \<le> l"
  shows "f64 x \<le> 2 powi l"
proof -
  define g where "g = f64_exp x"
  have l: "(2 :: rat) powi l = of_int (2 ^ nat (l - g)) * 2 powi g"
    using assms(3) by (intro powi_diff_nat) (simp add: g_def)
  have "x / 2 powi g \<le> of_int (2 ^ nat (l - g))" using assms(2) l by (simp add: pos_divide_le_eq)
  then have "of_int (round_even (x / 2 powi g)) \<le> (of_int (2 ^ nat (l - g)) :: rat)"
    by (simp only: of_int_le_iff round_even_le)
  then show ?thesis
    unfolding l f64_def g_def [symmetric] using assms(1) by (simp only: if_False mult_right_mono powi_rat_pos less_irrefl split: if_split) simp
qed

lemma f64_ge_powi:
  assumes "2 powi l \<le> x" and "f64_exp x \<le> l"
  shows "2 powi l \<le> f64 x"
proof -
  define g where "g = f64_exp x"
  have l: "(2 :: rat) powi l = of_int (2 ^ nat (l - g)) * 2 powi g"
    using assms(2) by (intro powi_diff_nat) (simp add: g_def)
  have "x \<noteq> 0" using assms(1) powi_rat_pos(1) [of l] by linarith
  have "of_int (2 ^ nat (l - g)) \<le> x / 2 powi g" using assms(1) l by (simp add: pos_le_divide_eq)
  then have "(of_int (2 ^ nat (l - g)) :: rat) \<le> of_int (round_even (x / 2 powi g))"
    by (simp only: of_int_le_iff round_even_ge)
  then show ?thesis
    unfolding l f64_def g_def [symmetric] using \<open>x \<noteq> 0\<close> by (simp only: if_False mult_right_mono powi_rat_pos)
qed

lemma f64_exp_mono: "0 < x \<Longrightarrow> x \<le> y \<Longrightarrow> f64_exp x \<le> f64_exp y"
  using ilog2_mono [of x y] by (simp add: f64_exp_def)

lemma f64_mono_pos:
  assumes "0 < x" and "x \<le> y"
  shows "f64 x \<le> f64 y"
proof (cases "f64_exp x = f64_exp y")
  case True
  define g where "g = f64_exp y"
  have "x / 2 powi g \<le> y / 2 powi g" using assms(2) by (simp add: divide_right_mono)
  then have "of_int (round_even (x / 2 powi g)) * 2 powi g \<le> (of_int (round_even (y / 2 powi g)) * 2 powi g :: rat)"
    by (intro mult_right_mono) (simp_all add: round_even_mono)
  then show ?thesis using True assms by (simp add: f64_def g_def)
next
  case False
  then have less: "f64_exp x < f64_exp y" using f64_exp_mono [OF assms] by simp
  then have y: "f64_exp y = ilog2 y - 52" using assms by (simp add: f64_exp_def max_def split: if_splits)
  have x: "ilog2 x - 52 < ilog2 y - 52" "f64_exp x \<le> ilog2 y"
    using less y assms by (auto simp: f64_exp_def max_def split: if_splits)
  have "x \<le> 2 powi ilog2 y"
    using ilog2_bounds(2) [OF assms(1)] x(1) powi_le_iff [of "ilog2 x + 1" "ilog2 y"] by linarith
  then have "f64 x \<le> 2 powi ilog2 y" using assms(1) x(2) by (intro f64_le_powi)
  also have "\<dots> \<le> f64 y" using assms y by (intro f64_ge_powi ilog2_bounds) linarith+
  finally show ?thesis .
qed

lemma f64_nonneg [simp]: "0 \<le> x \<Longrightarrow> 0 \<le> f64 x"
  by (simp add: f64_def round_even_ge)

lemma f64_mono:
  assumes "x \<le> y"
  shows "f64 x \<le> f64 y"
proof -
  consider "0 < x" | "x = 0" | "x < 0" "0 \<le> y" | "y < 0" using assms by linarith
  then show ?thesis
  proof cases
    case 3
    then have "0 \<le> f64 (- x)" "0 \<le> f64 y" by (intro f64_nonneg; simp)+
    then show ?thesis unfolding f64_minus by linarith
  next
    case 4
    then have "f64 (- y) \<le> f64 (- x)" using assms by (intro f64_mono_pos) simp_all
    then show ?thesis by simp
  qed (use assms f64_mono_pos in simp_all)
qed

text \<open>The doubles: the numbers that rounding keeps.\<close>

definition is_f64 :: "rat \<Rightarrow> bool" where
  "is_f64 x \<longleftrightarrow> f64 x = x"

lemma is_f64_zero [simp]: "is_f64 0"
  by (simp add: is_f64_def)

lemma significand_bounds:
  assumes "0 < x"
  shows "0 \<le> round_even (x / 2 powi f64_exp x)" and "round_even (x / 2 powi f64_exp x) \<le> 2 ^ 53"
proof -
  define g where "g = f64_exp x"
  have "ilog2 x + 1 \<le> 53 + g" using assms by (simp add: g_def f64_exp_def)
  then have "x \<le> 2 powi (53 + g)"
    using ilog2_bounds(2) [OF assms] powi_le_iff [of "ilog2 x + 1" "53 + g"] by linarith
  then have "x / 2 powi g \<le> of_int (2 ^ 53)" by (simp add: pos_divide_le_eq power_int_add)
  then show "round_even (x / 2 powi f64_exp x) \<le> 2 ^ 53" unfolding g_def by (rule round_even_le)
  show "0 \<le> round_even (x / 2 powi f64_exp x)" using assms by (simp add: round_even_ge)
qed

lemma f64_idem_pos:
  assumes "0 < x"
  shows "f64 (f64 x) = f64 x"
proof -
  have "f64 x = of_int (round_even (x / 2 powi f64_exp x)) * 2 powi f64_exp x"
    using assms by (simp add: f64_def)
  then show ?thesis
    using f64_exact [of "round_even (x / 2 powi f64_exp x)" "f64_exp x"] significand_bounds [OF assms]
    by (simp add: f64_exp_def)
qed

lemma is_f64_f64 [simp]: "is_f64 (f64 x)"
proof -
  consider "0 < x" | "x = 0" | "0 < - x" by linarith
  then show ?thesis
  proof cases
    case 3
    from f64_idem_pos [OF this] show ?thesis by (simp add: is_f64_def)
  qed (simp_all add: is_f64_def f64_idem_pos)
qed

lemma f64_id: "is_f64 x \<Longrightarrow> f64 x = x"
  by (simp add: is_f64_def)

subsection \<open>Arithmetic and durations\<close>

definition f_add :: "rat \<Rightarrow> rat \<Rightarrow> rat" where "f_add x y = f64 (x + y)"
definition f_sub :: "rat \<Rightarrow> rat \<Rightarrow> rat" where "f_sub x y = f64 (x - y)"
definition f_mul :: "rat \<Rightarrow> rat \<Rightarrow> rat" where "f_mul x y = f64 (x * y)"
definition f_div :: "rat \<Rightarrow> rat \<Rightarrow> rat" where "f_div x y = f64 (x / y)"

lemmas f_defs = f_add_def f_sub_def f_mul_def f_div_def

text \<open>Counting down by one is exact below \<open>2\<^sup>5\<^sup>3\<close>.\<close>

lemma f_sub_one:
  assumes "is_f64 x" and "1 \<le> x" and "x < 2 ^ 53"
  shows "f_sub x 1 = x - 1"
proof -
  define g where "g = f64_exp x"
  define m where "m = round_even (x / 2 powi g)"
  have x: "x = of_int m * 2 powi g"
    using assms(1,2) unfolding is_f64_def f64_def g_def [symmetric] m_def [symmetric]
    by (auto split: if_splits)
  have m: "m \<le> 2 ^ 53" using significand_bounds(2) [of x] assms(2) by (simp add: m_def g_def)
  have "ilog2 x < 53" using assms by (intro ilog2_less) simp_all
  then have g: "g \<le> 0" "-1074 \<le> g" using assms(2) by (simp_all add: g_def f64_exp_def)
  have one: "1 = of_int (2 ^ nat (- g)) * (2 :: rat) powi g" using powi_diff_nat [OF g(1)] by simp
  have eq: "x - 1 = of_int (m - 2 ^ nat (- g)) * 2 powi g"
    using x one by (simp only: of_int_diff left_diff_distrib)
  have "0 \<le> of_int (m - 2 ^ nat (- g)) * (2 :: rat) powi g" unfolding eq [symmetric] using assms(2) by simp
  then have "2 ^ nat (- g) \<le> m" by (simp add: zero_le_mult_iff flip: of_int_diff)
  then have "\<bar>m - 2 ^ nat (- g)\<bar> \<le> 2 ^ 53"
    using m zero_le_power [of "2 :: int" "nat (- g)"] by linarith
  then show ?thesis unfolding f_sub_def eq using g(2) by (rule f64_exact)
qed

text \<open>\<^verbatim>\<open>Duration.Seconds()\<close>: whole seconds and the remaining nanoseconds, added as doubles.\<close>

definition Seconds :: "duration \<Rightarrow> rat" where
  "Seconds d = f_add (f64 (of_int (go_quot d Second)))
                     (f_div (f64 (of_int (go_rem d Second))) (of_int Second))"

lemma Seconds_zero [simp]: "Seconds 0 = 0"
  by (simp add: Seconds_def f_defs Second_def)

lemma Seconds_nonneg [simp]: "0 \<le> d \<Longrightarrow> 0 \<le> Seconds d"
  by (simp add: Seconds_def f_defs Second_def)

lemma whole_seconds_bound:
  assumes "0 \<le> d" and "d \<le> max_duration"
  shows "\<bar>d div Second\<bar> \<le> 2 ^ 53 - 1"
proof -
  have "d div Second \<le> max_duration div Second" using assms by (intro zdiv_mono1) (simp_all add: Second_def)
  also have "\<dots> \<le> 2 ^ 53 - 1" by (simp add: Second_def max_duration_def)
  finally show ?thesis using assms by (simp add: Second_def pos_imp_zdiv_nonneg_iff)
qed

lemma Seconds_eq:
  assumes "0 \<le> d" and "d \<le> max_duration"
  shows "Seconds d = f64 (of_int (d div Second) + f64 (of_int (d mod Second) / of_int Second))"
proof -
  have S: "0 < Second" by (simp add: Second_def)
  have r: "0 \<le> d mod Second" "d mod Second < Second" using S by simp_all
  have g: "go_quot d Second = d div Second" "go_rem d Second = d mod Second" using assms(1) S by simp_all
  have q': "f64 (of_int (d div Second)) = of_int (d div Second)"
    by (rule f64_of_int) (use whole_seconds_bound [OF assms] in linarith)
  have r': "f64 (of_int (d mod Second)) = of_int (d mod Second)"
    by (rule f64_of_int) (use r in \<open>simp add: Second_def\<close>)
  show ?thesis unfolding Seconds_def f_defs g q' r' ..
qed

lemma Seconds_mono:
  assumes "0 \<le> d" and "d \<le> d'" and "d' \<le> max_duration"
  shows "Seconds d \<le> Seconds d'"
proof -
  define q r where "q = d div Second" and "r = d mod Second"
  define q' r' where "q' = d' div Second" and "r' = d' mod Second"
  have S: "0 < Second" by (simp add: Second_def)
  have q: "q \<le> q'" unfolding q_def q'_def using assms S by (intro zdiv_mono1)
  have r: "0 \<le> r" "r < Second" "0 \<le> r'" unfolding r_def r'_def using S by simp_all
  have eq: "Seconds d = f64 (of_int q + f64 (of_int r / of_int Second))"
      "Seconds d' = f64 (of_int q' + f64 (of_int r' / of_int Second))"
    unfolding q_def q'_def r_def r'_def using assms by (intro Seconds_eq; linarith)+
  show ?thesis
  proof (cases "q = q'")
    case True
    then have "r \<le> r'" using assms(2) unfolding q_def q'_def r_def r'_def
      by (metis add_le_cancel_left div_mult_mod_eq)
    then have "(of_int r :: rat) / of_int Second \<le> of_int r' / of_int Second"
      using S by (intro divide_right_mono) simp_all
    then show ?thesis unfolding eq True by (intro f64_mono add_left_mono)
  next
    case False
    then have "of_int (q + 1) \<le> (of_int q' :: rat)" using q by (simp only: of_int_le_iff)
    then have 1: "(of_int q :: rat) + 1 \<le> of_int q'" by simp
    have "of_int r / of_int Second \<le> (1 :: rat)" using r S by simp
    from f64_mono [OF this] have 2: "f64 (of_int r / of_int Second) \<le> 1" using f64_of_int [of 1] by simp
    have 3: "0 \<le> f64 (of_int r' / of_int Second)" using r S by (intro f64_nonneg) simp
    show ?thesis unfolding eq by (rule f64_mono) (use 1 2 3 in linarith)
  qed
qed

end
