(* ===== verification/WB_RateLimit.thy ===== *)
theory WB_RateLimit
  imports WB_Float64 WB_Interfaces "HOL-Library.Multiset"
begin

text \<open>
  \<^verbatim>\<open>ratelimit.go\<close>: the token bucket \<^verbatim>\<open>RateLimiter\<close> with its bucket per address, and the
  \<^verbatim>\<open>ConnectionRateLimiter\<close>.  Every method runs under the limiter's mutex and calls no other
  locking method, so a call is one step.  The ticker is whether it ticks; no method of the limiter
  reads it, and a pass of the clean-up loop is an operation of its own.
\<close>

subsection \<open>The token bucket\<close>

record IPRateLimiter =
  ip_tokens :: rat
  lastAccess :: time

record RateLimiter =
  tokens :: rat
  maxTokens :: rat
  refillRate :: rat
  lastRefill :: time
  perIPLimiters :: "string \<rightharpoonup> IPRateLimiter"
  cleanupTicker :: bool

definition NewRateLimiter :: "time \<Rightarrow> rat \<Rightarrow> rat \<Rightarrow> RateLimiter" where
  "NewRateLimiter now max_tokens rate =
     \<lparr>tokens = max_tokens, maxTokens = max_tokens, refillRate = rate, lastRefill = now,
      perIPLimiters = Map.empty, cleanupTicker = True\<rparr>"

definition rl_refill :: "time \<Rightarrow> RateLimiter \<Rightarrow> RateLimiter" where
  "rl_refill now rl =
     (let elapsed = Seconds (time_Sub now (lastRefill rl));
          t = f_add (tokens rl) (f_mul elapsed (refillRate rl));
          t = (if t > maxTokens rl then maxTokens rl else t)
      in rl\<lparr>tokens := t, lastRefill := now\<rparr>)"

definition rl_Allow :: "time \<Rightarrow> RateLimiter \<Rightarrow> bool \<times> RateLimiter" where
  "rl_Allow now rl =
     (let rl = rl_refill now rl
      in if tokens rl \<ge> 1 then (True, rl\<lparr>tokens := f_sub (tokens rl) 1\<rparr>) else (False, rl))"

definition rl_AllowN :: "time \<Rightarrow> rat \<Rightarrow> RateLimiter \<Rightarrow> bool \<times> RateLimiter" where
  "rl_AllowN now n rl =
     (let rl = rl_refill now rl
      in if tokens rl \<ge> n then (True, rl\<lparr>tokens := f_sub (tokens rl) n\<rparr>) else (False, rl))"

text \<open>
  \<^verbatim>\<open>AllowIP\<close> reads the clock up to three times: \<open>t1\<close> when the address is new, \<open>t2\<close> in
  \<^verbatim>\<open>time.Since\<close>, \<open>t3\<close> for the new time of last access.
\<close>

definition rl_AllowIP :: "time \<Rightarrow> time \<Rightarrow> time \<Rightarrow> string \<Rightarrow> RateLimiter \<Rightarrow> bool \<times> RateLimiter" where
  "rl_AllowIP t1 t2 t3 ip rl =
     (let l = (case perIPLimiters rl ip of
                 None \<Rightarrow> \<lparr>ip_tokens = f_div (maxTokens rl) 10, lastAccess = t1\<rparr>
               | Some l \<Rightarrow> l);
          elapsed = Seconds (time_Sub t2 (lastAccess l));
          t = f_add (ip_tokens l) (f_mul elapsed (f_div (refillRate rl) 10));
          t = (if t > f_div (maxTokens rl) 10 then f_div (maxTokens rl) 10 else t);
          ok = (t \<ge> 1);
          t = (if ok then f_sub t 1 else t)
      in (ok, rl\<lparr>perIPLimiters := (perIPLimiters rl)(ip \<mapsto> \<lparr>ip_tokens = t, lastAccess = t3\<rparr>)\<rparr>))"

definition rl_cleanup :: "time \<Rightarrow> string list \<Rightarrow> RateLimiter \<Rightarrow> RateLimiter" where
  "rl_cleanup now ord rl =
     rl\<lparr>perIPLimiters :=
          map_purge (\<lambda>l. time_Sub now (lastAccess l) > 5 * Minute) ord (perIPLimiters rl)\<rparr>"

definition GetTokens :: "RateLimiter \<Rightarrow> rat" where
  "GetTokens rl = tokens rl"

definition rl_Stop :: "RateLimiter \<Rightarrow> RateLimiter" where
  "rl_Stop rl = rl\<lparr>cleanupTicker := False\<rparr>"

subsection \<open>The level of a bucket stays between zero and its capacity\<close>

text \<open>
  \<open>bucket_ok cap\<close>: the level is a double between zero and the capacity.  The parameters of a
  limiter are doubles, not negative, and no time in it lies in the future of the clock \<open>T\<close>.
\<close>

definition bucket_ok :: "rat \<Rightarrow> rat \<Rightarrow> bool" where
  "bucket_ok cap t \<longleftrightarrow> is_f64 t \<and> 0 \<le> t \<and> t \<le> cap"

definition rl_params :: "RateLimiter \<Rightarrow> bool" where
  "rl_params rl \<longleftrightarrow> is_f64 (maxTokens rl) \<and> 0 \<le> maxTokens rl \<and> 0 \<le> refillRate rl"

definition rl_ok :: "time \<Rightarrow> RateLimiter \<Rightarrow> bool" where
  "rl_ok T rl \<longleftrightarrow> rl_params rl \<and> bucket_ok (maxTokens rl) (tokens rl) \<and> lastRefill rl \<le> T \<and>
     (\<forall>ip l. perIPLimiters rl ip = Some l \<longrightarrow>
        bucket_ok (f_div (maxTokens rl) 10) (ip_tokens l) \<and> lastAccess l \<le> T)"

text \<open>Refilling and taking, as both kinds of bucket do it.\<close>

definition fill :: "rat \<Rightarrow> rat \<Rightarrow> rat \<Rightarrow> rat \<Rightarrow> rat" where
  "fill cap rate elapsed t = (let t' = f_add t (f_mul elapsed rate) in if t' > cap then cap else t')"

lemma fill_ok:
  assumes "bucket_ok cap t" and "is_f64 cap" and "0 \<le> rate" and "0 \<le> elapsed"
  shows "bucket_ok cap (fill cap rate elapsed t)"
  using assms by (auto simp: fill_def bucket_ok_def f_defs Let_def)

lemma fill_ge:
  assumes "bucket_ok cap t" and "0 \<le> rate" and "0 \<le> elapsed"
  shows "t \<le> fill cap rate elapsed t"
  using f64_mono [of t "t + f_mul elapsed rate"] assms
  by (auto simp: fill_def bucket_ok_def f_add_def f_mul_def Let_def f64_id)

lemma fill_zero: "bucket_ok cap t \<Longrightarrow> fill cap rate 0 t = t"
  by (auto simp: fill_def bucket_ok_def f_defs Let_def f64_id)

lemma take_ok: "bucket_ok cap t \<Longrightarrow> 0 \<le> n \<Longrightarrow> n \<le> t \<Longrightarrow> bucket_ok cap (f_sub t n)"
  using f64_mono [of "t - n" t] by (auto simp: bucket_ok_def f_defs f64_id)

lemma rl_refill_fill:
  "rl_refill now rl =
     rl\<lparr>tokens := fill (maxTokens rl) (refillRate rl) (Seconds (time_Sub now (lastRefill rl))) (tokens rl),
        lastRefill := now\<rparr>"
  by (simp add: rl_refill_def fill_def Let_def)

definition ip_bucket :: "time \<Rightarrow> string \<Rightarrow> RateLimiter \<Rightarrow> IPRateLimiter" where
  "ip_bucket t1 ip rl =
     (case perIPLimiters rl ip of
        None \<Rightarrow> \<lparr>ip_tokens = f_div (maxTokens rl) 10, lastAccess = t1\<rparr>
      | Some l \<Rightarrow> l)"

definition ip_level :: "time \<Rightarrow> time \<Rightarrow> string \<Rightarrow> RateLimiter \<Rightarrow> rat" where
  "ip_level t1 t2 ip rl =
     fill (f_div (maxTokens rl) 10) (f_div (refillRate rl) 10)
       (Seconds (time_Sub t2 (lastAccess (ip_bucket t1 ip rl)))) (ip_tokens (ip_bucket t1 ip rl))"

lemma rl_AllowIP_level:
  "rl_AllowIP t1 t2 t3 ip rl =
     (let t = ip_level t1 t2 ip rl; ok = (t \<ge> 1)
      in (ok, rl\<lparr>perIPLimiters := (perIPLimiters rl)
                  (ip \<mapsto> \<lparr>ip_tokens = if ok then f_sub t 1 else t, lastAccess = t3\<rparr>)\<rparr>))"
  by (simp add: rl_AllowIP_def ip_level_def ip_bucket_def fill_def Let_def)

lemma rl_refill_ok: "rl_ok T rl \<Longrightarrow> T \<le> now \<Longrightarrow> rl_ok now (rl_refill now rl)"
  by (force simp: rl_refill_fill rl_ok_def rl_params_def intro!: fill_ok Seconds_nonneg time_Sub_nonneg)

lemma ip_level_ok:
  assumes "rl_ok T rl" and "T \<le> t1" and "t1 \<le> t2"
  shows "bucket_ok (f_div (maxTokens rl) 10) (ip_level t1 t2 ip rl)"
proof -
  have "bucket_ok (f_div (maxTokens rl) 10) (ip_tokens (ip_bucket t1 ip rl))"
      "lastAccess (ip_bucket t1 ip rl) \<le> t2"
    using assms by (auto simp: ip_bucket_def rl_ok_def rl_params_def bucket_ok_def f_defs split: option.splits)
      (meson order_trans)
  then show ?thesis
    using assms unfolding ip_level_def
    by (intro fill_ok Seconds_nonneg time_Sub_nonneg) (simp_all add: rl_ok_def rl_params_def f_defs)
qed

text \<open>The operations of a limiter with the clock, as labelled steps: the clock never goes back.\<close>

datatype rl_event =
  EAllow time
| EAllowN time rat
| EAllowIP time time time string
| ECleanup time "string list"

inductive rl_step :: "time \<times> RateLimiter \<Rightarrow> rl_event \<times> bool \<Rightarrow> time \<times> RateLimiter \<Rightarrow> bool" where
  rl_step_Allow: "T \<le> now \<Longrightarrow> rl_Allow now rl = (b, rl') \<Longrightarrow>
    rl_step (T, rl) (EAllow now, b) (now, rl')"
| rl_step_AllowN: "T \<le> now \<Longrightarrow> rl_AllowN now n rl = (b, rl') \<Longrightarrow>
    rl_step (T, rl) (EAllowN now n, b) (now, rl')"
| rl_step_AllowIP: "T \<le> t1 \<Longrightarrow> t1 \<le> t2 \<Longrightarrow> t2 \<le> t3 \<Longrightarrow> rl_AllowIP t1 t2 t3 ip rl = (b, rl') \<Longrightarrow>
    rl_step (T, rl) (EAllowIP t1 t2 t3 ip, b) (t3, rl')"
| rl_step_cleanup: "T \<le> now \<Longrightarrow> iteration_order (perIPLimiters rl) ord \<Longrightarrow>
    rl_step (T, rl) (ECleanup now ord, True) (now, rl_cleanup now ord rl)"

lemma rl_step_Allow_I:
  "T \<le> now \<Longrightarrow> fst (rl_Allow now rl) = b \<Longrightarrow>
    rl_step (T, rl) (EAllow now, b) (now, snd (rl_Allow now rl))"
  by (rule rl_step_Allow) (auto simp: prod_eq_iff)

lemma rl_step_AllowIP_I:
  "T \<le> t1 \<Longrightarrow> t1 \<le> t2 \<Longrightarrow> t2 \<le> t3 \<Longrightarrow> fst (rl_AllowIP t1 t2 t3 ip rl) = b \<Longrightarrow>
    rl_step (T, rl) (EAllowIP t1 t2 t3 ip, b) (t3, snd (rl_AllowIP t1 t2 t3 ip rl))"
  by (rule rl_step_AllowIP) (auto simp: prod_eq_iff)

lemma rl_ok_later: "rl_ok T rl \<Longrightarrow> T \<le> T' \<Longrightarrow> rl_ok T' rl"
  unfolding rl_ok_def by (meson order_trans)

lemma rl_AllowN_ok:
  assumes "rl_ok T rl" and "T \<le> now" and "0 \<le> n" and "rl_AllowN now n rl = (b, rl')"
  shows "rl_ok now rl'"
  using rl_refill_ok [OF assms(1,2)] assms(3,4)
  by (auto simp: rl_AllowN_def Let_def rl_ok_def rl_params_def take_ok split: if_split_asm)

lemma rl_Allow_AllowN: "rl_Allow now rl = rl_AllowN now 1 rl"
  by (simp add: rl_Allow_def rl_AllowN_def)

lemma rl_AllowIP_ok:
  assumes "rl_ok T rl" and "T \<le> t1" and "t1 \<le> t2" and "t2 \<le> t3" and "rl_AllowIP t1 t2 t3 ip rl = (b, rl')"
  shows "rl_ok t3 rl'"
proof -
  have "bucket_ok (f_div (maxTokens rl) 10)
      (if 1 \<le> ip_level t1 t2 ip rl then f_sub (ip_level t1 t2 ip rl) 1 else ip_level t1 t2 ip rl)"
    using ip_level_ok [OF assms(1-3), of ip] by (auto intro: take_ok)
  moreover have "rl_ok t3 rl" using assms by (auto intro: rl_ok_later)
  ultimately show ?thesis
    using assms(5) by (auto simp: rl_AllowIP_level Let_def rl_ok_def rl_params_def split: if_split_asm)
qed

lemma rl_cleanup_ok: "rl_ok T rl \<Longrightarrow> T \<le> now \<Longrightarrow> rl_ok now (rl_cleanup now ord rl)"
  by (drule (1) rl_ok_later)
    (auto simp: rl_ok_def rl_params_def rl_cleanup_def map_purge_apply split: option.split_asm if_split_asm)

text \<open>
  \<^verbatim>\<open>AllowN\<close> does not check its argument: a negative amount adds tokens, so the level may exceed the capacity until
  the next refill cuts it off.  What holds after any request is \<open>rl_safe\<close>.
\<close>

definition rl_safe :: "time \<Rightarrow> RateLimiter \<Rightarrow> bool" where
  "rl_safe T rl \<longleftrightarrow> rl_params rl \<and> is_f64 (tokens rl) \<and> 0 \<le> tokens rl \<and> lastRefill rl \<le> T \<and>
     (\<forall>ip l. perIPLimiters rl ip = Some l \<longrightarrow>
        bucket_ok (f_div (maxTokens rl) 10) (ip_tokens l) \<and> lastAccess l \<le> T)"

lemma rl_safe_iff: "rl_safe T rl \<longleftrightarrow> is_f64 (tokens rl) \<and> 0 \<le> tokens rl \<and> rl_ok T (rl\<lparr>tokens := 0\<rparr>)"
  by (auto simp: rl_safe_def rl_ok_def rl_params_def bucket_ok_def)

lemma rl_ok_safe: "rl_ok T rl \<Longrightarrow> rl_safe T rl"
  by (auto simp: rl_safe_def rl_ok_def bucket_ok_def)

lemma fill_caps:
  "is_f64 cap \<Longrightarrow> 0 \<le> cap \<Longrightarrow> 0 \<le> t \<Longrightarrow> 0 \<le> rate \<Longrightarrow> 0 \<le> elapsed \<Longrightarrow> bucket_ok cap (fill cap rate elapsed t)"
  by (auto simp: fill_def bucket_ok_def f_defs Let_def)

lemma rl_refill_safe: "rl_safe T rl \<Longrightarrow> T \<le> now \<Longrightarrow> rl_ok now (rl_refill now rl)"
  by (force simp: rl_refill_fill rl_safe_def rl_ok_def rl_params_def intro!: fill_caps Seconds_nonneg time_Sub_nonneg)

lemma rl_AllowN_safe:
  assumes "rl_safe T rl" and "T \<le> now" and "rl_AllowN now n rl = (b, rl')"
  shows "rl_safe now rl'"
  using rl_refill_safe [OF assms(1,2)] assms(3)
  by (auto simp: rl_AllowN_def Let_def rl_safe_def rl_ok_def rl_params_def bucket_ok_def f_defs split: if_split_asm)

lemma ip_level_tokens: "ip_level t1 t2 ip (rl\<lparr>tokens := x\<rparr>) = ip_level t1 t2 ip rl"
  by (cases "perIPLimiters rl ip") (simp_all add: ip_level_def ip_bucket_def)

lemma rl_AllowIP_tokens:
  "rl_AllowIP t1 t2 t3 ip (rl\<lparr>tokens := x\<rparr>) = (fst (rl_AllowIP t1 t2 t3 ip rl), (snd (rl_AllowIP t1 t2 t3 ip rl))\<lparr>tokens := x\<rparr>)"
  "tokens (snd (rl_AllowIP t1 t2 t3 ip rl)) = tokens rl"
  unfolding rl_AllowIP_level ip_level_tokens by (cases rl; simp add: Let_def)+

lemma rl_AllowIP_safe:
  assumes "rl_safe T rl" and "T \<le> t1" and "t1 \<le> t2" and "t2 \<le> t3" and "rl_AllowIP t1 t2 t3 ip rl = (b, rl')"
  shows "rl_safe t3 rl'"
proof -
  have "rl_AllowIP t1 t2 t3 ip (rl\<lparr>tokens := 0\<rparr>) = (b, rl'\<lparr>tokens := 0\<rparr>)" "tokens rl' = tokens rl"
    using rl_AllowIP_tokens(1) [where rl = rl, of t1 t2 t3 ip 0] rl_AllowIP_tokens(2) [of t1 t2 t3 ip rl] assms(5) by simp_all
  then show ?thesis using rl_AllowIP_ok [of T "rl\<lparr>tokens := 0\<rparr>" t1 t2 t3 ip] assms(1-4) by (simp add: rl_safe_iff)
qed

lemma rl_cleanup_safe: "rl_safe T rl \<Longrightarrow> T \<le> now \<Longrightarrow> rl_safe now (rl_cleanup now ord rl)"
  using rl_cleanup_ok [of T "rl\<lparr>tokens := 0\<rparr>" now ord] by (cases rl) (simp add: rl_safe_iff rl_cleanup_def)

interpretation rli: invariant_system rl_step "\<lambda>(T, rl). rl_safe T rl"
proof
  fix s l t
  assume safe: "case s of (T, rl) \<Rightarrow> rl_safe T rl" and "rl_step s l t"
  from this(2) show "case t of (T, rl) \<Rightarrow> rl_safe T rl"
    by cases (use safe in \<open>auto simp: rl_Allow_AllowN intro: rl_AllowN_safe rl_AllowIP_safe rl_cleanup_safe\<close>)
qed

text \<open>As long as every amount asked for is not negative, the level stays within the capacity.\<close>

fun amount_ok :: "rl_event \<times> bool \<Rightarrow> bool" where
  "amount_ok (EAllowN now n, _) \<longleftrightarrow> 0 \<le> n"
| "amount_ok _ \<longleftrightarrow> True"

lemma rl_ok_step:
  assumes "rl_step (T, rl) l (T', rl')" and "rl_ok T rl" and "amount_ok l"
  shows "rl_ok T' rl'"
  using assms(1)
proof cases
  case (rl_step_Allow b)
  then show ?thesis using rl_AllowN_ok [OF assms(2), of T' 1 b rl'] by (simp add: rl_Allow_AllowN)
next
  case (rl_step_AllowN n b)
  then show ?thesis using rl_AllowN_ok [OF assms(2), of T' n b rl'] assms(3) by simp
next
  case (rl_step_AllowIP t1 t2 ip b)
  then show ?thesis using rl_AllowIP_ok [OF assms(2), of t1 t2 T' ip b rl'] by simp
next
  case (rl_step_cleanup ord)
  then show ?thesis using rl_cleanup_ok [OF assms(2), of T' ord] by simp
qed

lemma rl_ok_run:
  assumes "run rl_step s ls t" and "rl_ok (fst s) (snd s)" and "list_all amount_ok ls"
  shows "rl_ok (fst t) (snd t)"
  using assms
proof (induction rule: run.induct)
  case (run_Cons s l t ls u)
  then show ?case using rl_ok_step [of "fst s" "snd s" l "fst t" "snd t"] by simp
qed simp

lemma NewRateLimiter_ok: "is_f64 m \<Longrightarrow> 0 \<le> m \<Longrightarrow> 0 \<le> r \<Longrightarrow> rl_ok now (NewRateLimiter now m r)"
  by (simp add: NewRateLimiter_def rl_ok_def rl_params_def bucket_ok_def)

lemma rl_step_params:
  "rl_step s l t \<Longrightarrow> maxTokens (snd t) = maxTokens (snd s) \<and> refillRate (snd t) = refillRate (snd s)"
  by (auto elim!: rl_step.cases simp: rl_Allow_def rl_AllowN_def rl_refill_fill rl_AllowIP_level
      rl_cleanup_def Let_def split: if_split_asm)

lemma rl_run_params:
  "run rl_step s ls t \<Longrightarrow> maxTokens (snd t) = maxTokens (snd s) \<and> refillRate (snd t) = refillRate (snd s)"
  by (induction rule: run.induct) (auto dest: rl_step_params)

text \<open>C19: The levels of a limiter, made with a capacity and a rate that are not negative, are bounded.  Whatever requests
  it serves under a clock that never goes back, and
  whenever its clean-up runs, its global level is never negative, and the level of every address stays
  between zero and a tenth of \<^verbatim>\<open>maxTokens\<close>.  If no request was for a negative amount (only \<^verbatim>\<open>AllowN\<close> can be
  asked for one), the global level stays at most \<^verbatim>\<open>maxTokens\<close>.  A negative amount is granted by a full bucket
  and its tokens are added beyond \<^verbatim>\<open>maxTokens\<close>, up to rounding.\<close>

theorem token_level_bounded:
  assumes "run rl_step (t0, NewRateLimiter t0 m r) ls (T, rl)"
    and "is_f64 m" and "0 \<le> m" and "0 \<le> r"
  shows "is_f64 (GetTokens rl) \<and> 0 \<le> GetTokens rl \<and>
    (\<forall>ip l. perIPLimiters rl ip = Some l \<longrightarrow> bucket_ok (f_div m 10) (ip_tokens l)) \<and>
    (list_all amount_ok ls \<longrightarrow> bucket_ok m (GetTokens rl)) \<and>
    (\<forall>now n b rl'. T \<le> now \<longrightarrow> n < 0 \<longrightarrow> tokens rl = m \<longrightarrow> rl_AllowN now n rl = (b, rl') \<longrightarrow>
       b \<and> GetTokens rl' = f_sub m n)"
proof -
  have start: "rl_ok t0 (NewRateLimiter t0 m r)" using NewRateLimiter_ok assms by simp
  have "rl_safe T rl" using rli.inv_run [OF assms(1)] rl_ok_safe [OF start] by simp
  moreover have m: "maxTokens rl = m" using rl_run_params [OF assms(1)] by (simp add: NewRateLimiter_def)
  moreover have "bucket_ok m (GetTokens rl)" if "list_all amount_ok ls"
    using rl_ok_run [OF assms(1)] start that m by (simp add: rl_ok_def GetTokens_def)
  moreover have "b \<and> GetTokens rl' = f_sub m n"
    if "T \<le> now" "n < 0" "tokens rl = m" "rl_AllowN now n rl = (b, rl')" for now n b rl'
  proof -
    have "rl_ok T rl" using \<open>rl_safe T rl\<close> that(3) m assms(3) by (simp add: rl_safe_def rl_ok_def bucket_ok_def)
    then have "tokens (rl_refill now rl) = m"
      using fill_ge [of m m "refillRate rl" "Seconds (time_Sub now (lastRefill rl))"] rl_refill_ok [of T rl now] that(1,3) m
        Seconds_nonneg [OF time_Sub_nonneg, of "lastRefill rl" now]
      by (auto simp: rl_refill_fill rl_ok_def rl_params_def bucket_ok_def)
    then show ?thesis using that(2,4) assms(3) by (auto simp: rl_AllowN_def GetTokens_def Let_def split: if_split_asm)
  qed
  ultimately show ?thesis by (auto simp: rl_safe_def GetTokens_def)
qed

theorem token_level_bounded_witness:
  "\<exists>rl. run rl_step (0, NewRateLimiter 0 1000 100) [(EAllowIP 0 0 0 ''a'', True), (EAllow 0, True)] (0, rl) \<and>
     bucket_ok 1000 (GetTokens rl) \<and>
     (\<forall>ip l. perIPLimiters rl ip = Some l \<longrightarrow> bucket_ok (f_div 1000 10) (ip_tokens l))"
proof -
  let ?rl = "snd (rl_Allow 0 (snd (rl_AllowIP 0 0 0 ''a'' (NewRateLimiter 0 1000 100))))"
  have "fst (rl_AllowIP 0 0 0 ''a'' (NewRateLimiter 0 1000 100))" by code_simp
  moreover have "fst (rl_Allow 0 (snd (rl_AllowIP 0 0 0 ''a'' (NewRateLimiter 0 1000 100))))" by code_simp
  ultimately have r: "run rl_step (0, NewRateLimiter 0 1000 100)
      [(EAllowIP 0 0 0 ''a'', True), (EAllow 0, True)] (0, ?rl)"
    by (intro run_Cons [where step = rl_step, OF rl_step_AllowIP_I] run_Cons [where step = rl_step, OF rl_step_Allow_I] run_Nil) simp_all
  have "is_f64 1000" using f64_of_int [of 1000] by (simp add: is_f64_def)
  from token_level_bounded [OF r this] have "bucket_ok 1000 (GetTokens ?rl) \<and>
     (\<forall>ip l. perIPLimiters ?rl ip = Some l \<longrightarrow> bucket_ok (f_div 1000 10) (ip_tokens l))" by simp
  from conjI [OF r this] show ?thesis by (rule exI)
qed

text \<open>A new limiter that is asked for minus five tokens then holds five more than its capacity.\<close>

lemma negative_amount_overfills:
  "run rl_step (0, NewRateLimiter 0 1000 100) [(EAllowN 0 (- 5), True)] (0, snd (rl_AllowN 0 (- 5) (NewRateLimiter 0 1000 100))) \<and>
   GetTokens (snd (rl_AllowN 0 (- 5) (NewRateLimiter 0 1000 100))) = 1005"
proof -
  have "rl_AllowN 0 (- 5) (NewRateLimiter 0 1000 100) = (True, snd (rl_AllowN 0 (- 5) (NewRateLimiter 0 1000 100)))"
    by (simp add: prod_eq_iff) code_simp
  then have "rl_step (0, NewRateLimiter 0 1000 100) (EAllowN 0 (- 5), True) (0, snd (rl_AllowN 0 (- 5) (NewRateLimiter 0 1000 100)))"
    by (intro rl_step_AllowN) simp_all
  note r = run_one [where step = rl_step, OF this]
  have "GetTokens (snd (rl_AllowN 0 (- 5) (NewRateLimiter 0 1000 100))) = 1005" by code_simp
  from conjI [OF r this] show ?thesis .
qed

subsection \<open>How much a burst gets\<close>

text \<open>
  The interface of a bucket at one instant: a request is granted iff the level is at least one,
  and a grant takes exactly one.  Both kinds of bucket provide it.
\<close>

locale token_bucket =
  fixes ask :: "'s \<Rightarrow> bool \<times> 's"
    and level :: "'s \<Rightarrow> rat"
    and ok :: "'s \<Rightarrow> bool"
  assumes ask_granted: "ok s \<Longrightarrow> fst (ask s) \<longleftrightarrow> 1 \<le> level s"
    and ask_level: "ok s \<Longrightarrow> level (snd (ask s)) = (if 1 \<le> level s then level s - 1 else level s)"
    and ask_ok: "ok s \<Longrightarrow> ok (snd (ask s))"
    and level_nonneg: "ok s \<Longrightarrow> 0 \<le> level s"
begin

primrec burst :: "nat \<Rightarrow> 's \<Rightarrow> nat" where
  "burst 0 s = 0"
| "burst (Suc k) s = (if fst (ask s) then 1 else 0) + burst k (snd (ask s))"

lemma burst_granted: "ok s \<Longrightarrow> burst k s = min k (nat \<lfloor>level s\<rfloor>)"
proof (induction k arbitrary: s)
  case (Suc k)
  have IH: "burst k (snd (ask s)) = min k (nat \<lfloor>level (snd (ask s))\<rfloor>)"
    using Suc.IH [OF ask_ok [OF Suc.prems]] .
  show ?case
  proof (cases "1 \<le> level s")
    case True
    then have "1 \<le> \<lfloor>level s\<rfloor>" by (simp add: le_floor_iff)
    then have "min (Suc k) (nat \<lfloor>level s\<rfloor>) = Suc (min k (nat (\<lfloor>level s\<rfloor> - 1)))"
      by (cases "nat \<lfloor>level s\<rfloor>") auto
    with True IH Suc.prems show ?thesis by (simp add: ask_granted ask_level)
  next
    case False
    then have "nat \<lfloor>level s\<rfloor> = 0" by (simp add: floor_le_iff)
    with False IH Suc.prems show ?thesis by (simp add: ask_granted ask_level)
  qed
qed simp

end

definition rl_level :: "time \<Rightarrow> RateLimiter \<Rightarrow> rat" where
  "rl_level now rl = tokens (rl_refill now rl)"

primrec Allow_burst :: "nat \<Rightarrow> time \<Rightarrow> RateLimiter \<Rightarrow> nat" where
  "Allow_burst 0 now rl = 0"
| "Allow_burst (Suc k) now rl =
     (if fst (rl_Allow now rl) then 1 else 0) + Allow_burst k now (snd (rl_Allow now rl))"

primrec AllowIP_burst :: "nat \<Rightarrow> time \<Rightarrow> string \<Rightarrow> RateLimiter \<Rightarrow> nat" where
  "AllowIP_burst 0 now ip rl = 0"
| "AllowIP_burst (Suc k) now ip rl =
     (if fst (rl_AllowIP now now now ip rl) then 1 else 0) +
     AllowIP_burst k now ip (snd (rl_AllowIP now now now ip rl))"

lemma rl_refill_twice: "rl_ok T rl \<Longrightarrow> T \<le> now \<Longrightarrow> rl_refill now (rl_refill now rl) = rl_refill now rl"
proof -
  assume "rl_ok T rl" and "T \<le> now"
  then have "bucket_ok (maxTokens rl) (tokens (rl_refill now rl))"
    using rl_refill_ok [of T rl now] by (simp add: rl_ok_def rl_refill_fill)
  then show ?thesis by (simp add: rl_refill_fill fill_zero)
qed

lemma rl_Allow_level:
  assumes "rl_ok now rl" and "maxTokens rl < 2 ^ 53"
  shows "rl_level now (snd (rl_Allow now rl)) =
    (if 1 \<le> rl_level now rl then rl_level now rl - 1 else rl_level now rl)"
proof -
  let ?rl = "rl_refill now rl"
  have ok: "rl_ok now ?rl" using rl_refill_ok [OF assms(1)] by simp
  have m: "maxTokens ?rl = maxTokens rl" "lastRefill ?rl = now" by (simp_all add: rl_refill_fill)
  have b: "bucket_ok (maxTokens rl) (tokens ?rl)" using ok m by (simp add: rl_ok_def)
  have s: "1 \<le> tokens ?rl \<Longrightarrow> f_sub (tokens ?rl) 1 = tokens ?rl - 1"
    using b assms(2) by (intro f_sub_one) (auto simp: bucket_ok_def)
  have "1 \<le> tokens ?rl \<Longrightarrow> bucket_ok (maxTokens rl) (tokens ?rl - 1)"
    using take_ok [OF b, of 1] s by simp
  then show ?thesis
    using rl_refill_twice [OF assms(1)] s m b
    by (simp add: rl_level_def rl_Allow_def Let_def rl_refill_fill [of now "_\<lparr>tokens := _\<rparr>"] fill_zero)
qed

interpretation glob: token_bucket "rl_Allow now" "rl_level now"
  "\<lambda>rl. rl_ok now rl \<and> maxTokens rl < 2 ^ 53" for now
proof
  fix rl
  assume ok: "rl_ok now rl \<and> maxTokens rl < 2 ^ 53"
  then have r: "rl_ok now (rl_refill now rl)" using rl_refill_ok [of now rl now] by simp
  show "fst (rl_Allow now rl) \<longleftrightarrow> 1 \<le> rl_level now rl" by (simp add: rl_Allow_def rl_level_def Let_def)
  show "rl_level now (snd (rl_Allow now rl)) =
      (if 1 \<le> rl_level now rl then rl_level now rl - 1 else rl_level now rl)"
    using ok by (intro rl_Allow_level) simp_all
  show "0 \<le> rl_level now rl" using r by (simp add: rl_level_def rl_ok_def bucket_ok_def)
  have "rl_ok now (snd (rl_Allow now rl))"
    using rl_AllowN_ok [of now rl now 1 "fst (rl_Allow now rl)" "snd (rl_Allow now rl)"] ok
    by (simp add: rl_Allow_AllowN)
  moreover have "maxTokens (snd (rl_Allow now rl)) = maxTokens rl"
    by (simp add: rl_Allow_def rl_refill_fill Let_def)
  ultimately show "rl_ok now (snd (rl_Allow now rl)) \<and> maxTokens (snd (rl_Allow now rl)) < 2 ^ 53"
    using ok by simp
qed

lemma rl_AllowIP_next:
  assumes "rl_ok now rl" and "f_div (maxTokens rl) 10 < 2 ^ 53"
  shows "ip_level now now ip (snd (rl_AllowIP now now now ip rl)) =
    (if 1 \<le> ip_level now now ip rl then ip_level now now ip rl - 1 else ip_level now now ip rl)"
proof -
  let ?t = "ip_level now now ip rl"
  have b: "bucket_ok (f_div (maxTokens rl) 10) ?t" using ip_level_ok [OF assms(1)] by simp
  have s: "1 \<le> ?t \<Longrightarrow> f_sub ?t 1 = ?t - 1"
    using b assms(2) by (intro f_sub_one) (auto simp: bucket_ok_def)
  have "1 \<le> ?t \<Longrightarrow> bucket_ok (f_div (maxTokens rl) 10) (?t - 1)" using take_ok [OF b, of 1] s by simp
  then show ?thesis
    using s b by (simp add: rl_AllowIP_level Let_def ip_level_def [of _ _ _ "_\<lparr>perIPLimiters := _\<rparr>"]
        ip_bucket_def [of _ _ "_\<lparr>perIPLimiters := _\<rparr>"] fill_zero)
qed

interpretation perip: token_bucket "rl_AllowIP now now now ip" "ip_level now now ip"
  "\<lambda>rl. rl_ok now rl \<and> f_div (maxTokens rl) 10 < 2 ^ 53" for now ip
proof
  fix rl
  assume ok: "rl_ok now rl \<and> f_div (maxTokens rl) 10 < 2 ^ 53"
  show "fst (rl_AllowIP now now now ip rl) \<longleftrightarrow> 1 \<le> ip_level now now ip rl"
    by (simp add: rl_AllowIP_level Let_def)
  show "ip_level now now ip (snd (rl_AllowIP now now now ip rl)) =
      (if 1 \<le> ip_level now now ip rl then ip_level now now ip rl - 1 else ip_level now now ip rl)"
    using ok by (intro rl_AllowIP_next) simp_all
  show "0 \<le> ip_level now now ip rl" using ip_level_ok [of now rl now now ip] ok by (simp add: bucket_ok_def)
  have "rl_ok now (snd (rl_AllowIP now now now ip rl))"
    using rl_AllowIP_ok [of now rl now now now ip "fst (rl_AllowIP now now now ip rl)"] ok by simp
  then show "rl_ok now (snd (rl_AllowIP now now now ip rl)) \<and>
      f_div (maxTokens (snd (rl_AllowIP now now now ip rl))) 10 < 2 ^ 53"
    using ok by (simp add: rl_AllowIP_level Let_def)
qed

lemma Allow_burst_eq: "Allow_burst k now rl = glob.burst now k rl"
  by (induction k arbitrary: rl) simp_all

lemma AllowIP_burst_eq: "AllowIP_burst k now ip rl = perip.burst now ip k rl"
  by (induction k arbitrary: rl) simp_all

text \<open>A burst of \<open>k\<close> requests at one instant gets exactly the whole tokens that are there
  after the refill, and never more than the capacity: \<open>k\<close> of them, or as many as the level has.
  Floating point loses no token on the way down.\<close>

theorem allow_burst_exact:
  assumes "rl_ok now rl" and "maxTokens rl < 2 ^ 53"
  shows "Allow_burst k now rl = min k (nat \<lfloor>rl_level now rl\<rfloor>) \<and> rl_level now rl \<le> maxTokens rl"
proof -
  have "rl_ok now (rl_refill now rl)" using rl_refill_ok [OF assms(1)] by simp
  then show ?thesis
    using glob.burst_granted [of now rl k] assms
    by (simp add: Allow_burst_eq rl_level_def rl_ok_def bucket_ok_def rl_refill_fill)
qed

theorem allow_burst_exact_witness:
  "rl_ok 5 (NewRateLimiter 5 3 100) \<and> Allow_burst 4 5 (NewRateLimiter 5 3 100) = 3"
proof -
  have "is_f64 3" using f64_of_int [of 3] by (simp add: is_f64_def)
  then have ok: "rl_ok 5 (NewRateLimiter 5 3 100)" by (intro NewRateLimiter_ok) simp_all
  have "rl_level 5 (NewRateLimiter 5 3 100) = 3"
    using \<open>is_f64 3\<close> by (simp add: rl_level_def rl_refill_fill NewRateLimiter_def fill_zero bucket_ok_def)
  with allow_burst_exact [OF ok, of 4] ok show ?thesis by (simp add: NewRateLimiter_def)
qed

text \<open>One address gets, in a burst of \<open>k\<close> connections at one instant, exactly the whole tokens
  of its own bucket, and never more than a tenth of the global capacity.\<close>

theorem allow_ip_burst_exact:
  assumes "rl_ok now rl" and "f_div (maxTokens rl) 10 < 2 ^ 53"
  shows "AllowIP_burst k now ip rl = min k (nat \<lfloor>ip_level now now ip rl\<rfloor>) \<and>
    ip_level now now ip rl \<le> f_div (maxTokens rl) 10"
  using perip.burst_granted [of now rl ip k] ip_level_ok [of now rl now now ip] assms
  by (simp add: AllowIP_burst_eq bucket_ok_def)

lemma server_limits [simp]: "f_div 1000 10 = 100" "f_div 100 10 = 10" "is_f64 1000" "is_f64 100"
  using f64_of_int [of 100] f64_of_int [of 10] f64_of_int [of 1000] by (simp_all add: f_defs is_f64_def)

theorem allow_ip_burst_exact_witness:
  "rl_ok 5 (NewRateLimiter 5 1000 100) \<and> AllowIP_burst 150 5 ''10.0.0.1'' (NewRateLimiter 5 1000 100) = 100"
proof -
  have ok: "rl_ok 5 (NewRateLimiter 5 1000 100)" by (intro NewRateLimiter_ok) simp_all
  have "ip_level 5 5 ''10.0.0.1'' (NewRateLimiter 5 1000 100) = 100"
    by (simp add: ip_level_def ip_bucket_def NewRateLimiter_def fill_zero bucket_ok_def)
  with allow_ip_burst_exact [OF ok, of 150 "''10.0.0.1''"] ok show ?thesis by (simp add: NewRateLimiter_def)
qed

subsection \<open>Addresses do not disturb each other\<close>

lemma rl_AllowIP_others:
  "maxTokens (snd (rl_AllowIP u1 u2 u3 ip rl)) = maxTokens rl"
  "refillRate (snd (rl_AllowIP u1 u2 u3 ip rl)) = refillRate rl"
  "ip \<noteq> ip' \<Longrightarrow> perIPLimiters (snd (rl_AllowIP u1 u2 u3 ip rl)) ip' = perIPLimiters rl ip'"
  by (simp_all add: rl_AllowIP_level Let_def)

lemma ip_level_other:
  "ip \<noteq> ip' \<Longrightarrow> ip_level t1 t2 ip' (snd (rl_AllowIP u1 u2 u3 ip rl)) = ip_level t1 t2 ip' rl"
  by (simp add: ip_level_def ip_bucket_def rl_AllowIP_others split: option.split)

text \<open>C20: Requests of one address, however many and whenever, never change what another address
  is granted: after any sequence of \<^verbatim>\<open>AllowIP\<close> calls for other addresses the answer to \<open>ip\<close> is the same.\<close>

theorem addresses_isolated:
  assumes "\<forall>(u1, u2, u3, other) \<in> set reqs. other \<noteq> ip"
  shows "fst (rl_AllowIP t1 t2 t3 ip (fold (\<lambda>(u1, u2, u3, other) rl. snd (rl_AllowIP u1 u2 u3 other rl)) reqs rl))
    = fst (rl_AllowIP t1 t2 t3 ip rl)"
proof -
  have "ip_level t1 t2 ip (fold (\<lambda>(u1, u2, u3, other) rl. snd (rl_AllowIP u1 u2 u3 other rl)) reqs rl)
      = ip_level t1 t2 ip rl"
    using assms by (induction reqs arbitrary: rl) (auto simp: ip_level_other)
  then show ?thesis by (simp add: rl_AllowIP_level Let_def)
qed

theorem addresses_isolated_witness:
  "fst (rl_AllowIP 5 5 5 ''a'' (snd (rl_AllowIP 5 5 5 ''b'' (NewRateLimiter 5 1000 100)))) =
   fst (rl_AllowIP 5 5 5 ''a'' (NewRateLimiter 5 1000 100))"
  using addresses_isolated [of "[(5, 5, 5, ''b'')]" "''a''" 5 5 5 "NewRateLimiter 5 1000 100"] by simp

subsection \<open>Recovery and clean-up\<close>

lemma fill_at_least:
  assumes "bucket_ok cap t" and "0 \<le> rate" and "elapsed \<le> elapsed'" and "0 \<le> elapsed"
    and "f_mul elapsed rate \<ge> x" and "is_f64 x"
  shows "min cap x \<le> fill cap rate elapsed' t"
proof -
  have "f_mul elapsed rate \<le> f_mul elapsed' rate"
    using assms by (simp add: f_mul_def f64_mono mult_right_mono)
  then have "x \<le> t + f_mul elapsed' rate" using assms by (simp add: bucket_ok_def)
  then have "x \<le> f_add t (f_mul elapsed' rate)"
    using f64_mono [of x "t + f_mul elapsed' rate"] f64_id [OF assms(6)] by (simp add: f_add_def)
  then show ?thesis by (auto simp: fill_def Let_def)
qed

lemma Seconds_idle:
  assumes "0 \<le> d" and "d \<le> max_duration" and "a + d \<le> t"
  shows "Seconds d \<le> Seconds (time_Sub t a)"
  using assms by (intro Seconds_mono) (auto simp: time_Sub_def min_duration_def)

lemma tenth_of_a_second: "1 \<le> f_mul (Seconds 100000000) 10"
  by code_simp

text \<open>C22: With the server's limits (1000 tokens, 100 per second) an address that has not asked for
  100 milliseconds is granted its next request (\<^verbatim>\<open>AllowIP\<close>, which the server calls for every frame), however
  low its bucket was: the rounding of the elapsed time does not lose the token.\<close>

theorem idle_address_recovers:
  assumes "rl_ok T rl" and "maxTokens rl = 1000" and "refillRate rl = 100"
    and "perIPLimiters rl ip = Some l" and "lastAccess l + 100000000 \<le> t2"
  shows "fst (rl_AllowIP t1 t2 t3 ip rl)"
proof -
  have b: "bucket_ok 100 (ip_tokens l)" using assms(1,2,4) by (auto simp: rl_ok_def)
  have "Seconds 100000000 \<le> Seconds (time_Sub t2 (lastAccess l))"
    using assms(5) by (intro Seconds_idle) (simp_all add: max_duration_def)
  then have "min 100 1 \<le> fill 100 10 (Seconds (time_Sub t2 (lastAccess l))) (ip_tokens l)"
    using b tenth_of_a_second f64_of_int [of 1]
    by (intro fill_at_least [where elapsed = "Seconds 100000000"]) (simp_all add: is_f64_def)
  then show ?thesis using assms by (simp add: rl_AllowIP_level Let_def ip_level_def ip_bucket_def)
qed

definition drained :: RateLimiter where
  "drained = (NewRateLimiter 0 1000 100)\<lparr>perIPLimiters := [''a'' \<mapsto> \<lparr>ip_tokens = 0, lastAccess = 7\<rparr>]\<rparr>"

theorem idle_address_recovers_witness:
  "rl_ok 7 drained \<and> \<not> fst (rl_AllowIP 7 7 7 ''a'' drained) \<and>
   fst (rl_AllowIP 100000007 100000007 100000007 ''a'' drained)"
proof -
  have ok: "rl_ok 7 drained"
    by (simp add: drained_def rl_ok_def rl_params_def bucket_ok_def NewRateLimiter_def)
  moreover have "\<not> fst (rl_AllowIP 7 7 7 ''a'' drained)"
    by (simp add: rl_AllowIP_level Let_def ip_level_def ip_bucket_def drained_def NewRateLimiter_def
        fill_zero bucket_ok_def)
  moreover have "fst (rl_AllowIP 100000007 100000007 100000007 ''a'' drained)"
    by (rule idle_address_recovers [OF ok, where l = "\<lparr>ip_tokens = 0, lastAccess = 7\<rparr>"])
      (simp_all add: drained_def NewRateLimiter_def)
  ultimately show ?thesis by blast
qed

lemma five_minutes_fill: "100 \<le> f_mul (Seconds (5 * Minute)) 10"
  by code_simp

lemma ip_level_expired:
  assumes "rl_ok T rl" and "maxTokens rl = 1000" and "refillRate rl = 100"
    and "perIPLimiters rl ip = Some l" and "lastAccess l + 5 * Minute \<le> t2"
  shows "ip_level t1 t2 ip rl = 100"
proof -
  have b: "bucket_ok 100 (ip_tokens l)" using assms(1,2,4) by (auto simp: rl_ok_def)
  have s: "Seconds (5 * Minute) \<le> Seconds (time_Sub t2 (lastAccess l))"
    using assms(5) by (intro Seconds_idle) (simp_all add: time_defs)
  then have "min 100 100 \<le> fill 100 10 (Seconds (time_Sub t2 (lastAccess l))) (ip_tokens l)"
    using b five_minutes_fill
    by (intro fill_at_least [where elapsed = "Seconds (5 * Minute)"]) (simp_all add: time_defs)
  moreover have "0 \<le> Seconds (5 * Minute)" by (simp add: time_defs)
  then have "bucket_ok 100 (fill 100 10 (Seconds (time_Sub t2 (lastAccess l))) (ip_tokens l))"
    using b s by (intro fill_ok) simp_all
  ultimately show ?thesis
    using assms by (simp add: ip_level_def ip_bucket_def bucket_ok_def)
qed

lemma ip_level_cleanup:
  assumes "rl_ok T rl" and "maxTokens rl = 1000" and "refillRate rl = 100"
    and "iteration_order (perIPLimiters rl) ord" and "now \<le> t1" and "t1 \<le> t2"
  shows "ip_level t1 t2 ip (rl_cleanup now ord rl) = ip_level t1 t2 ip rl"
proof -
  have purged: "perIPLimiters (rl_cleanup now ord rl) ip =
      (case perIPLimiters rl ip of None \<Rightarrow> None
       | Some l \<Rightarrow> if time_Sub now (lastAccess l) > 5 * Minute then None else Some l)"
    using map_purge_eq_keep [OF assms(4)] by (simp add: rl_cleanup_def map_keep_def not_less split: option.split)
  have same: "maxTokens (rl_cleanup now ord rl) = 1000" "refillRate (rl_cleanup now ord rl) = 100"
    using assms by (simp_all add: rl_cleanup_def)
  have "0 \<le> Seconds (time_Sub t2 t1)" using assms(6) by (simp add: time_Sub_nonneg)
  then have fresh: "fill 100 10 (Seconds (time_Sub t2 t1)) 100 = 100"
    using fill_ok [of 100 100 10 "Seconds (time_Sub t2 t1)"] fill_ge [of 100 100 10 "Seconds (time_Sub t2 t1)"]
    by (simp add: bucket_ok_def)
  show ?thesis
  proof (cases "perIPLimiters rl ip")
    case (Some l)
    show ?thesis
    proof (cases "time_Sub now (lastAccess l) > 5 * Minute")
      case True
      then have "lastAccess l + 5 * Minute \<le> t2" using assms(5,6) by (auto simp: time_defs)
      from ip_level_expired [OF assms(1-3) Some this, of t1] show ?thesis
        using Some True same fresh by (simp add: ip_level_def ip_bucket_def purged)
    qed (use Some same assms in \<open>simp add: ip_level_def ip_bucket_def purged\<close>)
  qed (use same assms in \<open>simp add: ip_level_def ip_bucket_def purged\<close>)
qed

text \<open>C21: With the server's limits the clean-up cannot be observed: a bucket it deletes has been
  idle for five minutes, so it would be full again at the next request, exactly like the new
  bucket that request creates.  The answer and the address's new bucket are those of a limiter
  that never cleans up.\<close>

theorem cleanup_unobservable:
  assumes "rl_ok T rl" and "maxTokens rl = 1000" and "refillRate rl = 100"
    and "iteration_order (perIPLimiters rl) ord" and "now \<le> t1" and "t1 \<le> t2"
  shows "fst (rl_AllowIP t1 t2 t3 ip (rl_cleanup now ord rl)) = fst (rl_AllowIP t1 t2 t3 ip rl) \<and>
    perIPLimiters (snd (rl_AllowIP t1 t2 t3 ip (rl_cleanup now ord rl))) ip =
    perIPLimiters (snd (rl_AllowIP t1 t2 t3 ip rl)) ip"
  using ip_level_cleanup [OF assms, of ip] by (simp add: rl_AllowIP_level Let_def)

theorem cleanup_unobservable_witness:
  "rl_ok 7 drained \<and> perIPLimiters (rl_cleanup 400000000000 [''a''] drained) ''a'' = None \<and>
   fst (rl_AllowIP 400000000000 400000000000 400000000001 ''a'' (rl_cleanup 400000000000 [''a''] drained)) =
   fst (rl_AllowIP 400000000000 400000000000 400000000001 ''a'' drained)"
proof -
  have ok: "rl_ok 7 drained"
    by (simp add: drained_def rl_ok_def rl_params_def bucket_ok_def NewRateLimiter_def)
  moreover have "perIPLimiters (rl_cleanup 400000000000 [''a''] drained) ''a'' = None"
    by (simp add: rl_cleanup_def drained_def time_defs)
  moreover have "iteration_order (perIPLimiters drained) [''a'']"
    by (simp add: iteration_order_def drained_def)
  from cleanup_unobservable [OF ok _ _ this, of 400000000000 400000000000 400000000000 400000000001 "''a''"]
  have "fst (rl_AllowIP 400000000000 400000000000 400000000001 ''a'' (rl_cleanup 400000000000 [''a''] drained)) =
    fst (rl_AllowIP 400000000000 400000000000 400000000001 ''a'' drained)"
    by (simp add: drained_def NewRateLimiter_def)
  ultimately show ?thesis by blast
qed

subsection \<open>The connection limiter\<close>

record ConnectionRateLimiter =
  connections :: "string \<rightharpoonup> int"
  maxPerIP :: int

definition NewConnectionRateLimiter :: "int \<Rightarrow> ConnectionRateLimiter" where
  "NewConnectionRateLimiter n = \<lparr>connections = Map.empty, maxPerIP = n\<rparr>"

text \<open>Reading an absent key of a \<^verbatim>\<open>map[string]int\<close> gives zero.\<close>

definition conn_count :: "ConnectionRateLimiter \<Rightarrow> string \<Rightarrow> int" where
  "conn_count crl ip = (case connections crl ip of None \<Rightarrow> 0 | Some n \<Rightarrow> n)"

definition AllowConnection :: "string \<Rightarrow> ConnectionRateLimiter \<Rightarrow> bool \<times> ConnectionRateLimiter" where
  "AllowConnection ip crl =
     (let count = conn_count crl ip
      in if count \<ge> maxPerIP crl then (False, crl)
         else (True, crl\<lparr>connections := (connections crl)(ip \<mapsto> i64 (conn_count crl ip + 1))\<rparr>))"

definition ReleaseConnection :: "string \<Rightarrow> ConnectionRateLimiter \<Rightarrow> ConnectionRateLimiter" where
  "ReleaseConnection ip crl =
     (let count = conn_count crl ip
      in if count > 0
         then (let crl = crl\<lparr>connections := (connections crl)(ip \<mapsto> i64 (conn_count crl ip - 1))\<rparr>
               in if conn_count crl ip = 0 then crl\<lparr>connections := (connections crl)(ip := None)\<rparr> else crl)
         else crl)"

definition GetConnectionCount :: "string \<Rightarrow> ConnectionRateLimiter \<Rightarrow> int" where
  "GetConnectionCount ip crl = conn_count crl ip"

text \<open>
  What the limiter promises: it keeps the multiset \<open>M\<close> of the addresses of the open connections.
  An address has an entry iff it has an open connection, and the entry is how many it has.
\<close>

definition crl_abs :: "string multiset \<Rightarrow> ConnectionRateLimiter \<Rightarrow> bool" where
  "crl_abs M crl \<longleftrightarrow> in_i64 (maxPerIP crl) \<and> (\<forall>ip. int (count M ip) \<le> max 0 (maxPerIP crl)) \<and>
     (\<forall>ip. connections crl ip = (if ip \<in># M then Some (int (count M ip)) else None))"

lemma crl_abs_count: "crl_abs M crl \<Longrightarrow> conn_count crl ip = int (count M ip)"
  by (auto simp: crl_abs_def conn_count_def count_eq_zero_iff)

text \<open>The abstract limiter: a connection is accepted while its address has fewer than the limit.\<close>

definition spec_allow :: "int \<Rightarrow> string \<Rightarrow> string multiset \<Rightarrow> bool \<times> string multiset" where
  "spec_allow limit ip M = (if int (count M ip) < limit then (True, add_mset ip M) else (False, M))"

definition spec_release :: "string \<Rightarrow> string multiset \<Rightarrow> string multiset" where
  "spec_release ip M = M - {#ip#}"

lemma AllowConnection_refines:
  assumes "crl_abs M crl"
  shows "fst (AllowConnection ip crl) = fst (spec_allow (maxPerIP crl) ip M)"
    and "crl_abs (snd (spec_allow (maxPerIP crl) ip M)) (snd (AllowConnection ip crl))"
    and "maxPerIP (snd (AllowConnection ip crl)) = maxPerIP crl"
proof -
  note c = crl_abs_count [OF assms, of ip]
  show "fst (AllowConnection ip crl) = fst (spec_allow (maxPerIP crl) ip M)"
    using c by (simp add: AllowConnection_def spec_allow_def Let_def)
  show "maxPerIP (snd (AllowConnection ip crl)) = maxPerIP crl"
    by (simp add: AllowConnection_def Let_def)
  show "crl_abs (snd (spec_allow (maxPerIP crl) ip M)) (snd (AllowConnection ip crl))"
  proof (cases "int (count M ip) < maxPerIP crl")
    case True
    then have "i64 (int (count M ip) + 1) = int (count M ip) + 1"
      using assms by (intro i64_id) (simp add: crl_abs_def in_i64_def)
    with True assms show ?thesis
      by (auto simp: AllowConnection_def spec_allow_def crl_abs_def c Let_def)
  next
    case False
    then show ?thesis using assms c by (simp add: AllowConnection_def spec_allow_def Let_def)
  qed
qed

lemma ReleaseConnection_refines:
  assumes "crl_abs M crl"
  shows "crl_abs (spec_release ip M) (ReleaseConnection ip crl)"
    and "maxPerIP (ReleaseConnection ip crl) = maxPerIP crl"
proof -
  note c = crl_abs_count [OF assms, of ip]
  show "maxPerIP (ReleaseConnection ip crl) = maxPerIP crl" by (simp add: ReleaseConnection_def Let_def)
  have lim: "int (count M ip) \<le> max 0 (maxPerIP crl)" "in_i64 (maxPerIP crl)" using assms by (auto simp: crl_abs_def)
  have i: "i64 (int (count M ip) - 1) = int (count M ip) - 1"
    using lim by (intro i64_id) (auto simp: in_i64_def max_def split: if_splits)
  have le: "int (count (M - {#ip#}) x) \<le> max 0 (maxPerIP crl)" for x
    using assms unfolding crl_abs_def by (smt (verit) count_diff diff_le_self of_nat_le_iff)
  show "crl_abs (spec_release ip M) (ReleaseConnection ip crl)"
  proof (cases "count M ip")
    case 0
    then have "spec_release ip M = M" by (simp add: spec_release_def diff_single_trivial count_eq_zero_iff)
    then show ?thesis using assms 0 c by (simp add: ReleaseConnection_def Let_def)
  next
    case (Suc n)
    then have "connections (ReleaseConnection ip crl) x =
        (if x = ip then (if n = 0 then None else Some (int n)) else connections crl x)" for x
      using c i by (simp add: ReleaseConnection_def Let_def conn_count_def)
    moreover have "x \<in># M - {#ip#} \<longleftrightarrow> (if x = ip then n \<noteq> 0 else x \<in># M)" for x
      using Suc by (auto simp flip: count_greater_zero_iff)
    ultimately show ?thesis
      using assms le Suc by (auto simp: crl_abs_def spec_release_def ReleaseConnection_def Let_def)
  qed
qed

text \<open>Events of the accept loops: a connection asks, and an accepted one is closed.\<close>

datatype conn_event = EOpen string | EClose string

fun conn_step :: "conn_event \<Rightarrow> ConnectionRateLimiter \<Rightarrow> bool \<times> ConnectionRateLimiter" where
  "conn_step (EOpen ip) crl = AllowConnection ip crl"
| "conn_step (EClose ip) crl = (True, ReleaseConnection ip crl)"

fun spec_step :: "int \<Rightarrow> conn_event \<Rightarrow> string multiset \<Rightarrow> bool \<times> string multiset" where
  "spec_step limit (EOpen ip) M = spec_allow limit ip M"
| "spec_step limit (EClose ip) M = (True, spec_release ip M)"

fun trace :: "('e \<Rightarrow> 's \<Rightarrow> bool \<times> 's) \<Rightarrow> 'e list \<Rightarrow> 's \<Rightarrow> bool list \<times> 's" where
  "trace f [] s = ([], s)"
| "trace f (e # es) s = (case f e s of (b, s') \<Rightarrow> case trace f es s' of (bs, t) \<Rightarrow> (b # bs, t))"

lemma conn_step_refines:
  assumes "crl_abs M crl"
  shows "fst (conn_step e crl) = fst (spec_step (maxPerIP crl) e M) \<and>
    crl_abs (snd (spec_step (maxPerIP crl) e M)) (snd (conn_step e crl)) \<and>
    maxPerIP (snd (conn_step e crl)) = maxPerIP crl"
  using AllowConnection_refines [OF assms] ReleaseConnection_refines [OF assms] by (cases e) auto

lemma conn_trace_refines:
  "crl_abs M crl \<Longrightarrow> fst (trace conn_step es crl) = fst (trace (spec_step (maxPerIP crl)) es M) \<and>
    crl_abs (snd (trace (spec_step (maxPerIP crl)) es M)) (snd (trace conn_step es crl))"
proof (induction es arbitrary: M crl)
  case (Cons e es)
  then show ?case
    using conn_step_refines [OF Cons.prems, of e]
      Cons.IH [of "snd (spec_step (maxPerIP crl) e M)" "snd (conn_step e crl)"]
    by (auto split: prod.split)
qed simp

text \<open>C9: The connection limiter refines the multiset of open connections: over every sequence of
  openings and closings it gives the answers of the abstract limiter (accept iff the address has
  fewer than \<^verbatim>\<open>maxPerIP\<close> open connections), its counters are the counts of the multiset, an address
  without open connections has no entry left, and no address ever exceeds the limit.\<close>

theorem connection_limiter_refines:
  assumes "in_i64 n"
  shows "\<exists>bs M crl. trace conn_step es (NewConnectionRateLimiter n) = (bs, crl) \<and>
    trace (spec_step n) es {#} = (bs, M) \<and>
    (\<forall>ip. GetConnectionCount ip crl = int (count M ip) \<and> int (count M ip) \<le> max 0 n) \<and>
    dom (connections crl) = set_mset M"
proof -
  have "crl_abs {#} (NewConnectionRateLimiter n)"
    using assms by (simp add: crl_abs_def NewConnectionRateLimiter_def)
  from conn_trace_refines [OF this, of es] obtain bs M crl where
    t: "trace conn_step es (NewConnectionRateLimiter n) = (bs, crl)" "trace (spec_step n) es {#} = (bs, M)"
      and abs: "crl_abs M crl"
    by (cases "trace conn_step es (NewConnectionRateLimiter n)"; cases "trace (spec_step n) es {#}")
      (auto simp: NewConnectionRateLimiter_def)
  have m: "maxPerIP crl = n"
  proof -
    have "maxPerIP (snd (trace conn_step es c)) = maxPerIP c" for c
    proof (induction es arbitrary: c)
      case (Cons e es)
      have "maxPerIP (snd (conn_step e c)) = maxPerIP c"
        by (cases e) (simp_all add: AllowConnection_def ReleaseConnection_def Let_def)
      with Cons show ?case by (simp split: prod.split) (metis prod.collapse snd_conv)
    qed simp
    from this [of "NewConnectionRateLimiter n"] t show ?thesis by (simp add: NewConnectionRateLimiter_def)
  qed
  show ?thesis
    using t abs crl_abs_count [OF abs] m
    by (auto simp: GetConnectionCount_def crl_abs_def dom_def)
qed

theorem connection_limiter_refines_witness:
  "fst (trace conn_step [EOpen ''a'', EOpen ''a'', EOpen ''a'', EClose ''a'', EOpen ''a''] (NewConnectionRateLimiter 2))
     = [True, True, False, True, True] \<and>
   fst (trace (spec_step 2) [EOpen ''a'', EOpen ''a'', EOpen ''a'', EClose ''a'', EOpen ''a''] {#})
     = [True, True, False, True, True]"
proof -
  have "fst (trace (spec_step 2) [EOpen ''a'', EOpen ''a'', EOpen ''a'', EClose ''a'', EOpen ''a''] {#})
     = [True, True, False, True, True]"
    by (simp add: spec_allow_def spec_release_def)
  with connection_limiter_refines [of 2 "[EOpen ''a'', EOpen ''a'', EOpen ''a'', EClose ''a'', EOpen ''a'']"]
  show ?thesis by (auto simp: in_i64_def)
qed

end
