(* ===== verification/WB_Encoding.thy ===== *)
theory WB_Encoding
  imports WB_Prelude
begin

text \<open>
  The two encodings of the standard library the sources use for tokens: \<^verbatim>\<open>crypto/sha256\<close>
  (\<^verbatim>\<open>Sum256\<close>, the compression function of FIPS 180-4 on 32-bit words) and
  \<^verbatim>\<open>base64.URLEncoding\<close> (RFC 4648, section 5, with padding).  Base64 is shown to be injective by a
  decoder that inverts it, so that two different random tokens stay different as strings.
\<close>

subsection \<open>SHA-256\<close>

definition rotr :: "nat \<Rightarrow> u32 \<Rightarrow> u32" where
  "rotr n x = drop_bit n x OR push_bit (32 - n) x"

text \<open>
  The constants of the standard: the first 32 bits of the fractional parts of the cube roots of the
  first 64 primes, and of the square roots of the first eight.  \<open>root_bits k n\<close> is the integer
  \<open>k\<close>-th root of \<open>n\<close>, found bit by bit (36 bits are enough for the roots below 18, scaled by \<open>2\<^sup>3\<^sup>2\<close>).
\<close>

definition root_bits :: "nat \<Rightarrow> int \<Rightarrow> int" where
  "root_bits k n = foldr (\<lambda>b r. if (r + 2 ^ b) ^ k \<le> n then r + 2 ^ b else r) [0..<37] 0"

definition small_primes :: "nat list" where
  "small_primes = filter (\<lambda>n. \<forall>d \<in> set [2..<n]. n mod d \<noteq> 0) [2..<312]"

definition sha_K :: "u32 list" where
  "sha_K = map (\<lambda>p. word_of_int (root_bits 3 (int p * 2 ^ 96))) small_primes"

type_synonym sha_state = "u32 \<times> u32 \<times> u32 \<times> u32 \<times> u32 \<times> u32 \<times> u32 \<times> u32"

definition sha_init :: sha_state where
  "sha_init =
     (let h = map (\<lambda>p. word_of_int (root_bits 2 (int p * 2 ^ 64))) (take 8 small_primes)
      in (h ! 0, h ! 1, h ! 2, h ! 3, h ! 4, h ! 5, h ! 6, h ! 7))"

definition be_word :: "bytes \<Rightarrow> u32" where
  "be_word bs = foldl (\<lambda>w b. push_bit 8 w OR ucast b) 0 bs"

definition be_bytes :: "u32 \<Rightarrow> bytes" where
  "be_bytes w = map (\<lambda>n. ucast (drop_bit n w)) [24, 16, 8, 0]"

fun be_words :: "bytes \<Rightarrow> u32 list" where
  "be_words (a # b # c # d # bs) = be_word [a, b, c, d] # be_words bs"
| "be_words _ = []"

definition sha_pad :: "bytes \<Rightarrow> bytes" where
  "sha_pad bs =
     bs @ [0x80] @ replicate ((119 - length bs mod 64) mod 64) 0 @
     map (\<lambda>n. word_of_nat (8 * length bs div 2 ^ n)) [56, 48, 40, 32, 24, 16, 8, 0]"

text \<open>The message schedule, the latest word first, with \<open>n\<close> words still to come.\<close>

fun sha_extend :: "nat \<Rightarrow> u32 list \<Rightarrow> u32 list" where
  "sha_extend 0 ws = ws"
| "sha_extend (Suc n) ws =
     (let w15 = ws ! 14; w2 = ws ! 1;
          s0 = rotr 7 w15 XOR rotr 18 w15 XOR drop_bit 3 w15;
          s1 = rotr 17 w2 XOR rotr 19 w2 XOR drop_bit 10 w2
      in sha_extend n ((ws ! 15 + s0 + ws ! 6 + s1) # ws))"

definition sha_round :: "sha_state \<Rightarrow> u32 \<times> u32 \<Rightarrow> sha_state" where
  "sha_round st kw =
     (case st of (a, b, c, d, e, f, g, h) \<Rightarrow>
        let s1 = rotr 6 e XOR rotr 11 e XOR rotr 25 e;
            ch = (e AND f) XOR (NOT e AND g);
            t1 = h + s1 + ch + fst kw + snd kw;
            s0 = rotr 2 a XOR rotr 13 a XOR rotr 22 a;
            maj = (a AND b) XOR (a AND c) XOR (b AND c);
            t2 = s0 + maj
        in (t1 + t2, a, b, c, d + t1, e, f, g))"

definition sha_block :: "sha_state \<Rightarrow> u32 list \<Rightarrow> sha_state" where
  "sha_block st ws =
     (case (st, foldl sha_round st (zip sha_K (rev (sha_extend 48 (rev ws))))) of
        ((a, b, c, d, e, f, g, h), (a', b', c', d', e', f', g', h')) \<Rightarrow>
          (a + a', b + b', c + c', d + d', e + e', f + f', g + g', h + h'))"

function sha_blocks :: "sha_state \<Rightarrow> u32 list \<Rightarrow> sha_state" where
  "sha_blocks st ws = (if length ws < 16 then st else sha_blocks (sha_block st (take 16 ws)) (drop 16 ws))"
  by auto
termination by (relation "measure (\<lambda>(st, ws). length ws)") auto

declare sha_blocks.simps [simp del]

definition Sum256 :: "bytes \<Rightarrow> bytes" where
  "Sum256 bs =
     (case sha_blocks sha_init (be_words (sha_pad bs)) of (a, b, c, d, e, f, g, h) \<Rightarrow>
        concat (map be_bytes [a, b, c, d, e, f, g, h]))"

lemma length_Sum256 [simp]: "length (Sum256 bs) = 32"
  by (simp add: Sum256_def be_bytes_def split: prod.split)

subsection \<open>Base64 for URLs\<close>

definition b64_alphabet :: string where
  "b64_alphabet = ''ABCDEFGHIJKLMNOPQRSTUVWXYZabcdefghijklmnopqrstuvwxyz0123456789-_''"

definition b64_char :: "nat \<Rightarrow> char" where
  "b64_char n = b64_alphabet ! n"

fun b64_encode :: "nat list \<Rightarrow> string" where
  "b64_encode [] = []"
| "b64_encode [a] = [b64_char (a div 4), b64_char (a mod 4 * 16), CHR ''='', CHR ''='']"
| "b64_encode [a, b] =
     [b64_char (a div 4), b64_char (a mod 4 * 16 + b div 16), b64_char (b mod 16 * 4), CHR ''='']"
| "b64_encode (a # b # c # xs) =
     b64_char (a div 4) # b64_char (a mod 4 * 16 + b div 16) # b64_char (b mod 16 * 4 + c div 64) #
     b64_char (c mod 64) # b64_encode xs"

definition EncodeToString :: "bytes \<Rightarrow> string" where
  "EncodeToString bs = b64_encode (map unat bs)"

text \<open>The decoder: the position of a character in the alphabet, 64 for the padding.\<close>

fun index_of :: "'a \<Rightarrow> 'a list \<Rightarrow> nat" where
  "index_of x [] = 0"
| "index_of x (y # ys) = (if x = y then 0 else Suc (index_of x ys))"

lemma index_of_nth: "distinct xs \<Longrightarrow> n < length xs \<Longrightarrow> index_of (xs ! n) xs = n"
  by (induction xs arbitrary: n) (auto simp: nth_Cons split: nat.splits)

lemma index_of_notin: "x \<notin> set xs \<Longrightarrow> index_of x xs = length xs"
  by (induction xs) auto

definition b64_val :: "char \<Rightarrow> nat" where
  "b64_val c = index_of c b64_alphabet"

lemma b64_alphabet_facts: "length b64_alphabet = 64" "distinct b64_alphabet" "CHR ''='' \<notin> set b64_alphabet"
  by (simp_all add: b64_alphabet_def)

lemma b64_val_char [simp]: "n < 64 \<Longrightarrow> b64_val (b64_char n) = n"
  by (simp add: b64_val_def b64_char_def index_of_nth b64_alphabet_facts)

lemma b64_val_pad [simp]: "b64_val CHR ''='' = 64"
  by (simp add: b64_val_def index_of_notin b64_alphabet_facts)

fun b64_decode :: "string \<Rightarrow> nat list" where
  "b64_decode (w # x # y # z # cs) =
     (let a = b64_val w; b = b64_val x; c = b64_val y; d = b64_val z
      in if c = 64 then [a * 4 + b div 16]
         else if d = 64 then [a * 4 + b div 16, b mod 16 * 16 + c div 4]
         else (a * 4 + b div 16) # (b mod 16 * 16 + c div 4) # (c mod 4 * 64 + d) # b64_decode cs)"
| "b64_decode _ = []"

lemma b64_digits:
  assumes "a < 256" and "b < (256 :: nat)"
  shows "a div 4 < 64" "a mod 4 * 16 < 64" "a mod 4 * 16 + b div 16 < 64" "b mod 16 * 4 < 64"
    "a mod 64 < 64" "b mod 16 * 4 + a div 64 < 64"
  using assms by auto

lemma b64_decode_encode: "\<forall>n \<in> set ns. n < 256 \<Longrightarrow> b64_decode (b64_encode ns) = ns"
proof (induction ns rule: b64_encode.induct)
  case (2 a)
  then show ?case
    using b64_digits [of a 0] by (simp add: Let_def)
next
  case (3 a b)
  then have "(a mod 4 * 16 + b div 16) div 16 = a mod 4" "(a mod 4 * 16 + b div 16) mod 16 = b div 16"
    by auto
  moreover have "b64_val (b64_char (a div 4)) = a div 4" using 3 by (intro b64_val_char) auto
  moreover have "b64_val (b64_char (a mod 4 * 16 + b div 16)) = a mod 4 * 16 + b div 16"
    using 3 by (intro b64_val_char) auto
  moreover have "b mod 16 * 4 < 64" "b mod 16 * 4 \<noteq> 64" using mod_less_divisor [of 16 b] by linarith+
  ultimately show ?case by (simp add: Let_def)
next
  case (4 a b c xs)
  then have "(a mod 4 * 16 + b div 16) div 16 = a mod 4" "(a mod 4 * 16 + b div 16) mod 16 = b div 16"
    "(b mod 16 * 4 + c div 64) div 4 = b mod 16" "(b mod 16 * 4 + c div 64) mod 4 = c div 64"
    by auto
  moreover have "b mod 16 * 4 + c div 64 \<noteq> 64" "c mod 64 \<noteq> 64" using b64_digits [of c b] 4 by auto
  moreover have "b64_val (b64_char (a div 4)) = a div 4" using 4 by (intro b64_val_char) auto
  moreover have "b64_val (b64_char (a mod 4 * 16 + b div 16)) = a mod 4 * 16 + b div 16"
    using 4 by (intro b64_val_char) auto
  moreover have "b64_val (b64_char (b mod 16 * 4 + c div 64)) = b mod 16 * 4 + c div 64"
    using b64_digits [of c b] 4 by (intro b64_val_char) auto
  ultimately show ?case using 4 by (simp add: Let_def)
qed simp

lemma unat_byte_less [simp]: "unat (b :: byte) < 256"
  using unsigned_less [of b, where ?'a = nat] by simp

lemma EncodeToString_inj: "EncodeToString xs = EncodeToString ys \<longleftrightarrow> xs = ys"
proof
  assume "EncodeToString xs = EncodeToString ys"
  then have "b64_decode (b64_encode (map unat xs)) = b64_decode (b64_encode (map unat ys))"
    by (simp add: EncodeToString_def)
  then have "map unat xs = map unat ys" by (simp add: b64_decode_encode)
  moreover have "inj (unat :: byte \<Rightarrow> nat)" by (rule injI) (simp add: word_unat_eq_iff)
  ultimately show "xs = ys" by (simp add: inj_map_eq_map)
qed simp

lemma length_b64_encode: "length (b64_encode ns) = 4 * ((length ns + 2) div 3)"
proof (induction ns rule: b64_encode.induct)
  case (4 a b c xs)
  have "(length (a # b # c # xs) + 2) div 3 = (length xs + 2) div 3 + 1" by auto
  with 4 show ?case by simp
qed auto

lemma length_EncodeToString [simp]: "length (EncodeToString bs) = 4 * ((length bs + 2) div 3)"
  by (simp add: EncodeToString_def length_b64_encode)

end
