(* ===== verification/WB_Auth.thy ===== *)
theory WB_Auth
  imports WB_Encoding WB_Interfaces
begin

text \<open>
  The first half of \<^verbatim>\<open>auth.go\<close>: the session manager, the token validator and the manager of
  pre-shared keys for 0-RTT resumption.  Methods run under the manager's mutex; where a method
  reads under the lock and writes after releasing it (\<^verbatim>\<open>GetSession\<close>, \<^verbatim>\<open>ValidatePSK\<close>) the model
  runs it without an interleaved call.  Random bytes and clock readings are arguments.
\<close>

subsection \<open>Sessions\<close>

record AuthSession =
  as_ID :: string
  Token :: string
  PublicKey :: bytes
  SharedSecret :: bytes
  as_CreatedAt :: time
  LastActivity :: time
  Authenticated :: bool

record SessionManager =
  sm_sessions :: "string \<rightharpoonup> AuthSession"
  sm_timeout :: duration

definition NewSessionManager :: "duration \<Rightarrow> SessionManager" where
  "NewSessionManager timeout = \<lparr>sm_sessions = Map.empty, sm_timeout = timeout\<rparr>"

text \<open>\<open>r\<close> is the outcome of \<^verbatim>\<open>rand.Read\<close> on the buffer: an error, or the bytes it was filled with.\<close>

definition generateSecureToken :: "error + bytes \<Rightarrow> error + string" where
  "generateSecureToken r = (case r of Inl err \<Rightarrow> Inl err | Inr bs \<Rightarrow> Inr (EncodeToString bs))"

definition CreateSession ::
    "error + bytes \<Rightarrow> error + bytes \<Rightarrow> time \<Rightarrow> time \<Rightarrow> bytes \<Rightarrow> SessionManager \<Rightarrow>
     (error + AuthSession) \<times> SessionManager" where
  "CreateSession r1 r2 t1 t2 publicKey sm =
     (case generateSecureToken r1 of
        Inl err \<Rightarrow> (Inl err, sm)
      | Inr sessionID \<Rightarrow>
          (case generateSecureToken r2 of
             Inl err \<Rightarrow> (Inl err, sm)
           | Inr token \<Rightarrow>
               (let session = \<lparr>as_ID = sessionID, Token = token, PublicKey = publicKey, SharedSecret = [],
                               as_CreatedAt = t1, LastActivity = t2, Authenticated = False\<rparr>
                in (Inr session, sm\<lparr>sm_sessions := (sm_sessions sm)(sessionID \<mapsto> session)\<rparr>))))"

definition DeleteSession :: "string \<Rightarrow> SessionManager \<Rightarrow> SessionManager" where
  "DeleteSession sessionID sm = sm\<lparr>sm_sessions := (sm_sessions sm)(sessionID := None)\<rparr>"

definition GetSession :: "time \<Rightarrow> string \<Rightarrow> SessionManager \<Rightarrow> (error + AuthSession) \<times> SessionManager" where
  "GetSession now sessionID sm =
     (case sm_sessions sm sessionID of
        None \<Rightarrow> (Inl ''session not found'', sm)
      | Some session \<Rightarrow>
          if time_Sub now (LastActivity session) > sm_timeout sm
          then (Inl ''session expired'', DeleteSession sessionID sm)
          else (Inr session, sm))"

definition UpdateActivity :: "time \<Rightarrow> string \<Rightarrow> SessionManager \<Rightarrow> error option \<times> SessionManager" where
  "UpdateActivity now sessionID sm =
     (case sm_sessions sm sessionID of
        None \<Rightarrow> (Some ''session not found'', sm)
      | Some session \<Rightarrow>
          (None, sm\<lparr>sm_sessions := (sm_sessions sm)(sessionID \<mapsto> session\<lparr>LastActivity := now\<rparr>)\<rparr>))"

definition AuthenticateSession ::
    "time \<Rightarrow> string \<Rightarrow> bytes \<Rightarrow> SessionManager \<Rightarrow> error option \<times> SessionManager" where
  "AuthenticateSession now sessionID sharedSecret sm =
     (case sm_sessions sm sessionID of
        None \<Rightarrow> (Some ''session not found'', sm)
      | Some session \<Rightarrow>
          (None, sm\<lparr>sm_sessions := (sm_sessions sm)(sessionID \<mapsto>
             session\<lparr>SharedSecret := sharedSecret, Authenticated := True, LastActivity := now\<rparr>)\<rparr>))"

definition sm_cleanupExpired :: "time \<Rightarrow> string list \<Rightarrow> SessionManager \<Rightarrow> SessionManager" where
  "sm_cleanupExpired now ord sm =
     sm\<lparr>sm_sessions :=
          map_purge (\<lambda>session. time_Sub now (LastActivity session) > sm_timeout sm) ord (sm_sessions sm)\<rparr>"

definition GetSessionCount :: "SessionManager \<Rightarrow> nat" where
  "GetSessionCount sm = card (dom (sm_sessions sm))"

lemmas sm_defs = CreateSession_def DeleteSession_def GetSession_def UpdateActivity_def
  AuthenticateSession_def sm_cleanupExpired_def

subsection \<open>The session manager is an expiring store\<close>

definition session_expired :: "SessionManager \<Rightarrow> time \<Rightarrow> AuthSession \<Rightarrow> bool" where
  "session_expired sm now session \<longleftrightarrow> time_Sub now (LastActivity session) > sm_timeout sm"

definition session_lookup :: "time \<Rightarrow> string \<Rightarrow> SessionManager \<Rightarrow> AuthSession option \<times> SessionManager" where
  "session_lookup now k sm =
     (case GetSession now k sm of (Inl e, sm') \<Rightarrow> (None, sm') | (Inr s, sm') \<Rightarrow> (Some s, sm'))"

interpretation sessions: expiring_store sm_sessions session_expired session_lookup sm_cleanupExpired
proof
  fix s t t' v k ord
  show "session_expired s t v \<Longrightarrow> t \<le> t' \<Longrightarrow> session_expired s t' v"
    using time_Sub_mono [of t t' "LastActivity v"] by (simp add: session_expired_def)
  show "fst (session_lookup t k s) =
      (case sm_sessions s k of None \<Rightarrow> None | Some v \<Rightarrow> if session_expired s t v then None else Some v)"
    by (simp add: session_lookup_def GetSession_def session_expired_def split: option.split)
  show "sm_sessions (snd (session_lookup t k s)) = sm_sessions s \<or>
      (sm_sessions (snd (session_lookup t k s)) = (sm_sessions s)(k := None) \<and> fst (session_lookup t k s) = None)"
    by (simp add: session_lookup_def GetSession_def DeleteSession_def split: option.split)
  show "iteration_order (sm_sessions s) ord \<Longrightarrow>
      sm_sessions (sm_cleanupExpired t ord s) = map_keep (\<lambda>v. \<not> session_expired s t v) (sm_sessions s)"
    by (simp add: sm_cleanupExpired_def session_expired_def map_purge_eq_keep)
  show "session_expired (snd (session_lookup t k s)) = session_expired s"
    by (auto simp: session_lookup_def GetSession_def DeleteSession_def session_expired_def fun_eq_iff split: option.split)
  show "session_expired (sm_cleanupExpired t ord s) = session_expired s"
    by (auto simp: sm_cleanupExpired_def session_expired_def fun_eq_iff)
qed

text \<open>The clean-up job of the session manager cannot be told from its absence by a later
  \<^verbatim>\<open>GetSession\<close>: the same session is returned, or none in both cases, whatever the order in which
  the job visits the map; and a session that is still alive is never removed.\<close>

theorem session_cleanup_sound:
  assumes "iteration_order (sm_sessions sm) ord" and "now \<le> t"
  shows "(\<forall>session. (fst (GetSession t sid (sm_cleanupExpired now ord sm)) = Inr session) =
      (fst (GetSession t sid sm) = Inr session)) \<and>
    (\<forall>session. sm_sessions sm sid = Some session \<longrightarrow> now - LastActivity session \<le> sm_timeout sm \<longrightarrow>
      in_i64 (sm_timeout sm) \<longrightarrow> sm_sessions (sm_cleanupExpired now ord sm) sid = Some session)"
proof (intro conjI allI impI)
  fix session
  have "fst (GetSession t sid m) = Inr session \<longleftrightarrow> fst (session_lookup t sid m) = Some session" for m
    by (auto simp: session_lookup_def split: prod.splits sum.splits)
  then show "(fst (GetSession t sid (sm_cleanupExpired now ord sm)) = Inr session) =
      (fst (GetSession t sid sm) = Inr session)"
    using sessions.get_after_purge [OF assms] by simp
next
  fix session
  assume "sm_sessions sm sid = Some session" and "now - LastActivity session \<le> sm_timeout sm"
    and "in_i64 (sm_timeout sm)"
  then show "sm_sessions (sm_cleanupExpired now ord sm) sid = Some session"
    by (intro sessions.purge_keeps_live [OF assms(1)])
      (auto simp: session_expired_def time_defs in_i64_def)
qed

definition two_sessions :: SessionManager where
  "two_sessions =
     \<lparr>sm_sessions = [''old'' \<mapsto> \<lparr>as_ID = ''old'', Token = ''t'', PublicKey = [], SharedSecret = [],
                                as_CreatedAt = 0, LastActivity = 0, Authenticated = False\<rparr>,
                     ''new'' \<mapsto> \<lparr>as_ID = ''new'', Token = ''u'', PublicKey = [], SharedSecret = [],
                                as_CreatedAt = 0, LastActivity = 50, Authenticated = False\<rparr>],
      sm_timeout = 60\<rparr>"

theorem session_cleanup_sound_witness:
  "sm_sessions (sm_cleanupExpired 100 [''old'', ''new''] two_sessions) ''old'' = None \<and>
   (\<exists>session. fst (GetSession 105 ''new'' (sm_cleanupExpired 100 [''old'', ''new''] two_sessions)) = Inr session)"
proof -
  have ord: "iteration_order (sm_sessions two_sessions) [''old'', ''new'']"
    by (auto simp: iteration_order_def two_sessions_def)
  have "fst (GetSession 105 ''new'' two_sessions) = Inr (the (sm_sessions two_sessions ''new''))"
    by (simp add: two_sessions_def GetSession_def time_defs)
  with session_cleanup_sound [OF ord, of 100 105 "''new''"]
  have "fst (GetSession 105 ''new'' (sm_cleanupExpired 100 [''old'', ''new''] two_sessions)) =
      Inr (the (sm_sessions two_sessions ''new''))"
    by simp
  moreover have "sm_sessions (sm_cleanupExpired 100 [''old'', ''new''] two_sessions) ''old'' = None"
    by (simp add: two_sessions_def sm_cleanupExpired_def time_defs)
  ultimately show ?thesis by blast
qed

subsection \<open>A session is authenticated only by its shared secret\<close>

datatype sm_event =
  ECreate "error + bytes" "error + bytes" time time bytes
| EGet time string
| EUpdate time string
| EAuthenticate time string bytes
| EDelete string
| EExpire time "string list"

fun sm_do :: "sm_event \<Rightarrow> SessionManager \<Rightarrow> SessionManager" where
  "sm_do (ECreate r1 r2 t1 t2 pk) sm = snd (CreateSession r1 r2 t1 t2 pk sm)"
| "sm_do (EGet t sid) sm = snd (GetSession t sid sm)"
| "sm_do (EUpdate t sid) sm = snd (UpdateActivity t sid sm)"
| "sm_do (EAuthenticate t sid sec) sm = snd (AuthenticateSession t sid sec sm)"
| "sm_do (EDelete sid) sm = DeleteSession sid sm"
| "sm_do (EExpire t ord) sm = sm_cleanupExpired t ord sm"

definition auth_step :: "SessionManager \<times> sm_event set \<Rightarrow> sm_event \<Rightarrow> SessionManager \<times> sm_event set \<Rightarrow> bool" where
  "auth_step s e t \<longleftrightarrow> t = (sm_do e (fst s), insert e (snd s))"

text \<open>The state with the events so far: every entry is under its own identifier, and its secret
  and its mark come from an \<^verbatim>\<open>AuthenticateSession\<close> for that identifier.\<close>

definition session_ok :: "sm_event set \<Rightarrow> string \<Rightarrow> AuthSession \<Rightarrow> bool" where
  "session_ok E k v \<longleftrightarrow> as_ID v = k \<and>
     (if Authenticated v then \<exists>t. EAuthenticate t k (SharedSecret v) \<in> E else SharedSecret v = [])"

definition auth_inv :: "SessionManager \<times> sm_event set \<Rightarrow> bool" where
  "auth_inv s \<longleftrightarrow> (\<forall>k v. sm_sessions (fst s) k = Some v \<longrightarrow> session_ok (snd s) k v)"

lemma session_ok_mono: "session_ok E k v \<Longrightarrow> session_ok (insert e E) k v"
  by (auto simp: session_ok_def)

lemma session_ok_touch [simp]: "session_ok E k (v\<lparr>LastActivity := t\<rparr>) = session_ok E k v"
  by (simp add: session_ok_def)

lemma session_ok_auth [simp]:
  "session_ok (insert (EAuthenticate t k sec) E) k
     (v\<lparr>SharedSecret := sec, Authenticated := True\<rparr>) \<longleftrightarrow> as_ID v = k"
  by (auto simp: session_ok_def)

lemma session_ok_new [simp]:
  "session_ok E k \<lparr>as_ID = k, Token = tok, PublicKey = pk, SharedSecret = [], as_CreatedAt = t1,
     LastActivity = t2, Authenticated = False\<rparr>"
  by (simp add: session_ok_def)

lemma session_ok_ID: "session_ok E k v \<Longrightarrow> as_ID v = k"
  by (simp add: session_ok_def)

lemma auth_do_inv: "auth_inv (sm, E) \<Longrightarrow> auth_inv (sm_do e sm, insert e E)"
  unfolding auth_inv_def
  apply (cases e)
       apply (auto simp: sm_defs Let_def map_purge_apply session_ok_mono session_ok_ID
      split: option.splits sum.splits if_splits)
  apply (blast dest: session_ok_ID)
  done

interpretation authi: invariant_system auth_step auth_inv
  by unfold_locales (auto simp: auth_step_def auth_do_inv split: prod.splits)

lemma run_auth_step: "run auth_step (sm, E) es (fold sm_do es sm, set es \<union> E)"
proof (induction es arbitrary: sm E)
  case (Cons e es)
  have "auth_step (sm, E) e (sm_do e sm, insert e E)" by (simp add: auth_step_def)
  from run_Cons [where step = auth_step, OF this Cons.IH] show ?case by (simp add: insert_is_Un [symmetric] Un_insert_right)
qed (simp add: run_Nil)

text \<open>C23: Whatever is done to a session manager, in any order, a session it holds is stored under
  its own identifier, and it counts as authenticated only when \<^verbatim>\<open>AuthenticateSession\<close> was called for that
  identifier with exactly the secret the session now has; all others hold no secret.\<close>

theorem authenticated_only_by_secret:
  assumes "sm_sessions (fold sm_do es (NewSessionManager timeout)) k = Some v"
  shows "as_ID v = k \<and>
    (if Authenticated v then \<exists>t. EAuthenticate t k (SharedSecret v) \<in> set es else SharedSecret v = [])"
proof -
  have "auth_inv (NewSessionManager timeout, {})" by (simp add: auth_inv_def NewSessionManager_def)
  from authi.inv_run [OF run_auth_step this, of es] assms show ?thesis
    unfolding session_ok_def [symmetric] by (simp add: auth_inv_def session_ok_def [symmetric])
qed

theorem authenticated_only_by_secret_witness:
  "\<exists>v. sm_sessions (fold sm_do [ECreate (Inr [1]) (Inr [2]) 5 5 [], EAuthenticate 6 ''AQ=='' [7]]
        (NewSessionManager 60)) ''AQ=='' = Some v \<and> Authenticated v \<and>
      (\<exists>t. EAuthenticate t ''AQ=='' (SharedSecret v) \<in>
        set [ECreate (Inr [1]) (Inr [2]) 5 5 [], EAuthenticate 6 ''AQ=='' [7]])"
proof -
  let ?es = "[ECreate (Inr [1]) (Inr [2]) 5 5 [], EAuthenticate 6 ''AQ=='' [7]]"
  have id: "EncodeToString [1] = ''AQ==''" by code_simp
  obtain v where v: "sm_sessions (fold sm_do ?es (NewSessionManager 60)) ''AQ=='' = Some v" "Authenticated v"
    by (simp add: CreateSession_def AuthenticateSession_def generateSecureToken_def NewSessionManager_def id Let_def)
  from authenticated_only_by_secret [OF v(1)] v show ?thesis by (intro exI [of _ v] conjI) auto
qed

text \<open>Session identifiers do not collide unless the random bytes do: a manager that creates
  sessions from pairwise different random reads holds one session for each, so none is overwritten.\<close>

theorem sessions_do_not_collide:
  assumes "distinct rs"
  shows "GetSessionCount (fold (\<lambda>r. sm_do (ECreate (Inr r) (Inr tok) t1 t2 pk)) rs (NewSessionManager timeout))
    = length rs"
proof -
  have "dom (sm_sessions (fold (\<lambda>r. sm_do (ECreate (Inr r) (Inr tok) t1 t2 pk)) rs sm)) =
      EncodeToString ` set rs \<union> dom (sm_sessions sm)" for sm
    by (induction rs arbitrary: sm) (auto simp: CreateSession_def generateSecureToken_def Let_def)
  moreover have "inj_on EncodeToString (set rs)" by (simp add: inj_on_def EncodeToString_inj)
  ultimately show ?thesis
    using assms by (simp add: GetSessionCount_def NewSessionManager_def card_image distinct_card)
qed

theorem sessions_do_not_collide_witness:
  "GetSessionCount (fold (\<lambda>r. sm_do (ECreate (Inr r) (Inr [9]) 5 5 [])) [[1], [2], [3]] (NewSessionManager 60)) = 3"
  using sessions_do_not_collide [of "[[1], [2], [3]]"] by simp

subsection \<open>Tokens\<close>

record TokenValidator =
  tv_secret :: bytes

definition NewTokenValidator :: "bytes \<Rightarrow> TokenValidator" where
  "NewTokenValidator secret = \<lparr>tv_secret = secret\<rparr>"

definition GenerateToken :: "TokenValidator \<Rightarrow> string \<Rightarrow> string" where
  "GenerateToken tv sessionID = EncodeToString (Sum256 (bytes_of_string sessionID @ tv_secret tv))"

definition ValidateToken :: "TokenValidator \<Rightarrow> string \<Rightarrow> string \<Rightarrow> bool" where
  "ValidateToken tv sessionID token = (let expected = GenerateToken tv sessionID in token = expected)"

text \<open>A token is 44 characters long, and the token of one session is accepted for another (by a
  validator with any secret) exactly when SHA-256 does not tell the two concatenations of session
  identifier and secret apart: Base64 adds no collision of its own.\<close>

theorem token_accepted_iff:
  "length (GenerateToken tv a) = 44 \<and>
   (ValidateToken tv' b (GenerateToken tv a) \<longleftrightarrow>
      Sum256 (bytes_of_string b @ tv_secret tv') = Sum256 (bytes_of_string a @ tv_secret tv))"
  by (auto simp: ValidateToken_def GenerateToken_def EncodeToString_inj Let_def)

subsection \<open>Pre-shared keys for 0-RTT\<close>

definition ZeroRTTLifetime :: duration where "ZeroRTTLifetime = 24 * Hour"
definition MaxZeroRTTSessions :: nat where "MaxZeroRTTSessions = 1000"

record ZeroRTTSession =
  zs_ID :: string
  PSK :: bytes
  EarlySecret :: bytes
  zs_CreatedAt :: time
  ExpiresAt :: time
  Used :: bool
  Resumed :: bool

record ZeroRTTManager =
  zr_sessions :: "string \<rightharpoonup> ZeroRTTSession"

definition NewZeroRTTManager :: ZeroRTTManager where
  "NewZeroRTTManager = \<lparr>zr_sessions = Map.empty\<rparr>"

text \<open>The loop of \<^verbatim>\<open>cleanupOldest\<close>, with \<^verbatim>\<open>oldestID\<close> and \<^verbatim>\<open>oldestTime\<close> as they are at each turn.\<close>

fun oldest_loop :: "(string \<rightharpoonup> ZeroRTTSession) \<Rightarrow> string list \<Rightarrow> string \<times> time \<Rightarrow> string \<times> time" where
  "oldest_loop m [] best = best"
| "oldest_loop m (k # ks) best =
     (case m k of
        None \<Rightarrow> oldest_loop m ks best
      | Some session \<Rightarrow>
          oldest_loop m ks (if IsZero (snd best) \<or> time_Before (zs_CreatedAt session) (snd best)
                            then (k, zs_CreatedAt session) else best))"

definition cleanupOldest :: "string list \<Rightarrow> ZeroRTTManager \<Rightarrow> ZeroRTTManager" where
  "cleanupOldest ord z =
     (let oldestID = fst (oldest_loop (zr_sessions z) ord ([], time_zero))
      in if oldestID \<noteq> [] then z\<lparr>zr_sessions := (zr_sessions z)(oldestID := None)\<rparr> else z)"

definition CreatePSK ::
    "string list \<Rightarrow> error + bytes \<Rightarrow> time \<Rightarrow> time \<Rightarrow> string \<Rightarrow> bytes \<Rightarrow> ZeroRTTManager \<Rightarrow>
     error option \<times> ZeroRTTManager" where
  "CreatePSK ord r t1 t2 identity secret z =
     (let z = (if card (dom (zr_sessions z)) \<ge> MaxZeroRTTSessions then cleanupOldest ord z else z)
      in case r of
           Inl err \<Rightarrow> (Some err, z)
         | Inr psk \<Rightarrow>
             (let earlySecret = Sum256 secret;
                  session = \<lparr>zs_ID = identity, PSK = psk, EarlySecret = earlySecret, zs_CreatedAt = t1,
                             ExpiresAt = time_Add t2 ZeroRTTLifetime, Used = False, Resumed = False\<rparr>
              in (None, z\<lparr>zr_sessions := (zr_sessions z)(identity \<mapsto> session)\<rparr>)))"

definition DeletePSK :: "string \<Rightarrow> ZeroRTTManager \<Rightarrow> ZeroRTTManager" where
  "DeletePSK identity z = z\<lparr>zr_sessions := (zr_sessions z)(identity := None)\<rparr>"

text \<open>The comparison loop: the first \<open>n\<close> bytes, from index \<open>i\<close> on, agree.\<close>

fun psk_equal_from :: "nat \<Rightarrow> nat \<Rightarrow> bytes \<Rightarrow> bytes \<Rightarrow> bool" where
  "psk_equal_from i 0 p q = True"
| "psk_equal_from i (Suc n) p q = (if p ! i \<noteq> q ! i then False else psk_equal_from (Suc i) n p q)"

definition ValidatePSK :: "time \<Rightarrow> string \<Rightarrow> bytes \<Rightarrow> ZeroRTTManager \<Rightarrow> bool \<times> ZeroRTTManager" where
  "ValidatePSK now identity psk z =
     (case zr_sessions z identity of
        None \<Rightarrow> (False, z)
      | Some session \<Rightarrow>
          if time_After now (ExpiresAt session) then (False, z\<lparr>zr_sessions := (zr_sessions z)(identity := None)\<rparr>)
          else if length psk \<noteq> length (PSK session) then (False, z)
          else if \<not> psk_equal_from 0 (length psk) psk (PSK session) then (False, z)
          else (True, z\<lparr>zr_sessions := (zr_sessions z)(identity \<mapsto> session\<lparr>Used := True, Resumed := True\<rparr>)\<rparr>))"

definition GetEarlySecret :: "time \<Rightarrow> string \<Rightarrow> ZeroRTTManager \<Rightarrow> bytes option \<times> bool" where
  "GetEarlySecret now identity z =
     (case zr_sessions z identity of
        None \<Rightarrow> (None, False)
      | Some session \<Rightarrow>
          if time_After now (ExpiresAt session) then (None, False)
          else (Some (EarlySecret session), \<not> Used session))"

definition MarkUsed :: "string \<Rightarrow> ZeroRTTManager \<Rightarrow> ZeroRTTManager" where
  "MarkUsed identity z =
     (case zr_sessions z identity of
        None \<Rightarrow> z
      | Some session \<Rightarrow> z\<lparr>zr_sessions := (zr_sessions z)(identity \<mapsto> session\<lparr>Used := True\<rparr>)\<rparr>)"

definition IsAvailable :: "time \<Rightarrow> string \<Rightarrow> ZeroRTTManager \<Rightarrow> bool" where
  "IsAvailable now identity z =
     (case zr_sessions z identity of
        None \<Rightarrow> False
      | Some session \<Rightarrow> \<not> Used session \<and> time_Before now (ExpiresAt session))"

definition zr_cleanupExpired :: "time \<Rightarrow> string list \<Rightarrow> ZeroRTTManager \<Rightarrow> ZeroRTTManager" where
  "zr_cleanupExpired now ord z =
     z\<lparr>zr_sessions := map_purge (\<lambda>session. time_After now (ExpiresAt session)) ord (zr_sessions z)\<rparr>"

lemma psk_equal_from_iff:
  "length p = i + n \<Longrightarrow> length q = i + n \<Longrightarrow> psk_equal_from i n p q \<longleftrightarrow> drop i p = drop i q"
proof (induction n arbitrary: i)
  case (Suc n)
  then have "drop i p = p ! i # drop (Suc i) p" "drop i q = q ! i # drop (Suc i) q"
    by (auto simp: Cons_nth_drop_Suc)
  with Suc show ?case by simp
qed simp

lemma psk_equal_iff: "length p = length q \<Longrightarrow> psk_equal_from 0 (length q) p q \<longleftrightarrow> p = q"
  by (simp add: psk_equal_from_iff)

lemma ValidatePSK_result:
  "fst (ValidatePSK now identity psk z) \<longleftrightarrow>
     (\<exists>session. zr_sessions z identity = Some session \<and> now \<le> ExpiresAt session \<and> psk = PSK session)"
  by (auto simp: ValidatePSK_def psk_equal_iff time_defs split: option.split)

text \<open>C37: \<^verbatim>\<open>ValidatePSK\<close> accepts exactly the stored key of an identity that has not expired, and an
  accepted key is spent for the queries: \<^verbatim>\<open>IsAvailable\<close> and the flag of \<^verbatim>\<open>GetEarlySecret\<close> say no from then
  on.  \<^verbatim>\<open>ValidatePSK\<close> itself does not look at the mark, so the same key is accepted again until it
  expires: a replayed resumption is not refused by this function.\<close>

theorem psk_accepted_and_replayed:
  "(fst (ValidatePSK now identity psk z) \<longleftrightarrow>
      (\<exists>session. zr_sessions z identity = Some session \<and> now \<le> ExpiresAt session \<and> psk = PSK session)) \<and>
   (fst (ValidatePSK now identity psk z) \<longrightarrow>
      (let z' = snd (ValidatePSK now identity psk z)
       in \<not> IsAvailable later identity z' \<and> \<not> snd (GetEarlySecret later identity z') \<and>
          (fst (ValidatePSK later identity psk z') \<longleftrightarrow> fst (ValidatePSK later identity psk z))))"
proof (intro conjI impI)
  assume ok: "fst (ValidatePSK now identity psk z)"
  then obtain session where s: "zr_sessions z identity = Some session" "now \<le> ExpiresAt session" "psk = PSK session"
    by (auto simp: ValidatePSK_result)
  then have "snd (ValidatePSK now identity psk z) =
      z\<lparr>zr_sessions := (zr_sessions z)(identity \<mapsto> session\<lparr>Used := True, Resumed := True\<rparr>)\<rparr>"
    by (simp add: ValidatePSK_def psk_equal_iff time_defs)
  then show "let z' = snd (ValidatePSK now identity psk z)
       in \<not> IsAvailable later identity z' \<and> \<not> snd (GetEarlySecret later identity z') \<and>
          (fst (ValidatePSK later identity psk z') \<longleftrightarrow> fst (ValidatePSK later identity psk z))"
    using s by (simp add: IsAvailable_def GetEarlySecret_def ValidatePSK_result Let_def)
qed (rule ValidatePSK_result)

definition one_psk :: ZeroRTTManager where
  "one_psk = snd (CreatePSK [] (Inr [1, 2, 3]) 10 10 ''client'' [7] NewZeroRTTManager)"

theorem psk_accepted_and_replayed_witness:
  "fst (ValidatePSK 20 ''client'' [1, 2, 3] one_psk) \<and> \<not> fst (ValidatePSK 20 ''client'' [1, 2, 4] one_psk) \<and>
   \<not> IsAvailable 30 ''client'' (snd (ValidatePSK 20 ''client'' [1, 2, 3] one_psk)) \<and>
   fst (ValidatePSK 30 ''client'' [1, 2, 3] (snd (ValidatePSK 20 ''client'' [1, 2, 3] one_psk)))"
proof -
  have d: "fst (ValidatePSK t ''client'' k one_psk) \<longleftrightarrow> t \<le> 86400000000010 \<and> k = [1, 2, 3]" for t k
    by (auto simp: ValidatePSK_result one_psk_def CreatePSK_def NewZeroRTTManager_def MaxZeroRTTSessions_def
        ZeroRTTLifetime_def time_defs Let_def)
  show ?thesis
    using psk_accepted_and_replayed [of 20 "''client''" "[1, 2, 3]" one_psk 30] by (simp add: d Let_def)
qed

text \<open>The loop finds an oldest entry, whatever the order, when no creation time is the zero time.\<close>

definition oldest_in :: "(string \<rightharpoonup> ZeroRTTSession) \<Rightarrow> string set \<Rightarrow> string \<times> time \<Rightarrow> bool" where
  "oldest_in m K best \<longleftrightarrow>
     (\<exists>s. fst best \<in> K \<and> m (fst best) = Some s \<and> zs_CreatedAt s = snd best) \<and>
     (\<forall>k s. k \<in> K \<longrightarrow> m k = Some s \<longrightarrow> snd best \<le> zs_CreatedAt s)"

lemma oldest_loop_oldest:
  assumes "\<forall>k s. m k = Some s \<longrightarrow> 0 < zs_CreatedAt s" and "oldest_in m K best"
  shows "oldest_in m (K \<union> set ks) (oldest_loop m ks best)"
  using assms(2)
proof (induction ks arbitrary: K best)
  case (Cons k ks)
  have pos: "0 < snd best" using Cons.prems assms(1) unfolding oldest_in_def by metis
  show ?case
  proof (cases "m k")
    case None
    then have "oldest_in m (insert k K) best" using Cons.prems by (auto simp: oldest_in_def)
    from Cons.IH [OF this] None show ?thesis by simp
  next
    case (Some s)
    let ?best = "if zs_CreatedAt s < snd best then (k, zs_CreatedAt s) else best"
    have "oldest_in m (insert k K) ?best" using Cons.prems Some by (auto simp: oldest_in_def)
    from Cons.IH [OF this] Some pos show ?thesis by (simp add: time_defs)
  qed
qed simp

lemma oldest_loop_start:
  assumes "\<forall>k s. m k = Some s \<longrightarrow> 0 < zs_CreatedAt s" and "set ks \<subseteq> dom m" and "ks \<noteq> []"
  shows "oldest_in m (set ks) (oldest_loop m ks ([], time_zero))"
proof -
  obtain k ks' s where ks: "ks = k # ks'" "m k = Some s" using assms(2,3) by (cases ks) auto
  then have "oldest_in m {k} (k, zs_CreatedAt s)" by (simp add: oldest_in_def)
  from oldest_loop_oldest [OF assms(1) this, of ks'] ks show ?thesis by (simp add: time_defs)
qed

text \<open>What the manager relies on: finitely many entries, named, created after the zero time.\<close>

definition zr_ok :: "ZeroRTTManager \<Rightarrow> bool" where
  "zr_ok z \<longleftrightarrow> finite (dom (zr_sessions z)) \<and> [] \<notin> dom (zr_sessions z) \<and>
     (\<forall>k s. zr_sessions z k = Some s \<longrightarrow> 0 < zs_CreatedAt s)"

lemma cleanupOldest_removes:
  assumes "zr_ok z" and "iteration_order (zr_sessions z) ord" and "dom (zr_sessions z) \<noteq> {}"
  shows "\<exists>k s. zr_sessions z k = Some s \<and> cleanupOldest ord z = z\<lparr>zr_sessions := (zr_sessions z)(k := None)\<rparr> \<and>
    (\<forall>k' s'. zr_sessions z k' = Some s' \<longrightarrow> zs_CreatedAt s \<le> zs_CreatedAt s')"
proof -
  let ?best = "oldest_loop (zr_sessions z) ord ([], time_zero)"
  have "oldest_in (zr_sessions z) (set ord) ?best"
    using assms by (intro oldest_loop_start) (simp_all add: zr_ok_def iteration_order_def, force)
  then obtain s where "zr_sessions z (fst ?best) = Some s" "zs_CreatedAt s = snd ?best"
      "\<forall>k' s'. zr_sessions z k' = Some s' \<longrightarrow> snd ?best \<le> zs_CreatedAt s'"
    using assms(2) by (auto simp: oldest_in_def iteration_order_def)
  moreover from this have "fst ?best \<noteq> []" using assms(1) by (auto simp: zr_ok_def)
  ultimately show ?thesis by (intro exI [of _ "fst ?best"] exI [of _ s]) (auto simp: cleanupOldest_def Let_def)
qed

text \<open>\<^verbatim>\<open>CreatePSK\<close> keeps the store at 1000 keys at most and evicts an oldest one, whatever the order
  in which Go visits the map, as long as identities are not empty and the clock is past the zero time.\<close>

theorem psk_store_bounded:
  assumes "zr_ok z" and "card (dom (zr_sessions z)) \<le> MaxZeroRTTSessions"
    and "iteration_order (zr_sessions z) ord" and "identity \<noteq> []" and "0 < t1"
    and "CreatePSK ord r t1 t2 identity secret z = (err, z')"
  shows "zr_ok z' \<and> card (dom (zr_sessions z')) \<le> MaxZeroRTTSessions \<and>
    (\<forall>k k' s s'. k \<noteq> identity \<longrightarrow> zr_sessions z k = Some s \<longrightarrow> zr_sessions z' k = None \<longrightarrow>
       zr_sessions z k' = Some s' \<longrightarrow> zs_CreatedAt s \<le> zs_CreatedAt s')"
proof -
  define z1 where "z1 = (if card (dom (zr_sessions z)) \<ge> MaxZeroRTTSessions then cleanupOldest ord z else z)"
  have z1: "zr_ok z1 \<and> card (dom (zr_sessions z1)) < MaxZeroRTTSessions \<and>
      (\<forall>k k' s s'. zr_sessions z k = Some s \<longrightarrow> zr_sessions z1 k = None \<longrightarrow>
         zr_sessions z k' = Some s' \<longrightarrow> zs_CreatedAt s \<le> zs_CreatedAt s')"
  proof (cases "card (dom (zr_sessions z)) \<ge> MaxZeroRTTSessions")
    case True
    then have "dom (zr_sessions z) \<noteq> {}" by (auto simp: MaxZeroRTTSessions_def)
    from cleanupOldest_removes [OF assms(1,3) this] obtain k s where
      k: "zr_sessions z k = Some s" "cleanupOldest ord z = z\<lparr>zr_sessions := (zr_sessions z)(k := None)\<rparr>"
        "\<forall>k' s'. zr_sessions z k' = Some s' \<longrightarrow> zs_CreatedAt s \<le> zs_CreatedAt s'" by blast
    then have d: "dom (zr_sessions (cleanupOldest ord z)) = dom (zr_sessions z) - {k}" by simp
    have "card (dom (zr_sessions z) - {k}) < card (dom (zr_sessions z))"
      using assms(1) k(1) by (intro card_Diff1_less) (auto simp: zr_ok_def)
    then show ?thesis
      using True assms(1,2) k d by (auto simp: z1_def zr_ok_def split: if_split_asm)
  qed (use assms in \<open>auto simp: z1_def\<close>)
  have "card (insert identity (dom (zr_sessions z1))) \<le> MaxZeroRTTSessions"
    using z1 card_insert_le_m1 [of MaxZeroRTTSessions "dom (zr_sessions z1)" identity]
    by (simp add: MaxZeroRTTSessions_def zr_ok_def card_insert_if)
  then show ?thesis
    using assms(4-6) z1 by (auto simp: CreatePSK_def Let_def z1_def [symmetric] zr_ok_def
        split: sum.split_asm if_split_asm)
qed

theorem psk_store_bounded_witness:
  "zr_ok (snd (CreatePSK [''client''] (Inr [4]) 50 50 ''other'' [7] one_psk)) \<and>
   card (dom (zr_sessions (snd (CreatePSK [''client''] (Inr [4]) 50 50 ''other'' [7] one_psk)))) \<le> MaxZeroRTTSessions"
proof -
  have z: "zr_ok one_psk" "card (dom (zr_sessions one_psk)) \<le> MaxZeroRTTSessions"
      "iteration_order (zr_sessions one_psk) [''client'']"
    by (simp_all add: one_psk_def CreatePSK_def NewZeroRTTManager_def MaxZeroRTTSessions_def zr_ok_def
        iteration_order_def Let_def)
  from psk_store_bounded [OF z, of "''other''" 50 "Inr [4]" 50 "[7]"] show ?thesis
    by (metis list.distinct(1) prod.collapse zero_less_numeral)
qed

end
