(* ===== verification/WB_FlowControl.thy ===== *)
theory WB_FlowControl
  imports WB_Prelude
begin

text \<open>
  The second half of \<^verbatim>\<open>auth.go\<close>: the flow-control windows of a connection and of its streams, and
  the registry of network paths.  Amounts are \<^verbatim>\<open>uint64\<close> and wrap around.
\<close>

subsection \<open>Flow control\<close>

record FlowControlManager =
  maxData :: u64
  maxStreamData :: u64
  availData :: u64
  availStreamData :: "u32 \<rightharpoonup> u64"

definition NewFlowControlManager :: FlowControlManager where
  "NewFlowControlManager =
     \<lparr>maxData = 16 * 1024 * 1024, maxStreamData = 16 * 1024 * 1024, availData = 16 * 1024 * 1024,
      availStreamData = Map.empty\<rparr>"

definition InitConnection :: "u64 \<Rightarrow> FlowControlManager \<Rightarrow> FlowControlManager" where
  "InitConnection n fc = fc\<lparr>maxData := n, availData := n\<rparr>"

definition InitStream :: "u32 \<Rightarrow> u64 \<Rightarrow> FlowControlManager \<Rightarrow> FlowControlManager" where
  "InitStream sid n fc = fc\<lparr>availStreamData := (availStreamData fc)(sid \<mapsto> n)\<rparr>"

definition ConsumeData :: "u64 \<Rightarrow> FlowControlManager \<Rightarrow> bool \<times> FlowControlManager" where
  "ConsumeData amount fc =
     (if availData fc \<ge> amount then (True, fc\<lparr>availData := availData fc - amount\<rparr>) else (False, fc))"

definition ConsumeStreamData :: "u32 \<Rightarrow> u64 \<Rightarrow> FlowControlManager \<Rightarrow> bool \<times> FlowControlManager" where
  "ConsumeStreamData sid amount fc =
     (case availStreamData fc sid of
        None \<Rightarrow>
          (amount \<le> maxStreamData fc,
           fc\<lparr>availStreamData := (availStreamData fc)(sid \<mapsto> maxStreamData fc - amount)\<rparr>)
      | Some avail \<Rightarrow>
          if avail \<ge> amount
          then (True, fc\<lparr>availStreamData := (availStreamData fc)(sid \<mapsto> avail - amount)\<rparr>)
          else (False, fc))"

definition UpdateMaxData :: "u64 \<Rightarrow> FlowControlManager \<Rightarrow> FlowControlManager" where
  "UpdateMaxData n fc = fc\<lparr>maxData := n, availData := n\<rparr>"

definition UpdateMaxStreamData :: "u32 \<Rightarrow> u64 \<Rightarrow> FlowControlManager \<Rightarrow> FlowControlManager" where
  "UpdateMaxStreamData sid n fc = fc\<lparr>availStreamData := (availStreamData fc)(sid \<mapsto> n)\<rparr>"

definition IsConnectionBlocked :: "FlowControlManager \<Rightarrow> bool" where
  "IsConnectionBlocked fc \<longleftrightarrow> availData fc = 0"

definition IsStreamBlocked :: "u32 \<Rightarrow> FlowControlManager \<Rightarrow> bool" where
  "IsStreamBlocked sid fc = (case availStreamData fc sid of None \<Rightarrow> False | Some avail \<Rightarrow> avail = 0)"

definition GetAvailableData :: "FlowControlManager \<Rightarrow> u64" where
  "GetAvailableData fc = availData fc"

definition GetAvailableStreamData :: "u32 \<Rightarrow> FlowControlManager \<Rightarrow> u64" where
  "GetAvailableStreamData sid fc = (case availStreamData fc sid of None \<Rightarrow> 0 | Some avail \<Rightarrow> avail)"

text \<open>
  A window, as both kinds are used: a request is granted iff it fits, a grant takes the amount off
  the window, a refusal changes nothing.  The sum of what is granted is what the window has lost.
\<close>

locale credit_window =
  fixes consume :: "u64 \<Rightarrow> 's \<Rightarrow> bool \<times> 's"
    and credit :: "'s \<Rightarrow> nat"
    and ok :: "'s \<Rightarrow> bool"
  assumes grant: "ok s \<Longrightarrow> fst (consume a s) \<longleftrightarrow> unat a \<le> credit s"
    and take: "ok s \<Longrightarrow> credit (snd (consume a s)) = (if fst (consume a s) then credit s - unat a else credit s)"
    and keeps: "ok s \<Longrightarrow> ok (snd (consume a s))"
begin

fun granted :: "u64 list \<Rightarrow> 's \<Rightarrow> nat \<times> 's" where
  "granted [] s = (0, s)"
| "granted (a # as) s =
     (case consume a s of (b, s') \<Rightarrow> case granted as s' of (n, t) \<Rightarrow> ((if b then unat a else 0) + n, t))"

lemma granted_conserved: "ok s \<Longrightarrow> granted as s = (n, t) \<Longrightarrow> n + credit t = credit s \<and> ok t"
proof (induction as arbitrary: s n)
  case (Cons a as)
  obtain b s' m where c: "consume a s = (b, s')" "granted as s' = (m, t)" "n = (if b then unat a else 0) + m"
    using Cons.prems(2) by (auto split: prod.splits)
  then show ?case
    using Cons.IH [of s' m] grant [OF Cons.prems(1), of a] take [OF Cons.prems(1), of a] keeps [OF Cons.prems(1), of a]
    by (auto split: if_splits)
qed simp

end

fun ConsumeData_all :: "u64 list \<Rightarrow> FlowControlManager \<Rightarrow> nat \<times> FlowControlManager" where
  "ConsumeData_all [] fc = (0, fc)"
| "ConsumeData_all (a # as) fc =
     (case ConsumeData a fc of (b, fc') \<Rightarrow>
        case ConsumeData_all as fc' of (n, fc'') \<Rightarrow> ((if b then unat a else 0) + n, fc''))"

fun ConsumeStreamData_all :: "u32 \<Rightarrow> u64 list \<Rightarrow> FlowControlManager \<Rightarrow> nat \<times> FlowControlManager" where
  "ConsumeStreamData_all sid [] fc = (0, fc)"
| "ConsumeStreamData_all sid (a # as) fc =
     (case ConsumeStreamData sid a fc of (b, fc') \<Rightarrow>
        case ConsumeStreamData_all sid as fc' of (n, fc'') \<Rightarrow> ((if b then unat a else 0) + n, fc''))"

interpretation conn_window: credit_window ConsumeData "\<lambda>fc. unat (availData fc)" "\<lambda>fc. True"
  by unfold_locales (auto simp: ConsumeData_def word_le_nat_alt unat_sub)

interpretation stream_window: credit_window "ConsumeStreamData sid"
  "\<lambda>fc. unat (GetAvailableStreamData sid fc)" "\<lambda>fc. availStreamData fc sid \<noteq> None" for sid
  by unfold_locales
    (auto simp: ConsumeStreamData_def GetAvailableStreamData_def word_le_nat_alt unat_sub split: option.split)

lemma ConsumeData_all_granted: "ConsumeData_all as fc = conn_window.granted as fc"
  by (induction as arbitrary: fc) (auto split: prod.splits)

lemma ConsumeStreamData_all_granted: "ConsumeStreamData_all sid as fc = stream_window.granted sid as fc"
  by (induction as arbitrary: fc) (auto split: prod.splits)

text \<open>C15: Flow control of a connection conserves credit: whatever amounts are asked for after
  \<^verbatim>\<open>InitConnection n\<close> or \<^verbatim>\<open>UpdateMaxData n\<close>, the amounts that were granted and the credit that is left add up
  to \<open>n\<close>, so a peer never gets more than it was given, and no subtraction wraps around; the connection is
  blocked exactly when all of \<open>n\<close> has been granted.\<close>

theorem connection_credit_conserved:
  assumes "given = InitConnection n fc \<or> given = UpdateMaxData n fc" and "ConsumeData_all as given = (sent, fc')"
  shows "sent + unat (GetAvailableData fc') = unat n \<and> sent \<le> unat n \<and>
    (IsConnectionBlocked fc' \<longleftrightarrow> sent = unat n)"
proof -
  have "unat (availData given) = unat n" using assms(1) by (auto simp: InitConnection_def UpdateMaxData_def)
  then have "sent + unat (availData fc') = unat n"
    using conn_window.granted_conserved [where s = given and as = as and n = sent and t = fc'] assms(2)
    by (simp add: ConsumeData_all_granted)
  then show ?thesis by (auto simp: GetAvailableData_def IsConnectionBlocked_def unat_eq_0)
qed

theorem connection_credit_conserved_witness:
  "ConsumeData_all [60, 50, 40] (UpdateMaxData 100 NewFlowControlManager) =
     (100, (UpdateMaxData 100 NewFlowControlManager)\<lparr>availData := 0\<rparr>) \<and>
   100 + unat (0 :: u64) = unat (100 :: u64)"
proof -
  have c: "ConsumeData_all [60, 50, 40] (UpdateMaxData 100 NewFlowControlManager) =
      (100, (UpdateMaxData 100 NewFlowControlManager)\<lparr>availData := 0\<rparr>)"
    by (simp add: ConsumeData_def UpdateMaxData_def)
  from connection_credit_conserved [OF disjI2 [OF refl] c] c show ?thesis by (simp add: GetAvailableData_def)
qed

text \<open>A stream that was opened with \<^verbatim>\<open>InitStream\<close> has the same guarantee, and other streams and the
  connection's window are not touched by it.\<close>

theorem stream_credit_conserved:
  assumes "ConsumeStreamData_all sid as (InitStream sid n fc) = (sent, fc')"
  shows "sent + unat (GetAvailableStreamData sid fc') = unat n \<and>
    GetAvailableData fc' = GetAvailableData fc \<and>
    (\<forall>other. other \<noteq> sid \<longrightarrow> GetAvailableStreamData other fc' = GetAvailableStreamData other fc)"
proof -
  have frame: "ConsumeStreamData_all sid as c = (m, c') \<Longrightarrow> GetAvailableData c' = GetAvailableData c \<and>
      (\<forall>other. other \<noteq> sid \<longrightarrow> GetAvailableStreamData other c' = GetAvailableStreamData other c)" for c c' m
  proof (induction as arbitrary: c m)
    case (Cons a as)
    obtain b d k where d: "ConsumeStreamData sid a c = (b, d)" "ConsumeStreamData_all sid as d = (k, c')"
      using Cons.prems by (auto split: prod.splits)
    have "GetAvailableData d = GetAvailableData c \<and>
        (\<forall>other. other \<noteq> sid \<longrightarrow> GetAvailableStreamData other d = GetAvailableStreamData other c)"
      using d(1) by (auto simp: ConsumeStreamData_def GetAvailableData_def GetAvailableStreamData_def
          split: option.splits if_splits)
    with Cons.IH [OF d(2)] show ?case by simp
  qed simp
  show ?thesis
    using frame [OF assms] stream_window.granted_conserved
      [where s = "InitStream sid n fc" and sid = sid and as = as and n = sent and t = fc'] assms
    by (auto simp: ConsumeStreamData_all_granted InitStream_def GetAvailableStreamData_def GetAvailableData_def)
qed

theorem stream_credit_conserved_witness:
  "fst (ConsumeStreamData_all 3 [60, 50, 40] (InitStream 3 100 NewFlowControlManager)) +
   unat (GetAvailableStreamData 3 (snd (ConsumeStreamData_all 3 [60, 50, 40] (InitStream 3 100 NewFlowControlManager)))) = 100"
  using stream_credit_conserved [of 3 "[60, 50, 40]" 100 NewFlowControlManager] by (simp add: prod_eq_iff)

text \<open>A stream whose first use is \<^verbatim>\<open>ConsumeStreamData\<close> has no such guarantee: when the first amount
  exceeds \<^verbatim>\<open>maxStreamData\<close> the call says no, but stores the difference, which wraps around; the stream
  then has more credit than the limit, and the same amount is granted at the second attempt whenever
  it is at most half of the range of \<^verbatim>\<open>uint64\<close>.\<close>

theorem stream_first_use_underflows:
  assumes "availStreamData fc sid = None" and "maxStreamData fc < amount" and "unat amount \<le> 2 ^ 63"
  shows "\<not> fst (ConsumeStreamData sid amount fc) \<and>
    fst (ConsumeStreamData sid amount (snd (ConsumeStreamData sid amount fc)))"
proof -
  have m: "unat (maxStreamData fc) < unat amount" using assms(2) by (simp add: word_less_nat_alt)
  then have "unat (maxStreamData fc - amount) = 2 ^ 64 + unat (maxStreamData fc) - unat amount"
    by (simp add: unat_sub_if_size word_size)
  then have "amount \<le> maxStreamData fc - amount" using assms(3) m by (simp add: word_le_nat_alt)
  with assms(1,2) show ?thesis by (simp add: ConsumeStreamData_def not_le)
qed

theorem stream_first_use_underflows_witness:
  "\<not> fst (ConsumeStreamData 1 20000000 NewFlowControlManager) \<and>
   fst (ConsumeStreamData 1 20000000 (snd (ConsumeStreamData 1 20000000 NewFlowControlManager)))"
  by (rule stream_first_use_underflows) (simp_all add: NewFlowControlManager_def)

end
