(* ===== verification/WB_MultiPath.thy ===== *)
theory WB_MultiPath
  imports WB_Prelude
begin

text \<open>
  The registry of network paths at the end of \<^verbatim>\<open>auth.go\<close>.  Loops over the map of paths take the
  order of the visits as an argument; the theorems hold for every order.
\<close>

record Path =
  path_ID :: u32
  LocalAddr :: string
  RemoteAddr :: string
  path_Active :: bool
  Latency :: duration
  LastActive :: time
  RX :: u64
  TX :: u64

record MultiPathManager =
  paths :: "u32 \<rightharpoonup> Path"
  activeID :: u32

definition NewMultiPathManager :: MultiPathManager where
  "NewMultiPathManager = \<lparr>paths = Map.empty, activeID = 0\<rparr>"

definition AddPath :: "time \<Rightarrow> string \<Rightarrow> string \<Rightarrow> MultiPathManager \<Rightarrow> u32 \<times> MultiPathManager" where
  "AddPath now localAddr remoteAddr mp =
     (let mp = mp\<lparr>activeID := activeID mp + 1\<rparr>;
          path = \<lparr>path_ID = activeID mp, LocalAddr = localAddr, RemoteAddr = remoteAddr, path_Active = True,
                  Latency = 0, LastActive = now, RX = 0, TX = 0\<rparr>
      in (activeID mp, mp\<lparr>paths := (paths mp)(activeID mp \<mapsto> path)\<rparr>))"

definition RemovePath :: "u32 \<Rightarrow> MultiPathManager \<Rightarrow> MultiPathManager" where
  "RemovePath pathID mp =
     (case paths mp pathID of
        None \<Rightarrow> mp
      | Some path \<Rightarrow> mp\<lparr>paths := (paths mp)(pathID \<mapsto> path\<lparr>path_Active := False\<rparr>)\<rparr>)"

fun active_loop :: "(u32 \<rightharpoonup> Path) \<Rightarrow> u32 list \<Rightarrow> u32 \<times> bool" where
  "active_loop m [] = (0, False)"
| "active_loop m (i # ids) =
     (case m i of
        None \<Rightarrow> active_loop m ids
      | Some path \<Rightarrow> if path_Active path then (i, True) else active_loop m ids)"

definition GetActivePath :: "u32 list \<Rightarrow> MultiPathManager \<Rightarrow> u32 \<times> bool" where
  "GetActivePath ord mp = active_loop (paths mp) ord"

fun best_loop :: "(u32 \<rightharpoonup> Path) \<Rightarrow> u32 list \<Rightarrow> u32 \<times> duration \<Rightarrow> u32 \<times> duration" where
  "best_loop m [] best = best"
| "best_loop m (i # ids) best =
     (case m i of
        None \<Rightarrow> best_loop m ids best
      | Some path \<Rightarrow>
          best_loop m ids (if path_Active path \<and> (fst best = 0 \<or> Latency path < snd best)
                           then (i, Latency path) else best))"

definition GetBestPath :: "u32 list \<Rightarrow> MultiPathManager \<Rightarrow> u32 \<times> bool" where
  "GetBestPath ord mp = (let bestID = fst (best_loop (paths mp) ord (0, 0)) in (bestID, bestID \<noteq> 0))"

definition UpdateLatency :: "time \<Rightarrow> u32 \<Rightarrow> duration \<Rightarrow> MultiPathManager \<Rightarrow> MultiPathManager" where
  "UpdateLatency now pathID latency mp =
     (case paths mp pathID of
        None \<Rightarrow> mp
      | Some path \<Rightarrow> mp\<lparr>paths := (paths mp)(pathID \<mapsto> path\<lparr>Latency := latency, LastActive := now\<rparr>)\<rparr>)"

definition GetPathStats :: "u32 \<Rightarrow> MultiPathManager \<Rightarrow> u64 \<times> u64 \<times> bool" where
  "GetPathStats pathID mp =
     (case paths mp pathID of
        None \<Rightarrow> (0, 0, False)
      | Some path \<Rightarrow> (RX path, TX path, path_Active path))"

fun count_loop :: "(u32 \<rightharpoonup> Path) \<Rightarrow> u32 list \<Rightarrow> nat \<Rightarrow> nat" where
  "count_loop m [] n = n"
| "count_loop m (i # ids) n =
     (case m i of
        None \<Rightarrow> count_loop m ids n
      | Some path \<Rightarrow> count_loop m ids (if path_Active path then n + 1 else n))"

definition GetPathCount :: "u32 list \<Rightarrow> MultiPathManager \<Rightarrow> nat" where
  "GetPathCount ord mp = count_loop (paths mp) ord 0"

subsection \<open>The registry\<close>

definition active_paths :: "MultiPathManager \<Rightarrow> u32 set" where
  "active_paths mp = {i. \<exists>p. paths mp i = Some p \<and> path_Active p}"

text \<open>Identifiers are handed out from 1; entry \<open>i\<close> describes path \<open>i\<close>.\<close>

definition mp_inv :: "MultiPathManager \<Rightarrow> bool" where
  "mp_inv mp \<longleftrightarrow> dom (paths mp) = {1..activeID mp} \<and> (\<forall>i p. paths mp i = Some p \<longrightarrow> path_ID p = i)"

lemma unat_u32_inc: "unat (n :: u32) + 1 < 2 ^ 32 \<Longrightarrow> unat (n + 1) = unat n + 1"
  using unat_add_lem [of n 1] by simp

lemma u32_range_Suc:
  assumes "unat (n :: u32) + 1 < 2 ^ 32"
  shows "{1..n + 1} = insert (n + 1) {1..n}"
proof (rule set_eqI)
  fix x
  have "x = n + 1 \<longleftrightarrow> unat x = unat n + 1" using unat_u32_inc [OF assms] by (simp add: word_unat_eq_iff)
  then show "x \<in> {1..n + 1} \<longleftrightarrow> x \<in> insert (n + 1) {1..n}"
    using unat_u32_inc [OF assms] by (auto simp: word_le_nat_alt)
qed

lemma AddPath_inv:
  assumes "mp_inv mp" and "unat (activeID mp) + 1 < 2 ^ 32" and "AddPath now l r mp = (i, mp')"
  shows "mp_inv mp' \<and> i \<notin> dom (paths mp) \<and> i \<noteq> 0 \<and> active_paths mp' = insert i (active_paths mp)"
proof -
  have i: "i = activeID mp + 1" using assms(3) by (auto simp: AddPath_def Let_def)
  have n: "unat i = unat (activeID mp) + 1" using unat_u32_inc [OF assms(2)] by (simp add: i)
  then have "i \<notin> {1..activeID mp}" "i \<noteq> 0" by (auto simp: word_le_nat_alt)
  moreover from this have "paths mp i = None" using assms(1) by (auto simp: mp_inv_def)
  moreover obtain p where mp': "activeID mp' = i" "path_ID p = i" "path_Active p" "paths mp' = (paths mp)(i \<mapsto> p)"
    using assms(3) by (force simp: AddPath_def Let_def)
  moreover from this have "dom (paths mp') = {1..activeID mp'}"
    using u32_range_Suc [OF assms(2)] assms(1) by (auto simp: i mp_inv_def)
  ultimately show ?thesis
    using assms(1) by (auto simp: mp_inv_def active_paths_def domIff split: if_split_asm)
qed

lemma mp_inv_zero:
  assumes "mp_inv mp"
  shows "paths mp 0 = None"
proof -
  have "0 \<notin> dom (paths mp)" using assms by (simp add: mp_inv_def)
  then show ?thesis by (simp add: domIff)
qed

text \<open>The operations that change a registry.\<close>

datatype mp_event = EAdd time string string | ERemove u32 | EMeasure time u32 duration

fun mp_do :: "mp_event \<Rightarrow> MultiPathManager \<Rightarrow> MultiPathManager" where
  "mp_do (EAdd now l r) mp = snd (AddPath now l r mp)"
| "mp_do (ERemove i) mp = RemovePath i mp"
| "mp_do (EMeasure now i d) mp = UpdateLatency now i d mp"

lemma mp_do_inv:
  assumes "mp_inv mp" and "unat (activeID mp) + 1 < 2 ^ 32"
  shows "mp_inv (mp_do e mp) \<and> unat (activeID (mp_do e mp)) \<le> unat (activeID mp) + 1"
proof (cases e)
  case (EAdd now l r)
  then show ?thesis
    using AddPath_inv [OF assms, of now l r "fst (AddPath now l r mp)" "snd (AddPath now l r mp)"]
      unat_u32_inc [OF assms(2)] by (simp add: AddPath_def Let_def)
qed (use assms in \<open>auto simp: RemovePath_def UpdateLatency_def mp_inv_def dom_def split: option.split\<close>)

lemma mp_run_inv:
  "mp_inv mp \<Longrightarrow> unat (activeID mp) + length es < 2 ^ 32 \<Longrightarrow>
     mp_inv (fold mp_do es mp) \<and> unat (activeID (fold mp_do es mp)) \<le> unat (activeID mp) + length es"
proof (induction es arbitrary: mp)
  case (Cons e es)
  have "mp_inv (mp_do e mp) \<and> unat (activeID (mp_do e mp)) \<le> unat (activeID mp) + 1"
    using Cons.prems by (intro mp_do_inv) simp_all
  with Cons.IH [of "mp_do e mp"] Cons.prems show ?case by simp
qed simp

lemma NewMultiPathManager_inv: "mp_inv NewMultiPathManager \<and> activeID NewMultiPathManager = 0"
  by (auto simp: mp_inv_def NewMultiPathManager_def word_le_nat_alt)

lemma count_loop_card:
  "distinct ids \<Longrightarrow> count_loop m ids n = n + card {i \<in> set ids. \<exists>p. m i = Some p \<and> path_Active p}"
proof (induction ids arbitrary: n)
  case (Cons i ids)
  have "{j \<in> set (i # ids). \<exists>p. m j = Some p \<and> path_Active p} =
      (if \<exists>p. m i = Some p \<and> path_Active p then insert i {j \<in> set ids. \<exists>p. m j = Some p \<and> path_Active p}
       else {j \<in> set ids. \<exists>p. m j = Some p \<and> path_Active p})" by auto
  with Cons show ?case by (auto split: option.split)
qed simp

text \<open>What the loop knows of the identifiers it has visited.\<close>

definition best_of :: "(u32 \<rightharpoonup> Path) \<Rightarrow> u32 set \<Rightarrow> u32 \<times> duration \<Rightarrow> bool" where
  "best_of m K best \<longleftrightarrow>
     (if fst best = 0 then \<forall>i \<in> K. \<forall>p. m i = Some p \<longrightarrow> \<not> path_Active p
      else (\<exists>p. m (fst best) = Some p \<and> path_Active p \<and> Latency p = snd best) \<and>
           (\<forall>i \<in> K. \<forall>p. m i = Some p \<longrightarrow> path_Active p \<longrightarrow> snd best \<le> Latency p))"

lemma best_loop_best: "m 0 = None \<Longrightarrow> best_of m K best \<Longrightarrow> best_of m (K \<union> set ids) (best_loop m ids best)"
proof (induction ids arbitrary: K best)
  case (Cons i ids)
  show ?case
  proof (cases "m i")
    case None
    then have "best_of m (insert i K) best" using Cons.prems by (auto simp: best_of_def)
    from Cons.IH [OF Cons.prems(1) this] None show ?thesis by simp
  next
    case (Some p)
    then have "i \<noteq> 0" using Cons.prems(1) by auto
    let ?best = "if path_Active p \<and> (fst best = 0 \<or> Latency p < snd best) then (i, Latency p) else best"
    have "best_of m (insert i K) ?best"
      using Cons.prems Some \<open>i \<noteq> 0\<close> unfolding best_of_def by (auto split: if_split_asm)
    from Cons.IH [OF Cons.prems(1) this] Some show ?thesis by simp
  qed
qed simp

lemma GetBestPath_best:
  assumes "mp_inv mp" and "iteration_order (paths mp) ord" and "GetBestPath ord mp = (i, ok)"
  shows "(ok \<longleftrightarrow> active_paths mp \<noteq> {}) \<and>
    (ok \<longrightarrow> i \<in> active_paths mp \<and>
      (\<forall>j p q. paths mp i = Some p \<longrightarrow> paths mp j = Some q \<longrightarrow> path_Active q \<longrightarrow> Latency p \<le> Latency q))"
proof -
  let ?best = "best_loop (paths mp) ord (0, 0)"
  have "best_of (paths mp) (set ord) ?best"
    using best_loop_best [of "paths mp" "{}" "(0, 0)" ord] mp_inv_zero [OF assms(1)] by (simp add: best_of_def)
  then have b: "best_of (paths mp) (dom (paths mp)) ?best" using assms(2) by (simp add: iteration_order_def)
  have i: "i = fst ?best" "ok \<longleftrightarrow> fst ?best \<noteq> 0" using assms(3) by (auto simp: GetBestPath_def Let_def)
  show ?thesis
  proof (cases "fst ?best = 0")
    case True
    then show ?thesis using b i by (auto simp: best_of_def active_paths_def)
  next
    case False
    then show ?thesis using b i unfolding best_of_def active_paths_def by (simp add: Ball_def dom_def) (metis option.inject)
  qed
qed

text \<open>After any sequence of fewer than \<open>2\<^sup>3\<^sup>2 - 1\<close> additions, removals and measurements of paths, and
  whatever the order in which Go visits the map, \<^verbatim>\<open>AddPath\<close> hands out a new non-zero identifier,
  \<^verbatim>\<open>GetBestPath\<close> finds a path iff some path is active, and then returns an active path whose latency no
  other active path undercuts, and \<^verbatim>\<open>GetPathCount\<close> counts the active paths.\<close>

theorem best_path_minimal:
  assumes "length es < 2 ^ 32 - 1" and "mp = fold mp_do es NewMultiPathManager"
    and "iteration_order (paths mp) ord" and "GetBestPath ord mp = (i, ok)"
  shows "fst (AddPath now l r mp) \<notin> insert 0 (dom (paths mp)) \<and>
    (ok \<longleftrightarrow> active_paths mp \<noteq> {}) \<and>
    (ok \<longrightarrow> i \<in> active_paths mp \<and>
      (\<forall>j p q. paths mp i = Some p \<longrightarrow> paths mp j = Some q \<longrightarrow> path_Active q \<longrightarrow> Latency p \<le> Latency q)) \<and>
    GetPathCount ord mp = card (active_paths mp)"
proof -
  have inv: "mp_inv mp" "unat (activeID mp) + 1 < 2 ^ 32"
    using mp_run_inv [of NewMultiPathManager es] NewMultiPathManager_inv assms(1,2) by auto
  have "{i \<in> set ord. \<exists>p. paths mp i = Some p \<and> path_Active p} = active_paths mp"
    using assms(3) by (auto simp: iteration_order_def active_paths_def)
  then have "GetPathCount ord mp = card (active_paths mp)"
    using assms(3) by (simp add: GetPathCount_def count_loop_card iteration_order_def)
  with GetBestPath_best [OF inv(1) assms(3,4)] AddPath_inv [OF inv, of now l r "fst (AddPath now l r mp)"
      "snd (AddPath now l r mp)"]
  show ?thesis by simp
qed

theorem best_path_minimal_witness:
  "\<exists>mp. mp = fold mp_do [EAdd 1 ''a'' ''b'', EAdd 2 ''c'' ''d'', EMeasure 3 1 50, EMeasure 3 2 20] NewMultiPathManager \<and>
     GetBestPath [1, 2] mp = (2, True) \<and> GetBestPath [2, 1] mp = (2, True) \<and> GetPathCount [1, 2] mp = card (active_paths mp)"
proof -
  define es where "es = [EAdd 1 ''a'' ''b'', EAdd 2 ''c'' ''d'', EMeasure 3 1 50, EMeasure 3 2 20]"
  define mp where "mp = fold mp_do es NewMultiPathManager"
  have "iteration_order (paths mp) [1, 2]"
    by (auto simp: mp_def es_def iteration_order_def AddPath_def UpdateLatency_def NewMultiPathManager_def Let_def)
  moreover have b: "GetBestPath [1, 2] mp = (2, True)" "GetBestPath [2, 1] mp = (2, True)"
    by (simp_all add: mp_def es_def GetBestPath_def AddPath_def UpdateLatency_def NewMultiPathManager_def Let_def)
  moreover have "length es < 2 ^ 32 - 1" by (simp add: es_def)
  ultimately show ?thesis
    using best_path_minimal [of es mp "[1, 2]" 2 True 0 "[]" "[]"] mp_def es_def by blast
qed

end
