(* ===== verification/WB_Crypto.thy ===== *)
theory WB_Crypto
  imports WB_Encoding
begin

text \<open>
  \<^verbatim>\<open>crypto.go\<close>.  The cipher behind \<^verbatim>\<open>cipher.AEAD\<close> (XChaCha20-Poly1305 of \<^verbatim>\<open>golang.org/x/crypto\<close>),
  \<^verbatim>\<open>curve25519.ScalarBaseMult\<close> and the parser of certificates are parameters: the cipher is a field
  of the engine, as in the code, and the laws the code relies on are named predicates.  Results of
  \<^verbatim>\<open>rand.Read\<close> and \<^verbatim>\<open>os.ReadFile\<close> are arguments.
\<close>

subsection \<open>The engine\<close>

text \<open>
  The methods of \<^verbatim>\<open>cipher.AEAD\<close> the engine calls.  \<open>Seal nonce plaintext ad\<close> is what \<^verbatim>\<open>Seal\<close> appends
  to its first argument, \<open>Open nonce ciphertext ad\<close> the result of \<^verbatim>\<open>Open\<close> with an empty first one.
\<close>

record AEAD =
  NonceSize :: nat
  Seal :: "bytes \<Rightarrow> bytes \<Rightarrow> bytes \<Rightarrow> bytes"
  Open :: "bytes \<Rightarrow> bytes \<Rightarrow> bytes \<Rightarrow> error + bytes"

record CryptoEngine =
  privateKey :: bytes
  publicKey :: bytes
  aead :: AEAD
  tlsConfig :: "tls_Config option"
  certPinningEnabled :: bool
  pinnedCertHash :: bytes

definition NewCryptoEngine ::
    "(bytes \<Rightarrow> bytes) \<Rightarrow> (bytes \<Rightarrow> error + AEAD) \<Rightarrow> error + bytes \<Rightarrow> error + bytes \<Rightarrow> error + CryptoEngine" where
  "NewCryptoEngine scalar_base_mult NewX r1 r2 =
     (case r1 of
        Inl err \<Rightarrow> Inl err
      | Inr priv \<Rightarrow>
          (case r2 of
             Inl err \<Rightarrow> Inl err
           | Inr key \<Rightarrow>
               (case NewX key of
                  Inl err \<Rightarrow> Inl err
                | Inr a \<Rightarrow>
                    Inr \<lparr>privateKey = priv, publicKey = scalar_base_mult priv, aead = a, tlsConfig = None,
                         certPinningEnabled = False, pinnedCertHash = []\<rparr>)))"

text \<open>
  \<open>pair\<close> is the result of \<^verbatim>\<open>tls.LoadX509KeyPair\<close> for the two files.  No method of the engine and no
  listener reads the configuration that is stored.
\<close>

definition EnableTLSCert :: "error + bytes \<Rightarrow> CryptoEngine \<Rightarrow> error option \<times> CryptoEngine" where
  "EnableTLSCert pair ce =
     (case pair of
        Inl err \<Rightarrow> (Some err, ce)
      | Inr cert \<Rightarrow>
          (None, ce\<lparr>tlsConfig := Some \<lparr>Certificates = [cert], ClientAuth = NoClientCert,
                                       MinVersion = VersionTLS13, CipherSuites = [0x1301, 0x1302, 0x1303]\<rparr>\<rparr>))"

text \<open>
  A PEM block is its type and its bytes; \<open>pem_decode\<close> and \<open>parse_cert\<close> (from the bytes of a block to
  the raw certificate) stand for \<^verbatim>\<open>encoding/pem\<close> and \<^verbatim>\<open>crypto/x509\<close>.
\<close>

definition EnableCertificatePinning ::
    "(bytes \<Rightarrow> (string \<times> bytes) option) \<Rightarrow> (bytes \<Rightarrow> error + bytes) \<Rightarrow> error + bytes \<Rightarrow> CryptoEngine \<Rightarrow>
     error option \<times> CryptoEngine" where
  "EnableCertificatePinning pem_decode parse_cert file ce =
     (case file of
        Inl err \<Rightarrow> (Some err, ce)
      | Inr data \<Rightarrow>
          (case pem_decode data of
             None \<Rightarrow> (Some ''invalid certificate'', ce)
           | Some (block_type, block) \<Rightarrow>
               if block_type \<noteq> ''CERTIFICATE'' then (Some ''invalid certificate'', ce)
               else (case parse_cert block of
                       Inl err \<Rightarrow> (Some err, ce)
                     | Inr raw \<Rightarrow> (None, ce\<lparr>pinnedCertHash := Sum256 raw, certPinningEnabled := True\<rparr>))))"

definition ValidateCertificatePinning :: "CryptoEngine \<Rightarrow> bytes \<Rightarrow> error option" where
  "ValidateCertificatePinning ce raw =
     (if \<not> certPinningEnabled ce then None
      else (let hash = Sum256 raw
            in if string_of_bytes hash \<noteq> string_of_bytes (pinnedCertHash ce)
               then Some ''certificate pin mismatch - possible MITM attack'' else None))"

text \<open>\<^verbatim>\<open>Seal(nonce, nonce, plaintext, nil)\<close> appends the sealed text to the nonce.\<close>

definition Encrypt :: "error + bytes \<Rightarrow> CryptoEngine \<Rightarrow> bytes \<Rightarrow> error + bytes" where
  "Encrypt r ce plaintext =
     (case r of Inl err \<Rightarrow> Inl err | Inr nonce \<Rightarrow> Inr (nonce @ Seal (aead ce) nonce plaintext []))"

definition Decrypt :: "CryptoEngine \<Rightarrow> bytes \<Rightarrow> error + bytes" where
  "Decrypt ce ciphertext =
     (let nonceSize = NonceSize (aead ce)
      in if length ciphertext < nonceSize then Inl ''ciphertext too short''
         else (let nonce = take nonceSize ciphertext; encrypted = drop nonceSize ciphertext
               in case Open (aead ce) nonce encrypted [] of Inl err \<Rightarrow> Inl err | Inr plaintext \<Rightarrow> Inr plaintext))"

definition GetPublicKey :: "CryptoEngine \<Rightarrow> bytes" where
  "GetPublicKey ce = publicKey ce"

subsection \<open>What the engine guarantees\<close>

text \<open>
  The documented behaviour of an AEAD: opening what was sealed under the same nonce gives the text
  back, and what opens was sealed.
\<close>

definition aead_opens :: "AEAD \<Rightarrow> bool" where
  "aead_opens a \<longleftrightarrow> (\<forall>nonce p ad. length nonce = NonceSize a \<longrightarrow> Open a nonce (Seal a nonce p ad) ad = Inr p)"

definition aead_authentic :: "AEAD \<Rightarrow> bool" where
  "aead_authentic a \<longleftrightarrow>
     (\<forall>nonce c p ad. length nonce = NonceSize a \<longrightarrow> Open a nonce c ad = Inr p \<longrightarrow> c = Seal a nonce p ad)"

lemma Decrypt_Encrypt:
  assumes "aead_opens (aead ce)" and "length nonce = NonceSize (aead ce)" and "Encrypt (Inr nonce) ce p = Inr c"
  shows "Decrypt ce c = Inr p"
proof -
  have "c = nonce @ Seal (aead ce) nonce p []" using assms(3) by (simp add: Encrypt_def)
  then show ?thesis using assms(1,2) by (simp add: Decrypt_def aead_opens_def Let_def)
qed

text \<open>C24: Decryption is exactly the inverse of encryption: a message decrypts to \<open>p\<close> iff it is an
  encryption of \<open>p\<close> under some nonce of the right size.  So every encryption decrypts to its plaintext,
  and anything else, however short, is an error and never a panic.\<close>

theorem decrypt_iff_encrypted:
  assumes "aead_opens (aead ce)" and "aead_authentic (aead ce)"
  shows "Decrypt ce c = Inr p \<longleftrightarrow>
    (\<exists>nonce. length nonce = NonceSize (aead ce) \<and> Encrypt (Inr nonce) ce p = Inr c)"
proof
  assume d: "Decrypt ce c = Inr p"
  let ?n = "NonceSize (aead ce)"
  have "\<not> length c < ?n" and o: "Open (aead ce) (take ?n c) (drop ?n c) [] = Inr p"
    using d by (auto simp: Decrypt_def Let_def split: if_split_asm sum.split_asm)
  then have "length (take ?n c) = ?n" by simp
  moreover from this o have "drop ?n c = Seal (aead ce) (take ?n c) p []"
    using assms(2) by (simp add: aead_authentic_def)
  then have "Encrypt (Inr (take ?n c)) ce p = Inr c" unfolding Encrypt_def by (metis append_take_drop_id sum.case(2))
  ultimately show "\<exists>nonce. length nonce = ?n \<and> Encrypt (Inr nonce) ce p = Inr c" by blast
next
  assume "\<exists>nonce. length nonce = NonceSize (aead ce) \<and> Encrypt (Inr nonce) ce p = Inr c"
  then show "Decrypt ce c = Inr p"
    using Decrypt_Encrypt [OF assms(1)] by blast
qed

text \<open>An instance of the laws: a one-byte nonce and a tag that repeats the nonce and the length.\<close>

definition toy_aead :: AEAD where
  "toy_aead =
     \<lparr>NonceSize = 1,
      Seal = (\<lambda>n p ad. n @ word_of_nat (length ad) # p),
      Open = (\<lambda>n c ad. if take (length n + 1) c = n @ [word_of_nat (length ad)] then Inr (drop (length n + 1) c)
                        else Inl ''chacha20poly1305: message authentication failed'')\<rparr>"

definition toy_engine :: CryptoEngine where
  "toy_engine = \<lparr>privateKey = [], publicKey = [], aead = toy_aead, tlsConfig = None, certPinningEnabled = False, pinnedCertHash = []\<rparr>"

lemma toy_aead_laws: "aead_opens toy_aead" "aead_authentic toy_aead"
proof -
  show "aead_opens toy_aead" by (simp add: aead_opens_def toy_aead_def)
  show "aead_authentic toy_aead"
    unfolding aead_authentic_def
  proof (intro allI impI)
    fix nonce c p ad
    assume "Open toy_aead nonce c ad = Inr p"
    then have "take (length nonce + 1) c = nonce @ [word_of_nat (length ad)]" "p = drop (length nonce + 1) c"
      by (auto simp: toy_aead_def split: if_split_asm)
    then show "c = Seal toy_aead nonce p ad"
      using append_take_drop_id [of "length nonce + 1" c] by (simp add: toy_aead_def)
  qed
qed

theorem decrypt_iff_encrypted_witness:
  "Encrypt (Inr [5]) toy_engine [1, 2, 3] = Inr [5, 5, 0, 1, 2, 3] \<and>
   Decrypt toy_engine [5, 5, 0, 1, 2, 3] = Inr [1, 2, 3]"
proof -
  have e: "Encrypt (Inr [5]) toy_engine [1, 2, 3] = Inr [5, 5, 0, 1, 2, 3]"
    by (simp add: Encrypt_def toy_engine_def toy_aead_def)
  have l: "aead_opens (aead toy_engine)" "aead_authentic (aead toy_engine)"
    using toy_aead_laws by (simp_all add: toy_engine_def)
  have "length [5 :: byte] = NonceSize (aead toy_engine)" by (simp add: toy_engine_def toy_aead_def)
  with decrypt_iff_encrypted [OF l] e show ?thesis by blast
qed

lemma string_of_bytes_inj: "string_of_bytes xs = string_of_bytes ys \<longleftrightarrow> xs = ys"
proof -
  have "(char_of (unat a) :: char) = char_of (unat b) \<longleftrightarrow> a = b" for a b :: byte
    by (simp add: char_of_eq_iff word_unat_eq_iff take_bit_eq_mod)
  then have "inj (\<lambda>b :: byte. char_of (unat b) :: char)" by (simp add: inj_def)
  then show ?thesis by (simp add: string_of_bytes_def inj_map_eq_map)
qed

text \<open>Certificate pinning: a failing \<^verbatim>\<open>EnableCertificatePinning\<close> (unreadable file, no PEM block, a block
  of another type, a certificate that does not parse) changes nothing, and a successful one makes the
  engine accept exactly the certificates with the digest of the pinned one, the pinned one among them;
  before, every certificate is accepted.\<close>

theorem pinning_accepts_exactly:
  assumes "EnableCertificatePinning pem_decode parse_cert file ce = (err, ce')"
  shows "(err \<noteq> None \<longrightarrow> ce' = ce) \<and>
    (err = None \<longrightarrow> (\<exists>data block raw. file = Inr data \<and> pem_decode data = Some (''CERTIFICATE'', block) \<and>
       parse_cert block = Inr raw \<and>
       (\<forall>other. ValidateCertificatePinning ce' other = None \<longleftrightarrow> Sum256 other = Sum256 raw))) \<and>
    (\<not> certPinningEnabled ce \<longrightarrow> ValidateCertificatePinning ce any = None)"
  using assms
  by (auto simp: EnableCertificatePinning_def ValidateCertificatePinning_def string_of_bytes_inj Let_def
      split: sum.split_asm option.split_asm if_split_asm prod.split_asm)

theorem pinning_accepts_exactly_witness:
  "\<exists>ce'. EnableCertificatePinning (\<lambda>d. Some (''CERTIFICATE'', d)) Inr (Inr [1, 2]) toy_engine = (None, ce') \<and>
     ValidateCertificatePinning ce' [1, 2] = None"
proof -
  let ?r = "EnableCertificatePinning (\<lambda>d. Some (''CERTIFICATE'', d)) Inr (Inr [1, 2]) toy_engine"
  have e: "?r = (None, snd ?r)" by (simp add: EnableCertificatePinning_def)
  from pinning_accepts_exactly [OF e, of "[]"] have "ValidateCertificatePinning (snd ?r) [1, 2] = None" by auto
  with e show ?thesis by blast
qed

end
