(* ===== verification/WB_Compression.thy ===== *)
theory WB_Compression
  imports WB_Float64
begin

text \<open>
  \<^verbatim>\<open>compression.go\<close>.  The two codecs are third-party packages: \<^verbatim>\<open>lz4.CompressBlockBound\<close>,
  \<^verbatim>\<open>lz4.CompressBlock\<close> and \<^verbatim>\<open>lz4.UncompressBlock\<close> (with the length of the destination buffer) and
  \<^verbatim>\<open>EncodeAll\<close>/\<^verbatim>\<open>DecodeAll\<close> of the zstd encoder and decoder are the fields of the parameter \<open>cx\<close>.
\<close>

record codecs =
  lz4_CompressBlockBound :: "nat \<Rightarrow> nat"
  lz4_CompressBlock :: "bytes \<Rightarrow> nat \<Rightarrow> error + bytes"
  lz4_UncompressBlock :: "bytes \<Rightarrow> nat \<Rightarrow> error + bytes"
  zstd_EncodeAll :: "bytes \<Rightarrow> bytes"
  zstd_DecodeAll :: "bytes \<Rightarrow> error + bytes"

text \<open>\<^verbatim>\<open>init\<close>: the encoder and the decoder are made when the package is loaded; a failure panics.\<close>

definition compression_init :: "error + 'enc \<Rightarrow> error + 'dec \<Rightarrow> ('enc \<times> 'dec) go" where
  "compression_init writer reader =
     (case writer of
        Inl err \<Rightarrow> Panic err
      | Inr enc \<Rightarrow> (case reader of Inl err \<Rightarrow> Panic err | Inr dec \<Rightarrow> Ret (enc, dec)))"

definition CompressLZ4 :: "codecs \<Rightarrow> bytes \<Rightarrow> error + bytes" where
  "CompressLZ4 cx data =
     (let buf = lz4_CompressBlockBound cx (length data)
      in case lz4_CompressBlock cx data buf of Inl err \<Rightarrow> Inl err | Inr written \<Rightarrow> Inr written)"

definition DecompressLZ4 :: "codecs \<Rightarrow> bytes \<Rightarrow> error + bytes" where
  "DecompressLZ4 cx data =
     (let buf = length data * 4
      in case lz4_UncompressBlock cx data buf of Inl err \<Rightarrow> Inl err | Inr written \<Rightarrow> Inr written)"

definition CompressZstd :: "codecs \<Rightarrow> bytes \<Rightarrow> error + bytes" where
  "CompressZstd cx data = Inr (zstd_EncodeAll cx data)"

definition DecompressZstd :: "codecs \<Rightarrow> bytes \<Rightarrow> error + bytes" where
  "DecompressZstd cx data = zstd_DecodeAll cx data"

definition Compress :: "codecs \<Rightarrow> bytes \<Rightarrow> error + bytes" where
  "Compress cx data =
     (if length data < 512 then Inr data
      else if length data < 4096 then CompressLZ4 cx data
      else CompressZstd cx data)"

definition Decompress :: "codecs \<Rightarrow> bytes \<Rightarrow> error + bytes" where
  "Decompress cx data =
     (case DecompressZstd cx data of Inr result \<Rightarrow> Inr result | Inl _ \<Rightarrow> DecompressLZ4 cx data)"

definition ShouldCompress :: "bytes \<Rightarrow> bool" where
  "ShouldCompress data \<longleftrightarrow> length data > 512"

definition EstimateCompressionRatio :: "bytes \<Rightarrow> rat" where
  "EstimateCompressionRatio data =
     (if length data < 100 then 1
      else (let sample = take 100 data;
                entropy = f_div (of_nat (card (set sample))) 100
            in if entropy > f64 (8 / 10) then f64 (9 / 10) else f64 (3 / 10)))"

subsection \<open>Round trips\<close>

text \<open>
  The documented behaviour of the codecs.  A zstd frame decodes to its data; an LZ4 block that
  \<^verbatim>\<open>CompressBlock\<close> wrote expands to its data in a buffer that is long enough and is an error in a
  shorter one; with a buffer of \<^verbatim>\<open>CompressBlockBound\<close> bytes \<^verbatim>\<open>CompressBlock\<close> does not fail.
\<close>

definition zstd_ok :: "codecs \<Rightarrow> bool" where
  "zstd_ok cx \<longleftrightarrow> (\<forall>d. zstd_DecodeAll cx (zstd_EncodeAll cx d) = Inr d)"

definition lz4_ok :: "codecs \<Rightarrow> bool" where
  "lz4_ok cx \<longleftrightarrow>
     (\<forall>d n. lz4_CompressBlockBound cx (length d) \<le> n \<longrightarrow>
        (\<exists>c. lz4_CompressBlock cx d n = Inr c \<and>
           (\<forall>m. lz4_UncompressBlock cx c m =
              (if length d \<le> m then Inr d else Inl ''lz4: invalid source or destination buffer too short''))))"


text \<open>An instance of the laws: both codecs store the data behind one byte that names them.\<close>

definition stored_codecs :: codecs where
  "stored_codecs =
     \<lparr>lz4_CompressBlockBound = (\<lambda>n. n + 1),
      lz4_CompressBlock = (\<lambda>d n. if length d < n then Inr (1 # d) else Inl ''short''),
      lz4_UncompressBlock = (\<lambda>c m. case c of [] \<Rightarrow> Inl ''empty'' | _ # d \<Rightarrow>
         if length d \<le> m then Inr d else Inl ''lz4: invalid source or destination buffer too short''),
      zstd_EncodeAll = (\<lambda>d. 2 # d),
      zstd_DecodeAll = (\<lambda>c. case c of [] \<Rightarrow> Inl ''empty'' | b # d \<Rightarrow> if b = 2 then Inr d else Inl ''magic'')\<rparr>"


text \<open>A message below 512 bytes goes out as it is: \<^verbatim>\<open>Decompress\<close> gets it back only if the codecs read
  the raw bytes as themselves, so setting the compression flag on such a message is not safe.  \<^verbatim>\<open>ShouldCompress\<close>
  keeps short messages away from \<^verbatim>\<open>Compress\<close>, and also those of exactly 512 bytes.\<close>

theorem short_messages_are_raw:
  "length d < 512 \<Longrightarrow> Compress cx d = Inr d \<and> \<not> ShouldCompress d \<and>
     (zstd_DecodeAll cx d = Inl e \<longrightarrow> lz4_UncompressBlock cx d (length d * 4) = Inl e' \<longrightarrow> Decompress cx d = Inl e')"
  by (simp add: Compress_def ShouldCompress_def Decompress_def DecompressZstd_def DecompressLZ4_def)

theorem short_messages_are_raw_witness:
  "Compress stored_codecs [] = Inr [] \<and> Decompress stored_codecs [] = Inl ''empty''"
  using short_messages_are_raw [of "[]" stored_codecs "''empty''" "''empty''"] by (simp add: stored_codecs_def)

subsection \<open>The estimate\<close>

lemma entropy_threshold: "f64 (8 / 10) < f64 (81 / 100)"
  by code_simp

text \<open>The estimate has the three values of the code, and rounding does not move its threshold: the
  answer is the poor ratio exactly when the first 100 bytes have more than 80 different values.\<close>

theorem estimate_threshold:
  "EstimateCompressionRatio data =
     (if length data < 100 then 1
      else if 80 < card (set (take 100 data)) then f64 (9 / 10) else f64 (3 / 10))"
proof -
  define n where "n = card (set (take 100 data))"
  have "f64 (8 / 10) < f64 (of_nat n / 100) \<longleftrightarrow> 80 < n"
  proof
    assume l: "f64 (8 / 10) < f64 (of_nat n / 100)"
    show "80 < n"
    proof (rule ccontr)
      assume "\<not> 80 < n"
      then have "f64 (of_nat n / 100) \<le> f64 (8 / 10)" by (intro f64_mono) simp
      with l show False by simp
    qed
  next
    assume "80 < n"
    then have "f64 (81 / 100) \<le> f64 (of_nat n / 100)" by (intro f64_mono) simp
    with entropy_threshold show "f64 (8 / 10) < f64 (of_nat n / 100)" by simp
  qed
  then show ?thesis by (simp add: EstimateCompressionRatio_def f_div_def Let_def n_def)
qed

end
