(* ===== verification/WB_Pool.thy ===== *)
theory WB_Pool
  imports WB_Protocol WB_RateLimit
begin

text \<open>
  \<^verbatim>\<open>pool.go\<close>: the buffer and frame pools, the spin lock, the back-pressure monitor, the DDoS
  protector and the address reputations.  A \<^verbatim>\<open>sync.Pool\<close> is a bag from which \<^verbatim>\<open>Get\<close> takes any element
  or makes a new one; which one is an argument.  The protector's mutex is explicit, because one of
  its methods calls another that takes the same lock.
\<close>

subsection \<open>Pools\<close>

record BufferPool =
  bp_items :: "bytes list"
  bp_size :: nat

definition NewBufferPool :: "nat \<Rightarrow> BufferPool" where
  "NewBufferPool sz = \<lparr>bp_items = [], bp_size = sz\<rparr>"

text \<open>\<open>Some i\<close>: the pool hands out its \<open>i\<close>-th element; \<open>None\<close> (or no such element): it calls \<^verbatim>\<open>New\<close>.\<close>

definition remove_nth :: "nat \<Rightarrow> 'a list \<Rightarrow> 'a list" where
  "remove_nth i xs = take i xs @ drop (Suc i) xs"

definition bp_Get :: "nat option \<Rightarrow> BufferPool \<Rightarrow> bytes \<times> BufferPool" where
  "bp_Get choice bp =
     (case choice of
        Some i \<Rightarrow> if i < length (bp_items bp) then (bp_items bp ! i, bp\<lparr>bp_items := remove_nth i (bp_items bp)\<rparr>)
                   else (replicate (bp_size bp) 0, bp)
      | None \<Rightarrow> (replicate (bp_size bp) 0, bp))"

definition bp_Put :: "bytes \<Rightarrow> BufferPool \<Rightarrow> BufferPool" where
  "bp_Put buf bp = bp\<lparr>bp_items := buf # bp_items bp\<rparr>"

record FramePool =
  fp_items :: "Frame list"

definition NewFramePool :: FramePool where
  "NewFramePool = \<lparr>fp_items = []\<rparr>"

definition zero_frame :: Frame where
  "zero_frame = \<lparr>fMagic = 0, fVersion = 0, fType = 0, fFlags = 0, fStreamID = 0, fLength = 0,
                 fChecksum = 0, fPayload = []\<rparr>"

definition fp_Get :: "nat option \<Rightarrow> FramePool \<Rightarrow> Frame \<times> FramePool" where
  "fp_Get choice fp =
     (case choice of
        Some i \<Rightarrow> if i < length (fp_items fp) then (fp_items fp ! i, fp\<lparr>fp_items := remove_nth i (fp_items fp)\<rparr>)
                   else (zero_frame, fp)
      | None \<Rightarrow> (zero_frame, fp))"

definition fp_Put :: "Frame \<Rightarrow> FramePool \<Rightarrow> FramePool" where
  "fp_Put frame fp = (let frame = frame\<lparr>fPayload := [], fFlags := 0\<rparr> in fp\<lparr>fp_items := frame # fp_items fp\<rparr>)"

text \<open>The package variables.\<close>

record pools =
  smallBufferPool :: BufferPool
  mediumBufferPool :: BufferPool
  largeBufferPool :: BufferPool
  framePool :: FramePool

definition init_pools :: pools where
  "init_pools = \<lparr>smallBufferPool = NewBufferPool 4096, mediumBufferPool = NewBufferPool 16384,
                 largeBufferPool = NewBufferPool 65536, framePool = NewFramePool\<rparr>"

definition GetBuffer :: "nat option \<Rightarrow> int \<Rightarrow> pools \<Rightarrow> bytes \<times> pools" where
  "GetBuffer choice sz ps =
     (if sz \<le> 4096 then
        (case bp_Get choice (smallBufferPool ps) of (b, bp) \<Rightarrow> (b, ps\<lparr>smallBufferPool := bp\<rparr>))
      else if sz \<le> 16384 then
        (case bp_Get choice (mediumBufferPool ps) of (b, bp) \<Rightarrow> (b, ps\<lparr>mediumBufferPool := bp\<rparr>))
      else
        (case bp_Get choice (largeBufferPool ps) of (b, bp) \<Rightarrow> (b, ps\<lparr>largeBufferPool := bp\<rparr>)))"

definition PutBuffer :: "bytes \<Rightarrow> int \<Rightarrow> pools \<Rightarrow> pools" where
  "PutBuffer buf sz ps =
     (if sz \<le> 4096 then ps\<lparr>smallBufferPool := bp_Put buf (smallBufferPool ps)\<rparr>
      else if sz \<le> 16384 then ps\<lparr>mediumBufferPool := bp_Put buf (mediumBufferPool ps)\<rparr>
      else ps\<lparr>largeBufferPool := bp_Put buf (largeBufferPool ps)\<rparr>)"

definition GetFrame :: "nat option \<Rightarrow> pools \<Rightarrow> Frame \<times> pools" where
  "GetFrame choice ps = (case fp_Get choice (framePool ps) of (f, fp) \<Rightarrow> (f, ps\<lparr>framePool := fp\<rparr>))"

definition PutFrame :: "Frame \<Rightarrow> pools \<Rightarrow> pools" where
  "PutFrame frame ps = ps\<lparr>framePool := fp_Put frame (framePool ps)\<rparr>"

definition buffer_class :: "int \<Rightarrow> nat" where
  "buffer_class sz = (if sz \<le> 4096 then 4096 else if sz \<le> 16384 then 16384 else 65536)"

text \<open>Every buffer in a pool has the size of the pool.\<close>

definition bp_ok :: "nat \<Rightarrow> BufferPool \<Rightarrow> bool" where
  "bp_ok n bp \<longleftrightarrow> bp_size bp = n \<and> (\<forall>b \<in> set (bp_items bp). length b = n)"

definition pools_ok :: "pools \<Rightarrow> bool" where
  "pools_ok ps \<longleftrightarrow> bp_ok 4096 (smallBufferPool ps) \<and> bp_ok 16384 (mediumBufferPool ps) \<and>
     bp_ok 65536 (largeBufferPool ps)"

lemma set_remove_nth: "set (remove_nth i xs) \<subseteq> set xs"
  by (auto simp: remove_nth_def dest: in_set_takeD in_set_dropD)

lemma bp_Get_ok: "bp_ok n bp \<Longrightarrow> bp_Get choice bp = (b, bp') \<Longrightarrow> length b = n \<and> bp_ok n bp'"
  using set_remove_nth by (fastforce simp: bp_Get_def bp_ok_def split: option.split_asm if_split_asm)

lemma bp_Put_ok: "bp_ok n bp \<Longrightarrow> length b = n \<Longrightarrow> bp_ok n (bp_Put b bp)"
  by (simp add: bp_ok_def bp_Put_def)

text \<open>The callers: a buffer is taken for a size and given back under the same size.\<close>

inductive pool_step :: "pools \<times> (bytes \<times> int) list \<Rightarrow> int \<Rightarrow> pools \<times> (bytes \<times> int) list \<Rightarrow> bool" where
  pool_get: "GetBuffer choice sz ps = (b, ps') \<Longrightarrow> pool_step (ps, out) sz (ps', (b, sz) # out)"
| pool_put: "pool_step (ps, xs @ (b, sz) # ys) sz (PutBuffer b sz ps, xs @ ys)"

definition pools_inv :: "pools \<times> (bytes \<times> int) list \<Rightarrow> bool" where
  "pools_inv s \<longleftrightarrow> pools_ok (fst s) \<and> (\<forall>(b, sz) \<in> set (snd s). length b = buffer_class sz)"

lemma GetBuffer_ok:
  assumes "pools_ok ps" and "GetBuffer choice sz ps = (b, ps')"
  shows "pools_ok ps' \<and> length b = buffer_class sz"
  using assms bp_Get_ok
  by (auto simp: GetBuffer_def pools_ok_def buffer_class_def split: if_split_asm prod.split_asm)

interpretation pool_users: invariant_system pool_step pools_inv
proof
  fix s sz t
  assume i: "pools_inv s" and "pool_step s sz t"
  from this(2) show "pools_inv t"
  proof cases
    case (pool_get choice ps b ps' out)
    then show ?thesis using i GetBuffer_ok [of ps choice sz b ps'] by (auto simp: pools_inv_def)
  next
    case (pool_put ps xs b ys)
    then show ?thesis
      using i by (auto simp: pools_inv_def PutBuffer_def pools_ok_def buffer_class_def bp_Put_ok split: if_split_asm)
  qed
qed

text \<open>Callers that give each buffer back under the size they asked for always hold a buffer of the
  size class, whatever the pools hand out: it is long enough for every size up to 65536, and for a
  larger size it has 65536 bytes only.\<close>

theorem pooled_buffer_sizes:
  assumes "run pool_step (init_pools, []) ls (ps, out)" and "(b, sz) \<in> set out"
  shows "length b = buffer_class sz \<and> (sz \<le> int (length b) \<longleftrightarrow> sz \<le> 65536)"
proof -
  have "pools_inv (init_pools, [])" by (simp add: pools_inv_def pools_ok_def init_pools_def bp_ok_def NewBufferPool_def)
  from pool_users.inv_run [OF assms(1) this] assms(2) show ?thesis
    by (auto simp: pools_inv_def buffer_class_def)
qed

theorem pooled_buffer_sizes_witness:
  "\<exists>ps out b. run pool_step (init_pools, []) [100000] (ps, out) \<and> (b, 100000) \<in> set out \<and>
     \<not> 100000 \<le> int (length b)"
proof -
  obtain b ps where g: "GetBuffer None 100000 init_pools = (b, ps)" by (metis surj_pair)
  have r: "run pool_step (init_pools, []) [100000] (ps, [(b, 100000)])"
    by (rule run_Cons [where step = pool_step, OF pool_get [OF g] run_Nil])
  from pooled_buffer_sizes [OF r, of b 100000] have "\<not> 100000 \<le> int (length b)" by simp
  with r show ?thesis by (intro exI [of _ ps] exI [of _ "[(b, 100000)]"] exI [of _ b] conjI) simp_all
qed

text \<open>A recycled frame has no payload and no flags, and keeps the other fields of its previous life: type, stream,
  length and checksum.  The pool never holds anything else.\<close>

theorem recycled_frames:
  assumes "\<forall>g \<in> set (fp_items (framePool ps)). fPayload g = [] \<and> fFlags g = 0"
  shows "GetFrame (Some 0) (PutFrame f ps) = (f\<lparr>fPayload := [], fFlags := 0\<rparr>, ps) \<and>
    (GetFrame choice ps = (g, ps') \<longrightarrow> fPayload g = [] \<and> fFlags g = 0)"
  using assms by (cases ps) (auto simp: GetFrame_def PutFrame_def fp_Get_def fp_Put_def remove_nth_def zero_frame_def Let_def
      split: option.split_asm if_split_asm)

theorem recycled_frames_witness:
  "\<exists>f. GetFrame (Some 0) (PutFrame (zero_frame\<lparr>fStreamID := 7, fPayload := [1]\<rparr>) init_pools) = (f, init_pools) \<and> fStreamID f = 7"
  using recycled_frames [of init_pools "zero_frame\<lparr>fStreamID := 7, fPayload := [1]\<rparr>"] by (simp add: init_pools_def NewFramePool_def zero_frame_def)

subsection \<open>The spin lock\<close>

text \<open>
  \<^verbatim>\<open>Lock\<close> repeats a compare-and-swap until it succeeds.  The state has the word and, for the
  statement, the goroutines that have returned from \<^verbatim>\<open>Lock\<close> and not yet called \<^verbatim>\<open>Unlock\<close>.
\<close>

record SpinLock =
  sl_locked :: int

definition CompareAndSwap :: "int \<Rightarrow> int \<Rightarrow> SpinLock \<Rightarrow> bool \<times> SpinLock" where
  "CompareAndSwap old new sl = (if sl_locked sl = old then (True, sl\<lparr>sl_locked := new\<rparr>) else (False, sl))"

definition SpinLock_try :: "SpinLock \<Rightarrow> bool \<times> SpinLock" where
  "SpinLock_try sl = CompareAndSwap 0 1 sl"

definition SpinLock_Unlock :: "SpinLock \<Rightarrow> SpinLock" where
  "SpinLock_Unlock sl = sl\<lparr>sl_locked := 0\<rparr>"

datatype spin_op = STry nat | SUnlock nat

inductive spin_step :: "SpinLock \<times> nat set \<Rightarrow> spin_op \<Rightarrow> SpinLock \<times> nat set \<Rightarrow> bool" where
  spin_acquire: "SpinLock_try sl = (True, sl') \<Longrightarrow> spin_step (sl, H) (STry g) (sl', insert g H)"
| spin_again: "SpinLock_try sl = (False, sl') \<Longrightarrow> spin_step (sl, H) (STry g) (sl', H)"
| spin_release: "g \<in> H \<Longrightarrow> spin_step (sl, H) (SUnlock g) (SpinLock_Unlock sl, H - {g})"

definition spin_inv :: "SpinLock \<times> nat set \<Rightarrow> bool" where
  "spin_inv s \<longleftrightarrow> (sl_locked (fst s) = 0 \<and> snd s = {}) \<or> (\<exists>g. sl_locked (fst s) = 1 \<and> snd s = {g})"

interpretation spin: invariant_system spin_step spin_inv
  by unfold_locales
    (auto elim!: spin_step.cases simp: spin_inv_def SpinLock_try_def CompareAndSwap_def SpinLock_Unlock_def
      split: if_split_asm)

text \<open>The spin lock excludes: in every interleaving of attempts, in which only a holder unlocks, at
  most one goroutine holds it, an attempt succeeds iff nobody holds it, and after the holder's
  \<^verbatim>\<open>Unlock\<close> the next attempt of anyone succeeds.\<close>

theorem spinlock_excludes:
  assumes "run spin_step (\<lparr>sl_locked = 0\<rparr>, {}) ls (sl, H)"
  shows "(\<forall>g \<in> H. \<forall>g' \<in> H. g = g') \<and> (fst (SpinLock_try sl) \<longleftrightarrow> H = {}) \<and>
    (H \<noteq> {} \<longrightarrow> fst (SpinLock_try (SpinLock_Unlock sl)))"
proof -
  have "spin_inv (\<lparr>sl_locked = 0\<rparr>, {})" by (simp add: spin_inv_def)
  from spin.inv_run [OF assms this] show ?thesis
    by (auto simp: spin_inv_def SpinLock_try_def CompareAndSwap_def SpinLock_Unlock_def)
qed

theorem spinlock_excludes_witness:
  "\<exists>sl. run spin_step (\<lparr>sl_locked = 0\<rparr>, {}) [STry 1, STry 2, SUnlock 1, STry 2] (sl, {2}) \<and> \<not> fst (SpinLock_try sl)"
proof -
  have r: "run spin_step (\<lparr>sl_locked = 0\<rparr>, {}) [STry 1, STry 2, SUnlock 1, STry 2] (\<lparr>sl_locked = 1\<rparr>, {2})"
  proof (intro run_Cons [where step = spin_step])
    show "spin_step (\<lparr>sl_locked = 0\<rparr>, {}) (STry 1) (\<lparr>sl_locked = 1\<rparr>, {1})"
      by (rule spin_acquire) (simp add: SpinLock_try_def CompareAndSwap_def)
    show "spin_step (\<lparr>sl_locked = 1\<rparr>, {1}) (STry 2) (\<lparr>sl_locked = 1\<rparr>, {1})"
      by (rule spin_again) (simp add: SpinLock_try_def CompareAndSwap_def)
    show "spin_step (\<lparr>sl_locked = 1\<rparr>, {1}) (SUnlock 1) (\<lparr>sl_locked = 0\<rparr>, {})"
      using spin_release [of 1 "{1}" "\<lparr>sl_locked = 1\<rparr>"] by (simp add: SpinLock_Unlock_def)
    show "spin_step (\<lparr>sl_locked = 0\<rparr>, {}) (STry 2) (\<lparr>sl_locked = 1\<rparr>, {2})"
      by (rule spin_acquire) (simp add: SpinLock_try_def CompareAndSwap_def)
  qed (rule run_Nil)
  have "\<not> fst (SpinLock_try \<lparr>sl_locked = 1\<rparr>)" using spinlock_excludes [OF r] by blast
  from conjI [OF r this] show ?thesis by (rule exI)
qed

subsection \<open>Back pressure\<close>

record BackPressureMonitor =
  thresholdLow :: rat
  thresholdHigh :: rat
  highWaterMark :: u64
  lowWaterMark :: u64
  bpm_enabled :: bool
  bpm_paused :: bool

text \<open>The conversion of a double to \<^verbatim>\<open>uint64\<close> drops the fraction.\<close>

definition uint64_of_float :: "rat \<Rightarrow> u64" where
  "uint64_of_float x = word_of_int \<lfloor>x\<rfloor>"

definition NewBackPressureMonitor :: "rat \<Rightarrow> rat \<Rightarrow> BackPressureMonitor" where
  "NewBackPressureMonitor low high =
     \<lparr>thresholdLow = low, thresholdHigh = high,
      highWaterMark = uint64_of_float (f_mul 10000 high), lowWaterMark = uint64_of_float (f_mul 10000 low),
      bpm_enabled = False, bpm_paused = False\<rparr>"

definition bpm_Check :: "BackPressureMonitor \<Rightarrow> bool" where
  "bpm_Check bpm = (if \<not> bpm_enabled bpm then True else let current = highWaterMark bpm in current < highWaterMark bpm)"

definition IsPaused :: "BackPressureMonitor \<Rightarrow> bool" where
  "IsPaused bpm = bpm_paused bpm"

definition Pause :: "BackPressureMonitor \<Rightarrow> BackPressureMonitor" where
  "Pause bpm = bpm\<lparr>bpm_paused := True\<rparr>"

definition Resume :: "BackPressureMonitor \<Rightarrow> BackPressureMonitor" where
  "Resume bpm = bpm\<lparr>bpm_paused := False\<rparr>"

text \<open>The back-pressure check does not depend on any load: a monitor as it is constructed answers yes
  after every sequence of \<^verbatim>\<open>Pause\<close> and \<^verbatim>\<open>Resume\<close>, and one whose \<^verbatim>\<open>enabled\<close> flag is set answers no whatever
  its marks are, because it compares the high-water mark with itself.\<close>

theorem back_pressure_constant:
  "bpm_Check (fold (\<lambda>p. if p then Pause else Resume) ps (NewBackPressureMonitor low high)) \<and>
   \<not> bpm_Check (bpm\<lparr>bpm_enabled := True\<rparr>)"
proof -
  have "bpm_enabled (fold (\<lambda>p. if p then Pause else Resume) ps m) = bpm_enabled m" for m
    by (induction ps arbitrary: m) (simp_all add: Pause_def Resume_def)
  then show ?thesis by (simp add: bpm_Check_def NewBackPressureMonitor_def)
qed

subsection \<open>Reputations\<close>

record reputation =
  score :: rat
  badRequests :: int
  goodRequests :: int
  lastUpdate :: time

record IPReputationManager =
  reputations :: "string \<rightharpoonup> reputation"
  badThreshold :: rat

definition NewIPReputationManager :: IPReputationManager where
  "NewIPReputationManager = \<lparr>reputations = Map.empty, badThreshold = - 10\<rparr>"

definition rep_of :: "time \<Rightarrow> string \<Rightarrow> IPReputationManager \<Rightarrow> reputation" where
  "rep_of now ip irm =
     (case reputations irm ip of
        None \<Rightarrow> \<lparr>score = 0, badRequests = 0, goodRequests = 0, lastUpdate = now\<rparr>
      | Some rep \<Rightarrow> rep)"

definition RecordSuccess :: "time \<Rightarrow> time \<Rightarrow> string \<Rightarrow> IPReputationManager \<Rightarrow> IPReputationManager" where
  "RecordSuccess t1 t2 ip irm =
     (let rep = rep_of t1 ip irm
      in irm\<lparr>reputations := (reputations irm)(ip \<mapsto>
           rep\<lparr>score := f_add (score rep) 1, goodRequests := i64 (goodRequests rep + 1), lastUpdate := t2\<rparr>)\<rparr>)"

definition RecordFailure :: "time \<Rightarrow> time \<Rightarrow> string \<Rightarrow> IPReputationManager \<Rightarrow> IPReputationManager" where
  "RecordFailure t1 t2 ip irm =
     (let rep = rep_of t1 ip irm
      in irm\<lparr>reputations := (reputations irm)(ip \<mapsto>
           rep\<lparr>score := f_sub (score rep) 2, badRequests := i64 (badRequests rep + 1), lastUpdate := t2\<rparr>)\<rparr>)"

definition GetScore :: "string \<Rightarrow> IPReputationManager \<Rightarrow> rat" where
  "GetScore ip irm = (case reputations irm ip of None \<Rightarrow> 0 | Some rep \<Rightarrow> score rep)"

definition IsBad :: "string \<Rightarrow> IPReputationManager \<Rightarrow> bool" where
  "IsBad ip irm = (case reputations irm ip of None \<Rightarrow> False | Some rep \<Rightarrow> score rep < badThreshold irm)"

definition MarkAsBad :: "string \<Rightarrow> IPReputationManager \<Rightarrow> IPReputationManager" where
  "MarkAsBad ip irm =
     (let rep = rep_of time_zero ip irm
      in irm\<lparr>reputations := (reputations irm)(ip \<mapsto> rep\<lparr>score := - 50\<rparr>)\<rparr>)"

definition Reset :: "string \<Rightarrow> IPReputationManager \<Rightarrow> IPReputationManager" where
  "Reset ip irm = irm\<lparr>reputations := (reputations irm)(ip := None)\<rparr>"

text \<open>A record of requests: the address, and whether it was a good one.\<close>

definition record_request :: "time \<Rightarrow> string \<times> bool \<Rightarrow> IPReputationManager \<Rightarrow> IPReputationManager" where
  "record_request t r irm = (if snd r then RecordSuccess t t (fst r) irm else RecordFailure t t (fst r) irm)"

definition net_score :: "string \<Rightarrow> (string \<times> bool) list \<Rightarrow> int" where
  "net_score ip rs = int (length (filter (\<lambda>r. r = (ip, True)) rs)) - 2 * int (length (filter (\<lambda>r. r = (ip, False)) rs))"

lemma net_score_bound: "\<bar>net_score ip rs\<bar> \<le> 2 * int (length rs)"
proof -
  have "length (filter (\<lambda>r. r = (ip, True)) rs) \<le> length rs" "length (filter (\<lambda>r. r = (ip, False)) rs) \<le> length rs"
    by (rule length_filter_le)+
  then show ?thesis unfolding net_score_def by linarith
qed

lemma record_request_score:
  assumes "GetScore ip irm = of_int n" and "\<bar>n\<bar> \<le> 2 ^ 53 - 2"
  shows "GetScore ip (record_request t r irm) = of_int (n + net_score ip [r])"
proof -
  have n1: "f64 (of_int (n + 1)) = of_int (n + 1)" "f64 (of_int (n - 2)) = of_int (n - 2)"
    by (rule f64_of_int, use assms(2) in linarith)+
  have s: "score (rep_of t ip irm) = of_int n" using assms(1) by (simp add: GetScore_def rep_of_def split: option.split_asm)
  show ?thesis
    using s n1 assms(1)
    by (cases r) (auto simp: record_request_def RecordSuccess_def RecordFailure_def GetScore_def net_score_def f_add_def f_sub_def Let_def)
qed

lemma reputations_score:
  "length rs < 2 ^ 51 \<Longrightarrow> GetScore ip (fold (record_request t) rs NewIPReputationManager) = of_int (net_score ip rs)"
proof (induction rs rule: rev_induct)
  case (snoc r rs)
  then have IH: "GetScore ip (fold (record_request t) rs NewIPReputationManager) = of_int (net_score ip rs)" by simp
  have "\<bar>net_score ip rs\<bar> \<le> 2 ^ 53 - 2" using net_score_bound [of ip rs] snoc.prems by simp
  from record_request_score [OF IH this, of t r] show ?case by (simp add: net_score_def)
qed (simp add: GetScore_def NewIPReputationManager_def net_score_def)

text \<open>After any history of fewer than \<open>2\<^sup>5\<^sup>1\<close> requests, the score of an address is exactly its good
  requests minus twice its bad ones, with no rounding and no influence of other addresses, and the
  address counts as bad iff that is below minus ten.\<close>

theorem reputation_exact:
  assumes "length rs < 2 ^ 51"
  shows "GetScore ip (fold (record_request t) rs NewIPReputationManager) = of_int (net_score ip rs) \<and>
    (IsBad ip (fold (record_request t) rs NewIPReputationManager) \<longleftrightarrow> net_score ip rs < - 10)"
proof -
  have b: "badThreshold (fold (record_request t) rs irm) = badThreshold irm" for irm
    by (induction rs arbitrary: irm) (auto simp: record_request_def RecordSuccess_def RecordFailure_def Let_def)
  have "IsBad ip irm \<longleftrightarrow> GetScore ip irm < badThreshold irm" if "badThreshold irm \<le> 0" for irm
    using that by (auto simp: IsBad_def GetScore_def split: option.split)
  then have "IsBad ip (fold (record_request t) rs NewIPReputationManager) \<longleftrightarrow> of_int (net_score ip rs) < (- 10 :: rat)"
    using b reputations_score [OF assms, of ip t] by (simp add: NewIPReputationManager_def)
  then show ?thesis using reputations_score [OF assms, of ip t] by linarith
qed

theorem reputation_exact_witness:
  "IsBad ''a'' (fold (record_request 5) (replicate 6 (''a'', False) @ [(''a'', True), (''b'', False)]) NewIPReputationManager)"
  using reputation_exact [of "replicate 6 (''a'', False) @ [(''a'', True), (''b'', False)]" "''a''" 5]
  by (simp add: net_score_def filter_replicate)

subsection \<open>The DDoS protector\<close>

record requestCounter =
  rc_count :: int
  windowStart :: time

record DDOSProtector =
  maxRequestsPerWindow :: int
  windowSize :: duration
  dd_maxConnections :: int
  dd_mu :: rwmutex
  requestCounts :: "string \<rightharpoonup> requestCounter"
  blockedIPs :: "string \<rightharpoonup> time"
  dd_limiter :: RateLimiter

definition NewDDOSProtector :: "time \<Rightarrow> int \<Rightarrow> int \<Rightarrow> int \<Rightarrow> DDOSProtector" where
  "NewDDOSProtector now maxReq maxConn windowSec =
     \<lparr>maxRequestsPerWindow = maxReq, windowSize = i64 (windowSec * Second), dd_maxConnections = maxConn,
      dd_mu = rw_free, requestCounts = Map.empty, blockedIPs = Map.empty,
      dd_limiter = NewRateLimiter now (f64 (of_int maxReq)) (f_div (f64 (of_int maxReq)) (f64 (of_int windowSec)))\<rparr>"

definition with_mu :: "(rwmutex \<Rightarrow> rwmutex go) \<Rightarrow> DDOSProtector \<Rightarrow> DDOSProtector go" where
  "with_mu f d = go_bind (f (dd_mu d)) (\<lambda>m. Ret (d\<lparr>dd_mu := m\<rparr>))"

definition BlockIP :: "time \<Rightarrow> string \<Rightarrow> duration \<Rightarrow> DDOSProtector \<Rightarrow> DDOSProtector go" where
  "BlockIP now ip d ddos =
     go_bind (with_mu rw_Lock ddos) (\<lambda>ddos.
       let ddos = ddos\<lparr>blockedIPs := (blockedIPs ddos)(ip \<mapsto> time_Add now d)\<rparr>
       in with_mu rw_Unlock ddos)"

text \<open>
  The clock is read for the test of the block (\<open>t1\<close>), in the limiter (\<open>t2\<close>), for the window
  (\<open>t3\<close>, and \<open>t4\<close> when a new one starts) and in \<^verbatim>\<open>BlockIP\<close> (\<open>t5\<close>).
\<close>

definition count_request :: "time \<Rightarrow> time \<Rightarrow> string \<Rightarrow> DDOSProtector \<Rightarrow> requestCounter \<times> DDOSProtector" where
  "count_request t3 t4 ip ddos =
     (let counter = (case requestCounts ddos ip of None \<Rightarrow> \<lparr>rc_count = 0, windowStart = time_zero\<rparr> | Some c \<Rightarrow> c);
          counter = (if time_Sub t3 (windowStart counter) > windowSize ddos
                     then counter\<lparr>rc_count := 0, windowStart := t4\<rparr> else counter);
          counter = counter\<lparr>rc_count := i64 (rc_count counter + 1)\<rparr>
      in (counter, ddos\<lparr>requestCounts := (requestCounts ddos)(ip \<mapsto> counter)\<rparr>))"

definition ddos_Allow :: "time \<Rightarrow> time \<Rightarrow> time \<Rightarrow> time \<Rightarrow> time \<Rightarrow> string \<Rightarrow> DDOSProtector \<Rightarrow> (bool \<times> DDOSProtector) go" where
  "ddos_Allow t1 t2 t3 t4 t5 ip ddos =
     go_bind (with_mu rw_RLock ddos) (\<lambda>ddos.
       if (case blockedIPs ddos ip of None \<Rightarrow> False | Some blocked \<Rightarrow> time_Before t1 blocked)
       then go_bind (with_mu rw_RUnlock ddos) (\<lambda>ddos. Ret (False, ddos))
       else
         let ddos = ddos\<lparr>blockedIPs := (blockedIPs ddos)(ip := None)\<rparr>
         in go_bind (with_mu rw_RUnlock ddos) (\<lambda>ddos.
              let (ok, limiter) = rl_Allow t2 (dd_limiter ddos); ddos = ddos\<lparr>dd_limiter := limiter\<rparr>
              in if \<not> ok then go_bind (BlockIP t5 ip (5 * Minute) ddos) (\<lambda>ddos. Ret (False, ddos))
                 else
                   go_bind (with_mu rw_Lock ddos) (\<lambda>ddos.
                     let (counter, ddos) = count_request t3 t4 ip ddos
                     in if rc_count counter > maxRequestsPerWindow ddos
                        then go_bind (BlockIP t5 ip (10 * Minute) ddos) (\<lambda>ddos.
                               go_bind (with_mu rw_Unlock ddos) (\<lambda>ddos. Ret (False, ddos)))
                        else go_bind (with_mu rw_Unlock ddos) (\<lambda>ddos. Ret (True, ddos)))))"

definition UnblockIP :: "string \<Rightarrow> DDOSProtector \<Rightarrow> DDOSProtector go" where
  "UnblockIP ip ddos =
     go_bind (with_mu rw_Lock ddos) (\<lambda>ddos.
       let ddos = ddos\<lparr>blockedIPs := (blockedIPs ddos)(ip := None), requestCounts := (requestCounts ddos)(ip := None)\<rparr>
       in with_mu rw_Unlock ddos)"

definition ddos_cleanup :: "time \<Rightarrow> string list \<Rightarrow> string list \<Rightarrow> DDOSProtector \<Rightarrow> DDOSProtector go" where
  "ddos_cleanup now ord1 ord2 ddos =
     go_bind (with_mu rw_Lock ddos) (\<lambda>ddos.
       let ddos = ddos\<lparr>blockedIPs := map_purge (\<lambda>blocked. time_After now blocked) ord1 (blockedIPs ddos)\<rparr>;
           ddos = ddos\<lparr>requestCounts :=
             map_purge (\<lambda>c. time_Sub now (windowStart c) > i64 (5 * windowSize ddos)) ord2 (requestCounts ddos)\<rparr>
       in with_mu rw_Unlock ddos)"

definition IsBlocked :: "time \<Rightarrow> string \<Rightarrow> DDOSProtector \<Rightarrow> (bool \<times> DDOSProtector) go" where
  "IsBlocked now ip ddos =
     go_bind (with_mu rw_RLock ddos) (\<lambda>ddos.
       let b = (case blockedIPs ddos ip of None \<Rightarrow> False | Some blocked \<Rightarrow> time_Before now blocked)
       in go_bind (with_mu rw_RUnlock ddos) (\<lambda>ddos. Ret (b, ddos)))"

lemma with_mu_free:
  "dd_mu d = rw_free \<Longrightarrow> with_mu rw_RLock d = Ret (d\<lparr>dd_mu := \<lparr>rw_writer = False, rw_readers = 1\<rparr>\<rparr>)"
  "dd_mu d = rw_free \<Longrightarrow> with_mu rw_Lock d = Ret (d\<lparr>dd_mu := \<lparr>rw_writer = True, rw_readers = 0\<rparr>\<rparr>)"
  "dd_mu d = \<lparr>rw_writer = False, rw_readers = 1\<rparr> \<Longrightarrow> with_mu rw_RUnlock d = Ret (d\<lparr>dd_mu := rw_free\<rparr>)"
  "dd_mu d = \<lparr>rw_writer = True, rw_readers = 0\<rparr> \<Longrightarrow> with_mu rw_Unlock d = Ret (d\<lparr>dd_mu := rw_free\<rparr>)"
  "dd_mu d = \<lparr>rw_writer = True, rw_readers = 0\<rparr> \<Longrightarrow> with_mu rw_Lock d = Blocked"
  by (simp_all add: with_mu_def rw_defs)

lemma BlockIP_free:
  "dd_mu d = rw_free \<Longrightarrow> BlockIP now ip t d = Ret (d\<lparr>blockedIPs := (blockedIPs d)(ip \<mapsto> now + t)\<rparr>)"
  by (simp add: BlockIP_def with_mu_free time_defs Let_def)

lemma BlockIP_held: "dd_mu d = \<lparr>rw_writer = True, rw_readers = 0\<rparr> \<Longrightarrow> BlockIP now ip t d = Blocked"
  by (simp add: BlockIP_def with_mu_free)

definition blocked_at :: "time \<Rightarrow> string \<Rightarrow> DDOSProtector \<Rightarrow> bool" where
  "blocked_at t ip d \<longleftrightarrow> (\<exists>until. blockedIPs d ip = Some until \<and> t < until)"

text \<open>What a call on a free protector does, in each of its four cases.\<close>

lemma ddos_Allow_cases:
  fixes t2 :: time and ip :: string and d :: DDOSProtector
  assumes "dd_mu d = rw_free"
  defines "d1 \<equiv> d\<lparr>blockedIPs := (blockedIPs d)(ip := None), dd_limiter := snd (rl_Allow t2 (dd_limiter d))\<rparr>"
  shows "ddos_Allow t1 t2 t3 t4 t5 ip d =
    (if blocked_at t1 ip d then Ret (False, d)
     else if \<not> fst (rl_Allow t2 (dd_limiter d)) then Ret (False, d1\<lparr>blockedIPs := (blockedIPs d1)(ip \<mapsto> t5 + 5 * Minute)\<rparr>)
     else if rc_count (fst (count_request t3 t4 ip d1)) > maxRequestsPerWindow d then Blocked
     else Ret (True, snd (count_request t3 t4 ip d1)))"
proof (cases "blocked_at t1 ip d")
  case True
  then show ?thesis
    using assms(1) by (auto simp: ddos_Allow_def with_mu_free blocked_at_def time_defs Let_def)
next
  case False
  then have nb: "(case blockedIPs d ip of None \<Rightarrow> False | Some blocked \<Rightarrow> time_Before t1 blocked) \<longleftrightarrow> False"
    by (auto simp: blocked_at_def time_defs split: option.split)
  have cr: "count_request t3 t4 ip (d1\<lparr>dd_mu := m\<rparr>) =
      (fst (count_request t3 t4 ip d1), (snd (count_request t3 t4 ip d1))\<lparr>dd_mu := m\<rparr>)" for m
    by (simp add: count_request_def Let_def split: option.split)
  have m: "maxRequestsPerWindow (snd (count_request t3 t4 ip d1)) = maxRequestsPerWindow d"
      "dd_mu (snd (count_request t3 t4 ip d1)) = rw_free" "dd_mu d1 = rw_free"
    using assms(1) by (simp_all add: count_request_def d1_def Let_def)
  have step: "d\<lparr>dd_mu := rw_free, blockedIPs := (blockedIPs d)(ip := None), dd_limiter := snd (rl_Allow t2 (dd_limiter d))\<rparr> = d1"
    unfolding d1_def using assms(1) by simp
  have nf: "d\<lparr>dd_mu := rw_free\<rparr> = d" using assms(1) by (cases d) simp
  show ?thesis
    using False assms(1) nb m
    apply (simp add: ddos_Allow_def with_mu_free Let_def case_prod_beta BlockIP_free BlockIP_held)
    apply (simp add: d1_def [symmetric] step cr with_mu_free BlockIP_held)
    apply (simp add: d1_def nf)
    done
qed

text \<open>C39: The protector's second line of defence never returns.  When an address exceeds its requests
  in the window, \<^verbatim>\<open>Allow\<close> calls \<^verbatim>\<open>BlockIP\<close> while it holds the write lock that \<^verbatim>\<open>BlockIP\<close> asks for: the call
  is blocked for ever.  Conversely a call that starts
  on a free protector returns exactly when the address is blocked, the limiter refuses, or the count
  is within the limit.\<close>

theorem ddos_window_deadlock:
  assumes "dd_mu d = rw_free"
  shows "ddos_Allow t1 t2 t3 t4 t5 ip d = Blocked \<longleftrightarrow>
    \<not> blocked_at t1 ip d \<and> fst (rl_Allow t2 (dd_limiter d)) \<and>
    rc_count (fst (count_request t3 t4 ip d)) > maxRequestsPerWindow d"
proof -
  have "fst (count_request t3 t4 ip (d\<lparr>blockedIPs := b, dd_limiter := l\<rparr>)) = fst (count_request t3 t4 ip d)" for b l
    by (simp add: count_request_def Let_def)
  then show ?thesis by (simp add: ddos_Allow_cases [OF assms])
qed

text \<open>An address that used up its window: 100 requests since second 10, the limiter full.\<close>

definition busy_protector :: DDOSProtector where
  "busy_protector = (NewDDOSProtector (10 * Second) 100 1000 60)\<lparr>
     requestCounts := [''a'' \<mapsto> \<lparr>rc_count = 100, windowStart = 10 * Second\<rparr>]\<rparr>"

theorem ddos_window_deadlock_witness:
  "ddos_Allow (10 * Second) (10 * Second) (20 * Second) (20 * Second) (20 * Second) ''a'' busy_protector = Blocked"
proof -
  have m: "f64 100 = 100" using f64_of_int [of 100] by simp
  have "rl_Allow (10 * Second) (dd_limiter busy_protector) =
      (True, (dd_limiter busy_protector)\<lparr>tokens := f_sub 100 1\<rparr>)"
    by (simp add: busy_protector_def NewDDOSProtector_def NewRateLimiter_def rl_Allow_def rl_refill_fill m Let_def
        fill_zero bucket_ok_def)
  then show ?thesis
    by (subst ddos_window_deadlock)
      (simp_all add: busy_protector_def NewDDOSProtector_def count_request_def blocked_at_def time_defs i64_def Let_def)
qed

text \<open>A refusal by the limiter blocks the caller's address for five minutes, whoever used up the
  tokens (the limiter is shared by all addresses): from then on, and until the five minutes are over,
  every call for that address is refused without touching the limiter or the counters, and \<^verbatim>\<open>IsBlocked\<close> says so.\<close>

theorem ddos_refusal_blocks:
  assumes "dd_mu d = rw_free" and "\<not> blocked_at t1 ip d" and "\<not> fst (rl_Allow t2 (dd_limiter d))"
  shows "\<exists>d'. ddos_Allow t1 t2 t3 t4 t5 ip d = Ret (False, d') \<and>
    (\<forall>u. u < t5 + 5 * Minute \<longrightarrow>
       ddos_Allow u u2 u3 u4 u5 ip d' = Ret (False, d') \<and> IsBlocked u ip d' = Ret (True, d'))"
proof -
  define d' where "d' = d\<lparr>dd_limiter := snd (rl_Allow t2 (dd_limiter d)), blockedIPs := (blockedIPs d)(ip \<mapsto> t5 + 5 * Minute)\<rparr>"
  have a: "ddos_Allow t1 t2 t3 t4 t5 ip d = Ret (False, d')"
    using assms by (simp add: ddos_Allow_cases d'_def)
  have f: "dd_mu d' = rw_free" using assms(1) by (simp add: d'_def)
  have nf: "d'\<lparr>dd_mu := rw_free\<rparr> = d'" using f by (cases d') simp
  have "blocked_at u ip d' \<and> IsBlocked u ip d' = Ret (True, d')" if "u < t5 + 5 * Minute" for u
  proof
    show "blocked_at u ip d'" using that by (simp add: blocked_at_def d'_def)
    have "blockedIPs d' ip = Some (t5 + 5 * Minute)" by (simp add: d'_def)
    then show "IsBlocked u ip d' = Ret (True, d')"
      using that f nf by (simp add: IsBlocked_def with_mu_free Let_def time_Before_def)
  qed
  then show ?thesis using a f by (intro exI [of _ d']) (simp add: ddos_Allow_cases)
qed

definition drained_protector :: DDOSProtector where
  "drained_protector = (NewDDOSProtector 0 100 1000 60)\<lparr>dd_limiter := (NewRateLimiter 0 100 1)\<lparr>tokens := 0\<rparr>\<rparr>"

theorem ddos_refusal_blocks_witness:
  "\<exists>d'. ddos_Allow 0 0 0 0 0 ''b'' drained_protector = Ret (False, d') \<and> IsBlocked Minute ''b'' d' = Ret (True, d')"
proof -
  have "dd_mu drained_protector = rw_free" "\<not> blocked_at 0 ''b'' drained_protector"
    by (simp_all add: drained_protector_def NewDDOSProtector_def blocked_at_def)
  moreover have "\<not> fst (rl_Allow 0 (dd_limiter drained_protector))"
    by (simp add: drained_protector_def NewRateLimiter_def rl_Allow_def rl_refill_fill Let_def fill_zero bucket_ok_def)
  ultimately obtain d' where "ddos_Allow 0 0 0 0 0 ''b'' drained_protector = Ret (False, d')"
      "\<forall>u. u < 0 + 5 * Minute \<longrightarrow> ddos_Allow u 0 0 0 0 ''b'' d' = Ret (False, d') \<and> IsBlocked u ''b'' d' = Ret (True, d')"
    using ddos_refusal_blocks by blast
  moreover have "Minute < 0 + 5 * Minute" by (simp add: time_defs)
  ultimately show ?thesis by blast
qed

end
