(* ===== verification/WB_Format.thy ===== *)
theory WB_Format
  imports WB_Float64
begin

text \<open>
  What the sources use of \<^verbatim>\<open>fmt\<close>: the verbs \<^verbatim>\<open>%d\<close> and \<^verbatim>\<open>%.2f\<close>, \<^verbatim>\<open>%.6f\<close>.
\<close>

text \<open>Decimal notation, as \<^verbatim>\<open>%d\<close> prints it.\<close>

function digits :: "nat \<Rightarrow> string" where
  "digits n = (if n < 10 then [char_of (48 + n)] else digits (n div 10) @ [char_of (48 + n mod 10)])"
  by auto
termination by (relation "measure id") auto

declare digits.simps [simp del]

definition fmt_d :: "int \<Rightarrow> string" where
  "fmt_d n = (if n < 0 then ''-'' @ digits (nat (- n)) else digits (nat n))"

definition is_decimal :: "char \<Rightarrow> bool" where
  "is_decimal c \<longleftrightarrow> 48 \<le> (of_char c :: nat) \<and> (of_char c :: nat) \<le> 57"

text \<open>\<^verbatim>\<open>%.pf\<close>: the exact value, rounded to the nearest multiple of \<open>10\<^sup>-\<^sup>p\<close>, ties to even.\<close>

definition zero_padded :: "nat \<Rightarrow> nat \<Rightarrow> string" where
  "zero_padded p n = replicate (p - length (digits n)) (CHR ''0'') @ digits n"

definition fmt_f :: "nat \<Rightarrow> rat \<Rightarrow> string" where
  "fmt_f p x =
     (let n = nat (round_even (\<bar>x\<bar> * 10 ^ p))
      in (if x < 0 then ''-'' else '''') @ digits (n div 10 ^ p) @ ''.'' @ zero_padded p (n mod 10 ^ p))"

lemma digits_nonempty [simp]: "digits n \<noteq> []"
  by (subst digits.simps) simp

lemma fmt_d_nonempty [simp]: "fmt_d n \<noteq> []"
  by (simp add: fmt_d_def)

lemma is_decimal_digit: "(d :: nat) < 10 \<Longrightarrow> is_decimal (char_of (48 + d))"
  by (simp add: is_decimal_def)

lemma digits_decimal: "c \<in> set (digits n) \<Longrightarrow> is_decimal c"
proof (induction n rule: digits.induct)
  case (1 n)
  then show ?case using is_decimal_digit [of n] is_decimal_digit [of "n mod 10"]
    by (subst (asm) (2) digits.simps) (auto split: if_split_asm)
qed

lemma digits_lead: "0 < n \<Longrightarrow> digits n ! 0 \<noteq> CHR ''0''"
proof (induction n rule: digits.induct)
  case (1 n)
  show ?case
  proof (cases "n < 10")
    case True
    have "(of_char (char_of (48 + n) :: char) :: nat) \<noteq> of_char (CHR ''0'')" using True 1 by simp
    then have "char_of (48 + n) \<noteq> CHR ''0''" by metis
    then show ?thesis using True by (subst digits.simps) simp
  next
    case False
    then have "0 < n div 10" by simp
    with 1 False show ?thesis by (subst digits.simps) (simp add: nth_append)
  qed
qed

lemma digits_0: "digits 0 = ''0''"
  by code_simp

text \<open>Printed numbers consist of digits, signs and points.\<close>

definition numeric :: "char \<Rightarrow> bool" where
  "numeric c \<longleftrightarrow> is_decimal c \<or> c = CHR ''-'' \<or> c = CHR ''.''"

lemma fmt_d_numeric: "c \<in> set (fmt_d n) \<Longrightarrow> numeric c"
  by (auto simp: fmt_d_def numeric_def dest: digits_decimal split: if_split_asm)

lemma fmt_f_numeric: "c \<in> set (fmt_f p x) \<Longrightarrow> numeric c"
  by (auto simp: fmt_f_def zero_padded_def numeric_def is_decimal_def Let_def
      dest!: digits_decimal [unfolded is_decimal_def] split: if_split_asm)

lemma fmt_f_nonempty [simp]: "fmt_f p x \<noteq> []"
  by (simp add: fmt_f_def Let_def)

lemma numeric_not_space: "numeric c \<Longrightarrow> c \<noteq> CHR '' '' \<and> c \<noteq> CHR 0x0A \<and> c \<noteq> CHR ''#''"
  by (auto simp: numeric_def is_decimal_def)

subsection \<open>Reading numbers\<close>

definition number_value :: "string \<Rightarrow> nat" where
  "number_value s = foldl (\<lambda>n c. n * 10 + (of_char c - 48)) 0 s"

definition decimal_value :: "string \<Rightarrow> rat" where
  "decimal_value s =
     (let neg = s \<noteq> [] \<and> hd s = CHR ''-''; s = (if neg then tl s else s);
          whole = takeWhile (\<lambda>c. c \<noteq> CHR ''.'') s; frac = tl (dropWhile (\<lambda>c. c \<noteq> CHR ''.'') s);
          x = of_nat (number_value whole) + of_nat (number_value frac) / 10 ^ length frac
      in if neg then - x else x)"

lemma number_value_digits: "number_value (digits n) = n"
proof (induction n rule: digits.induct)
  case (1 n)
  then show ?case by (subst digits.simps) (auto simp: number_value_def)
qed

lemma number_value_zeros: "number_value (replicate k (CHR ''0'') @ s) = number_value s"
  by (induction k) (simp_all add: number_value_def)

lemma length_digits: "n < 10 ^ p \<Longrightarrow> 0 < p \<Longrightarrow> length (digits n) \<le> p"
proof (induction n arbitrary: p rule: digits.induct)
  case (1 n)
  show ?case
  proof (cases "n < 10")
    case True
    then show ?thesis using 1(3) by (subst digits.simps) simp
  next
    case False
    then obtain q where q: "p = Suc q" "0 < q" using 1(2,3) by (cases p; cases "p - 1") auto
    then have "length (digits (n div 10)) \<le> q" using 1 False by (simp add: div_less_iff_less_mult mult.commute)
    then show ?thesis using False q by (subst digits.simps) simp
  qed
qed

lemma zero_padded_length: "n < 10 ^ p \<Longrightarrow> 0 < p \<Longrightarrow> length (zero_padded p n) = p"
  using length_digits [of n p] by (simp add: zero_padded_def)

lemma digits_no_point: "CHR ''.'' \<notin> set (digits n)" "hd (digits n) \<noteq> CHR ''-''"
  using digits_decimal [of "CHR ''.''" n] digits_decimal [of "hd (digits n)" n] by (auto simp: is_decimal_def)

lemma decimal_value_fmt_f:
  assumes "0 < p"
  shows "decimal_value (fmt_f p x) = (if x < 0 then - 1 else 1) * of_nat (nat (round_even (\<bar>x\<bar> * 10 ^ p))) / 10 ^ p"
proof -
  define n where "n = nat (round_even (\<bar>x\<bar> * 10 ^ p))"
  let ?b = "digits (n div 10 ^ p) @ ''.'' @ zero_padded p (n mod 10 ^ p)"
  have tw: "takeWhile (\<lambda>c. c \<noteq> CHR ''.'') ?b = digits (n div 10 ^ p)" "tl (dropWhile (\<lambda>c. c \<noteq> CHR ''.'') ?b) = zero_padded p (n mod 10 ^ p)"
    using digits_no_point by (auto simp: takeWhile_append dropWhile_append)
  have hd: "hd ?b \<noteq> CHR ''-''" using digits_no_point by simp
  have "of_nat (n div 10 ^ p) + of_nat (n mod 10 ^ p) / (10 :: rat) ^ p = of_nat n / 10 ^ p"
  proof -
    have "(of_nat n :: rat) = of_nat (n div 10 ^ p * 10 ^ p + n mod 10 ^ p)" by (simp only: div_mult_mod_eq)
    then have "(of_nat n :: rat) = of_nat (n div 10 ^ p) * 10 ^ p + of_nat (n mod 10 ^ p)"
      by (simp only: of_nat_add of_nat_mult of_nat_power of_nat_numeral)
    then show ?thesis by (simp add: add_divide_distrib)
  qed
  moreover have "number_value (zero_padded p (n mod 10 ^ p)) = n mod 10 ^ p" "length (zero_padded p (n mod 10 ^ p)) = p"
    using assms by (simp_all add: zero_padded_length) (simp add: zero_padded_def number_value_zeros number_value_digits)
  ultimately have v: "of_nat (number_value (digits (n div 10 ^ p))) + of_nat (number_value (zero_padded p (n mod 10 ^ p))) /
      10 ^ length (zero_padded p (n mod 10 ^ p)) = (of_nat n / 10 ^ p :: rat)"
    by (simp add: number_value_digits)
  have "fmt_f p x = (if x < 0 then CHR ''-'' # ?b else ?b)" by (simp add: fmt_f_def n_def Let_def)
  moreover have "decimal_value (CHR ''-'' # ?b) = - (of_nat n / 10 ^ p)" "decimal_value ?b = of_nat n / 10 ^ p"
    using hd tw v by (simp_all add: decimal_value_def Let_def)
  ultimately show ?thesis unfolding n_def [symmetric] by (cases "x < 0") simp_all
qed

text \<open>A printed number is within half a unit of its last digit.\<close>

lemma round_even_near: "\<bar>of_int (round_even r) - r\<bar> \<le> 1 / 2"
  unfolding round_even_def Let_def using floor_correct [of r] by (auto simp: abs_le_iff)

lemma fmt_f_near:
  assumes "0 < p"
  shows "\<bar>decimal_value (fmt_f p x) - x\<bar> \<le> 1 / (2 * 10 ^ p)"
proof -
  let ?r = "round_even (\<bar>x\<bar> * 10 ^ p)"
  have r: "0 \<le> ?r" by (rule round_even_ge) simp
  have "\<bar>of_int ?r / 10 ^ p - \<bar>x\<bar>\<bar> * 10 ^ p \<le> 1 / 2"
    using round_even_near [of "\<bar>x\<bar> * 10 ^ p"] by (simp add: abs_mult_pos left_diff_distrib)
  then have "\<bar>of_int ?r / 10 ^ p - \<bar>x\<bar>\<bar> \<le> 1 / (2 * 10 ^ p)" by (simp add: field_simps)
  moreover have "\<bar>decimal_value (fmt_f p x) - x\<bar> = \<bar>of_int ?r / 10 ^ p - \<bar>x\<bar>\<bar>"
    using r unfolding decimal_value_fmt_f [OF assms] by (cases "x < 0") (simp_all add: abs_minus_commute)
  ultimately show ?thesis by simp
qed

end
