(* ===== verification/WB_Config.thy ===== *)
theory WB_Config
  imports WB_Format
begin

text \<open>
  \<^verbatim>\<open>config.go\<close>: the server configuration, its loading from YAML and the manager that reloads it.
  \<^verbatim>\<open>yaml.Unmarshal\<close> is a third-party package: its result, a \<^verbatim>\<open>YAMLConfig\<close> or an error, is an
  argument, and so are the results of \<^verbatim>\<open>os.ReadFile\<close> and \<^verbatim>\<open>os.Stat\<close>.
\<close>

record ServerConfig =
  QUICAddr :: string
  TCPAddr :: string
  MaxStreams :: int
  MaxFrameSize :: int
  TLSConfig :: any_tls

definition ServerConfig_Validate :: "ServerConfig \<Rightarrow> error option \<times> ServerConfig" where
  "ServerConfig_Validate c =
     (let c = (if QUICAddr c = '''' then c\<lparr>QUICAddr := ''0.0.0.0:8443''\<rparr> else c);
          c = (if TCPAddr c = '''' then c\<lparr>TCPAddr := ''0.0.0.0:8444''\<rparr> else c);
          c = (if MaxStreams c = 0 then c\<lparr>MaxStreams := 100\<rparr> else c);
          c = (if MaxFrameSize c = 0 then c\<lparr>MaxFrameSize := 65536\<rparr> else c)
      in (None, c))"

definition DefaultServerConfig :: ServerConfig where
  "DefaultServerConfig =
     \<lparr>QUICAddr = ''0.0.0.0:8443'', TCPAddr = ''0.0.0.0:8444'', MaxStreams = 100, MaxFrameSize = 65536,
      TLSConfig = Any_nil\<rparr>"

text \<open>The sections of the file; only QUIC, TCP and the frame limit are read by the code.\<close>

record YAMLConfig =
  Server_Host :: string
  Server_Port :: int
  QUIC_Enabled :: bool
  QUIC_Host :: string
  QUIC_Port :: int
  TCP_Enabled :: bool
  TCP_Host :: string
  TCP_Port :: int
  Limits_MaxConnections :: int
  Limits_MaxFrameSize :: int
  Limits_RateLimitPerIP :: int
  Keepalive_Interval :: int
  Keepalive_Timeout :: int
  Compress_Enabled :: bool
  Compress_Level :: int
  Crypto_Enabled :: bool
  Crypto_Algorithm :: string
  Metrics_Enabled :: bool
  Metrics_Port :: int
  Logging_Level :: string
  Logging_JSON :: bool
  Health_Enabled :: bool
  Health_Port :: int
  Health_ReadinessPath :: string
  Health_LivenessPath :: string
  Debug_Enabled :: bool
  Debug_Port :: int

text \<open>The value of \<^verbatim>\<open>yamlCfg\<close> before it is filled in.\<close>

definition zero_yaml :: YAMLConfig where
  "zero_yaml =
     \<lparr>Server_Host = '''', Server_Port = 0, QUIC_Enabled = False, QUIC_Host = '''', QUIC_Port = 0, TCP_Enabled = False,
      TCP_Host = '''', TCP_Port = 0, Limits_MaxConnections = 0, Limits_MaxFrameSize = 0, Limits_RateLimitPerIP = 0,
      Keepalive_Interval = 0, Keepalive_Timeout = 0, Compress_Enabled = False, Compress_Level = 0, Crypto_Enabled = False,
      Crypto_Algorithm = '''', Metrics_Enabled = False, Metrics_Port = 0, Logging_Level = '''', Logging_JSON = False,
      Health_Enabled = False, Health_Port = 0, Health_ReadinessPath = '''', Health_LivenessPath = '''',
      Debug_Enabled = False, Debug_Port = 0\<rparr>"

definition Sprintf_addr :: "string \<Rightarrow> int \<Rightarrow> string" where
  "Sprintf_addr host port = host @ '':'' @ fmt_d port"

definition LoadServerConfigFromYAML :: "error + bytes \<Rightarrow> (bytes \<Rightarrow> YAMLConfig \<Rightarrow> error + YAMLConfig) \<Rightarrow> error + ServerConfig" where
  "LoadServerConfigFromYAML file unmarshal =
     (case file of
        Inl err \<Rightarrow> Inl (''read config file: '' @ err)
      | Inr data \<Rightarrow>
          (case unmarshal data zero_yaml of
             Inl err \<Rightarrow> Inl (''parse config: '' @ err)
           | Inr y \<Rightarrow>
               (let cfg = \<lparr>QUICAddr = '''', TCPAddr = '''', MaxStreams = 0, MaxFrameSize = 0, TLSConfig = Any_nil\<rparr>;
                    cfg = cfg\<lparr>QUICAddr := Sprintf_addr (QUIC_Host y) (QUIC_Port y)\<rparr>;
                    cfg = (if QUICAddr cfg = '':'' then cfg\<lparr>QUICAddr := ''0.0.0.0:8443''\<rparr> else cfg);
                    cfg = cfg\<lparr>TCPAddr := Sprintf_addr (TCP_Host y) (TCP_Port y)\<rparr>;
                    cfg = (if TCPAddr cfg = '':'' then cfg\<lparr>TCPAddr := ''0.0.0.0:8444''\<rparr> else cfg);
                    cfg = cfg\<lparr>MaxFrameSize := Limits_MaxFrameSize y\<rparr>;
                    cfg = (if MaxFrameSize cfg = 0 then cfg\<lparr>MaxFrameSize := 65536\<rparr> else cfg)
                in Inr cfg)))"

subsection \<open>The manager\<close>

text \<open>
  \<open>onChange\<close> is a callback of the embedding program that runs while \<^verbatim>\<open>Update\<close> holds the mutex: whether it calls a
  method of the manager, all of which lock it, and otherwise what it returns.
\<close>

record change_callback =
  cb_calls_manager :: bool
  cb_result :: "ServerConfig \<Rightarrow> error option go"

record fsWatcher =
  watch_path :: string
  lastMod :: time
  watch_ticker :: duration

record ConfigManager =
  cm_config :: ServerConfig
  cm_watcher :: "fsWatcher option"
  cm_version :: int
  cm_onChange :: "change_callback option"

definition NewConfigManagerFromYAML :: "ServerConfig \<Rightarrow> ConfigManager" where
  "NewConfigManagerFromYAML cfg = \<lparr>cm_config = cfg, cm_watcher = None, cm_version = 1, cm_onChange = None\<rparr>"

definition cm_Get :: "ConfigManager \<Rightarrow> ServerConfig" where
  "cm_Get cm = cm_config cm"

definition cm_Update :: "ServerConfig option \<Rightarrow> ConfigManager \<Rightarrow> (error option \<times> ConfigManager) go" where
  "cm_Update newCfg cm =
     (let cm = (case newCfg of None \<Rightarrow> cm
                | Some c \<Rightarrow> cm\<lparr>cm_config := c, cm_version := i64 (cm_version cm + 1)\<rparr>)
      in case cm_onChange cm of
           None \<Rightarrow> Ret (None, cm)
         | Some f \<Rightarrow>
             if cb_calls_manager f then Blocked
             else go_bind (cb_result f (cm_config cm)) (\<lambda>err. Ret (err, cm)))"

definition cm_Watch :: "string \<Rightarrow> duration \<Rightarrow> ConfigManager \<Rightarrow> (error option \<times> ConfigManager) go" where
  "cm_Watch path interval cm =
     (let interval2 = (if interval = 0 then Second else interval)
      in if interval2 \<le> 0 then Panic ''non-positive interval for NewTicker''
         else Ret (None, cm\<lparr>cm_watcher := Some \<lparr>watch_path = path, lastMod = time_zero, watch_ticker = interval2\<rparr>\<rparr>))"

text \<open>A tick of the watcher: \<open>stat\<close> is the result of \<^verbatim>\<open>os.Stat\<close>, \<open>load\<close> that of loading the file.\<close>

definition reloadIfChanged :: "error + time \<Rightarrow> error + ServerConfig \<Rightarrow> ConfigManager \<Rightarrow> ConfigManager go" where
  "reloadIfChanged stat load cm =
     (case cm_watcher cm of
        None \<Rightarrow> Panic ''nil pointer dereference''
      | Some w \<Rightarrow>
          (case stat of
             Inl _ \<Rightarrow> Ret cm
           | Inr modTime \<Rightarrow>
               if time_After modTime (lastMod w)
               then (let cm = cm\<lparr>cm_watcher := Some (w\<lparr>lastMod := modTime\<rparr>)\<rparr>
                     in case load of
                          Inl _ \<Rightarrow> Ret cm
                        | Inr newCfg \<Rightarrow> go_bind (cm_Update (Some newCfg) cm) (\<lambda>(_, cm). Ret cm))
               else Ret cm))"

definition cm_OnChange :: "change_callback \<Rightarrow> ConfigManager \<Rightarrow> ConfigManager" where
  "cm_OnChange fn cm = cm\<lparr>cm_onChange := Some fn\<rparr>"

definition cm_Version :: "ConfigManager \<Rightarrow> int" where
  "cm_Version cm = cm_version cm"

subsection \<open>What loading guarantees\<close>

lemma Sprintf_addr_not_colon: "Sprintf_addr host port \<noteq> '':''"
proof
  assume "Sprintf_addr host port = '':''"
  then have "length (Sprintf_addr host port) = 1" by simp
  then have "length (fmt_d port) = 0" by (simp add: Sprintf_addr_def)
  then show False by simp
qed

text \<open>A configuration that loads has the addresses of the file, a non-zero frame limit, and the zero
  stream limit and no TLS configuration (they are never read from the file).  The default addresses are never used: a formatted
  address always has a digit, so the comparison with a bare colon fails, and a file without the two
  sections gives the address \<^verbatim>\<open>:0\<close>.  After \<^verbatim>\<open>Validate\<close> no field is empty or zero.\<close>

theorem loaded_config:
  assumes "LoadServerConfigFromYAML (Inr data) unmarshal = Inr cfg"
  shows "\<exists>y. unmarshal data zero_yaml = Inr y \<and>
    QUICAddr cfg = QUIC_Host y @ '':'' @ fmt_d (QUIC_Port y) \<and>
    TCPAddr cfg = TCP_Host y @ '':'' @ fmt_d (TCP_Port y) \<and>
    MaxFrameSize cfg = (if Limits_MaxFrameSize y = 0 then 65536 else Limits_MaxFrameSize y) \<and>
    MaxStreams cfg = 0 \<and> TLSConfig cfg = Any_nil \<and>
    snd (ServerConfig_Validate cfg) = cfg\<lparr>MaxStreams := 100\<rparr>"
proof -
  obtain y where y: "unmarshal data zero_yaml = Inr y"
    using assms by (auto simp: LoadServerConfigFromYAML_def split: sum.split_asm)
  have "cfg = \<lparr>QUICAddr = Sprintf_addr (QUIC_Host y) (QUIC_Port y), TCPAddr = Sprintf_addr (TCP_Host y) (TCP_Port y),
      MaxStreams = 0, MaxFrameSize = if Limits_MaxFrameSize y = 0 then 65536 else Limits_MaxFrameSize y,
      TLSConfig = Any_nil\<rparr>"
    using assms y by (simp add: LoadServerConfigFromYAML_def Sprintf_addr_not_colon Let_def split: if_split_asm)
  with y show ?thesis by (auto simp: Sprintf_addr_def ServerConfig_Validate_def Let_def)
qed

theorem loaded_config_witness:
  "\<exists>cfg. LoadServerConfigFromYAML (Inr []) (\<lambda>_ y. Inr (y\<lparr>TCP_Host := ''h'', TCP_Port := 8444\<rparr>)) = Inr cfg \<and>
     QUICAddr cfg = '':'' @ fmt_d 0 \<and> MaxStreams cfg = 0"
proof -
  let ?u = "\<lambda>(_ :: bytes) y. Inr (y\<lparr>TCP_Host := ''h'', TCP_Port := 8444\<rparr>) :: error + YAMLConfig"
  obtain cfg where c: "LoadServerConfigFromYAML (Inr []) ?u = Inr cfg"
    by (simp add: LoadServerConfigFromYAML_def Let_def split: if_split_asm)
  from loaded_config [OF c] c show ?thesis by (auto simp: zero_yaml_def)
qed

text \<open>A reload never installs a configuration older than one it has seen.\<close>

datatype watch_event = ETick "error + time" "error + ServerConfig" | EUpdateCfg "ServerConfig option"

fun watch_do :: "watch_event \<Rightarrow> ConfigManager \<Rightarrow> ConfigManager go" where
  "watch_do (ETick stat load) cm = reloadIfChanged stat load cm"
| "watch_do (EUpdateCfg c) cm = go_bind (cm_Update c cm) (\<lambda>(_, cm). Ret cm)"

fun watch_run :: "watch_event list \<Rightarrow> ConfigManager \<Rightarrow> ConfigManager go" where
  "watch_run [] cm = Ret cm"
| "watch_run (e # es) cm = go_bind (watch_do e cm) (watch_run es)"

text \<open>What was installed last: the last explicit update or the last load that went through.\<close>

fun installed :: "watch_event list \<Rightarrow> time \<Rightarrow> ServerConfig \<Rightarrow> nat \<Rightarrow> ServerConfig \<times> nat" where
  "installed [] m c n = (c, n)"
| "installed (EUpdateCfg None # es) m c n = installed es m c n"
| "installed (EUpdateCfg (Some d) # es) m c n = installed es m d (n + 1)"
| "installed (ETick (Inl _) _ # es) m c n = installed es m c n"
| "installed (ETick (Inr t) load # es) m c n =
     (if m < t then (case load of Inl _ \<Rightarrow> installed es t c n | Inr d \<Rightarrow> installed es t d (n + 1))
      else installed es m c n)"

lemma cm_Update_quiet:
  "cm_onChange cm = None \<Longrightarrow> cm_Update None cm = Ret (None, cm)"
  "cm_onChange cm = None \<Longrightarrow> cm_Update (Some c) cm = Ret (None, cm\<lparr>cm_config := c, cm_version := i64 (cm_version cm + 1)\<rparr>)"
  by (simp_all add: cm_Update_def Let_def)

lemma watch_run_installed:
  "cm_onChange cm = None \<Longrightarrow> cm_watcher cm = Some w \<Longrightarrow> cm_version cm = int n \<Longrightarrow> n + length es < 2 ^ 63 \<Longrightarrow>
     \<exists>cm'. watch_run es cm = Ret cm' \<and> (cm_config cm', cm_version cm') =
       (fst (installed es (lastMod w) (cm_config cm) n), int (snd (installed es (lastMod w) (cm_config cm) n)))"
proof (induction es arbitrary: cm w n)
  case (Cons e es)
  have i: "i64 (int n + 1) = int (n + 1)" using Cons.prems by (simp add: in_i64_def)
  show ?case
  proof (cases e)
    case (EUpdateCfg c)
    then show ?thesis
      using Cons.prems i Cons.IH [of cm w n]
        Cons.IH [of "cm\<lparr>cm_config := the c, cm_version := int (n + 1)\<rparr>" w "n + 1"]
      by (cases c) (simp_all add: cm_Update_quiet)
  next
    case (ETick stat load)
    let ?w = "\<lambda>t. w\<lparr>lastMod := t\<rparr>"
    show ?thesis
    proof (cases stat)
      case (Inl err)
      then show ?thesis using ETick Cons.prems Cons.IH [of cm w n] by (simp add: reloadIfChanged_def)
    next
      case (Inr t)
      then show ?thesis
        using ETick Cons.prems i Cons.IH [of cm w n]
          Cons.IH [of "cm\<lparr>cm_watcher := Some (?w t)\<rparr>" "?w t" n]
          Cons.IH [of "cm\<lparr>cm_watcher := Some (?w t), cm_config := projr load, cm_version := int (n + 1)\<rparr>" "?w t" "n + 1"]
        by (cases load) (simp_all add: reloadIfChanged_def time_defs cm_Update_quiet)
    qed
  qed
qed simp

text \<open>After \<^verbatim>\<open>Watch\<close> with an interval that is not negative, and without a callback, the manager never panics or
  blocks, and over every sequence of ticks and updates its configuration is the last one installed: an explicit
  update, or a load after a modification newer than any seen before; a file that cannot be read or parsed
  leaves the configuration in place.  The version counts the installations.\<close>

theorem config_reload:
  assumes "length es < 2 ^ 63 - 1" and "0 \<le> interval"
  shows "\<exists>cm0 cm. cm_Watch path interval (NewConfigManagerFromYAML cfg) = Ret (None, cm0) \<and> watch_run es cm0 = Ret cm \<and>
    cm_Get cm = fst (installed es time_zero cfg 1) \<and> cm_Version cm = int (snd (installed es time_zero cfg 1))"
proof -
  let ?w = "\<lparr>watch_path = path, lastMod = time_zero, watch_ticker = if interval = 0 then Second else interval\<rparr>"
  let ?cm = "(NewConfigManagerFromYAML cfg)\<lparr>cm_watcher := Some ?w\<rparr>"
  have "cm_Watch path interval (NewConfigManagerFromYAML cfg) = Ret (None, ?cm)"
    using assms(2) by (auto simp: cm_Watch_def time_defs Let_def)
  then show ?thesis using watch_run_installed [of ?cm ?w 1 es] assms(1)
    by (auto simp: NewConfigManagerFromYAML_def cm_Get_def cm_Version_def)
qed

theorem config_reload_witness:
  "\<exists>cm0 cm. cm_Watch ''f'' 0 (NewConfigManagerFromYAML (DefaultServerConfig\<lparr>MaxStreams := 7\<rparr>)) = Ret (None, cm0) \<and>
      watch_run [ETick (Inr 5) (Inl ''bad''), ETick (Inr 5) (Inr DefaultServerConfig), ETick (Inr 7) (Inr DefaultServerConfig)] cm0 = Ret cm \<and>
      cm_Get cm = DefaultServerConfig \<and> cm_Version cm = 2"
  using config_reload [of "[ETick (Inr 5) (Inl ''bad''), ETick (Inr 5) (Inr DefaultServerConfig), ETick (Inr 7) (Inr DefaultServerConfig)]"
      0 "''f''" "DefaultServerConfig\<lparr>MaxStreams := 7\<rparr>"]
  by (simp add: time_defs)

text \<open>
  A callback that asks the manager for its configuration or version blocks for ever, and so does the update
  or the tick of the watcher that called it.  A negative interval makes \<^verbatim>\<open>Watch\<close> panic.
\<close>

theorem config_callback_blocks:
  assumes "cb_calls_manager f"
  shows "cm_Update c (cm_OnChange f cm) = Blocked \<and>
    (cm_watcher cm = Some w \<and> lastMod w < t \<longrightarrow> reloadIfChanged (Inr t) (Inr newCfg) (cm_OnChange f cm) = Blocked) \<and>
    (interval < 0 \<longrightarrow> (\<exists>m. cm_Watch path interval cm = Panic m))"
  using assms by (cases c) (auto simp: cm_Update_def cm_OnChange_def reloadIfChanged_def cm_Watch_def time_defs Let_def)

theorem config_callback_blocks_witness:
  "cm_Update None (cm_OnChange \<lparr>cb_calls_manager = True, cb_result = (\<lambda>_. Ret None)\<rparr> (NewConfigManagerFromYAML DefaultServerConfig)) = Blocked"
  using config_callback_blocks [of "\<lparr>cb_calls_manager = True, cb_result = (\<lambda>_. Ret None)\<rparr>" None] by simp

end
