(* ===== verification/WB_Server.thy ===== *)
theory WB_Server
  imports WB_Protocol WB_RateLimit WB_Auth WB_Crypto WB_Compression WB_Pool WB_Config
begin

text \<open>
  \<^verbatim>\<open>server.go\<close>: sessions, the dispatch of frames, the handlers of TCP connections, QUIC streams and
  datagrams, and start and shutdown.  Sockets are not modelled: a connection is the list of the
  chunks that \<^verbatim>\<open>Read\<close> returns before it fails, and what a handler does is the list of the byte
  strings it passes to \<^verbatim>\<open>Write\<close>.  A handler runs without interleaving; the registry of sessions is
  only stored to and deleted from, so it is the set of its keys.
\<close>

subsection \<open>Data\<close>

record SessionStats =
  BytesSent :: u64
  BytesRecv :: u64
  FramesSent :: u64
  FramesRecv :: u64
  StreamsActive :: int
  ss_CreatedAt :: time

record Session =
  sess_ID :: string
  sess_streams :: "u32 \<rightharpoonup> bool"
  sess_queues_open :: bool
  sess_cancelled :: bool
  sess_stats :: SessionStats

text \<open>A listener is open until it is closed; the fields of the server are nil until the accept loops set them.\<close>

datatype listener = Listening | Closed

record Server =
  srv_quicListener :: "listener option"
  srv_tcpListener :: "listener option"
  srv_sessions :: "string set"
  srv_config :: "ServerConfig option"
  srv_crypto :: CryptoEngine
  srv_rateLimiter :: RateLimiter
  srv_connLimiter :: ConnectionRateLimiter
  srv_sessionManager :: SessionManager
  srv_bufferPool :: BufferPool
  srv_framePool :: FramePool
  srv_backPressure :: BackPressureMonitor
  srv_ddosProtector :: DDOSProtector
  srv_ipReputation :: IPReputationManager
  srv_shutdown :: bool
  srv_wg :: nat

text \<open>\<open>now1\<close> and \<open>now2\<close> are the clock readings in \<^verbatim>\<open>NewRateLimiter\<close> and \<^verbatim>\<open>NewDDOSProtector\<close>.\<close>

definition NewServer ::
    "error + CryptoEngine \<Rightarrow> time \<Rightarrow> time \<Rightarrow> ServerConfig option \<Rightarrow> error + Server" where
  "NewServer engine now1 now2 config =
     (case engine of
        Inl err \<Rightarrow> Inl err
      | Inr crypto \<Rightarrow>
          Inr \<lparr>srv_quicListener = None, srv_tcpListener = None, srv_sessions = {}, srv_config = config,
               srv_crypto = crypto, srv_rateLimiter = NewRateLimiter now1 1000 100,
               srv_connLimiter = NewConnectionRateLimiter 10,
               srv_sessionManager = NewSessionManager (30 * Minute),
               srv_bufferPool = NewBufferPool 8192, srv_framePool = NewFramePool,
               srv_backPressure = NewBackPressureMonitor (f64 (8 / 10)) (f64 (95 / 100)),
               srv_ddosProtector = NewDDOSProtector now2 100 1000 60,
               srv_ipReputation = NewIPReputationManager, srv_shutdown = False, srv_wg = 0\<rparr>)"

definition readIdleTimeout :: duration where
  "readIdleTimeout = 60 * Second"

definition ErrServerShuttingDown :: error where
  "ErrServerShuttingDown = ''server is shutting down''"

subsection \<open>Start and shutdown\<close>

text \<open>\<^verbatim>\<open>Start\<close> runs one goroutine for each configured listener and counts it in the wait group.\<close>

definition Start :: "Server \<Rightarrow> error option \<times> Server" where
  "Start s =
     (case srv_config s of
        None \<Rightarrow> (Some ''server config is nil'', s)
      | Some config \<Rightarrow>
          if QUICAddr config = '''' \<and> TCPAddr config = '''' then (Some ''no listeners configured'', s)
          else
            let s = (if QUICAddr config \<noteq> '''' then s\<lparr>srv_wg := srv_wg s + 1\<rparr> else s);
                s = (if TCPAddr config \<noteq> '''' then s\<lparr>srv_wg := srv_wg s + 1\<rparr> else s)
            in (None, s))"

text \<open>
  \<^verbatim>\<open>Shutdown\<close>: \<open>ctx_err\<close> is \<open>None\<close> when the wait group drains before the context ends, and the error
  of the context otherwise.
\<close>

definition close_listeners :: "Server \<Rightarrow> Server" where
  "close_listeners s =
     (let s = (case srv_tcpListener s of None \<Rightarrow> s | Some _ \<Rightarrow> s\<lparr>srv_tcpListener := Some Closed\<rparr>)
      in case srv_quicListener s of None \<Rightarrow> s | Some _ \<Rightarrow> s\<lparr>srv_quicListener := Some Closed\<rparr>)"

definition Shutdown :: "error option \<Rightarrow> Server \<Rightarrow> error option \<times> Server" where
  "Shutdown ctx_err s =
     (if srv_shutdown s then (None, s)
      else
        let s = s\<lparr>srv_shutdown := True\<rparr>;
            s = close_listeners s
        in (ctx_err, s))"

subsection \<open>Sessions\<close>

definition randomString :: "error + bytes \<Rightarrow> string \<Rightarrow> string" where
  "randomString r now_text =
     (case r of
        Inl _ \<Rightarrow> now_text
      | Inr b \<Rightarrow> map (\<lambda>x. ''abcdefghijklmnopqrstuvwxyz0123456789'' ! (unat x mod 36)) b)"

definition generateSessionID :: "string \<Rightarrow> error + bytes \<Rightarrow> string \<Rightarrow> string" where
  "generateSessionID date_text r now_text = date_text @ ''-'' @ randomString r now_text"

definition createSession :: "string \<Rightarrow> time \<Rightarrow> Server \<Rightarrow> Session \<times> Server" where
  "createSession sid now s =
     (let session = \<lparr>sess_ID = sid, sess_streams = Map.empty, sess_queues_open = True, sess_cancelled = False,
                     sess_stats = \<lparr>BytesSent = 0, BytesRecv = 0, FramesSent = 0, FramesRecv = 0,
                                   StreamsActive = 0, ss_CreatedAt = now\<rparr>\<rparr>
      in (session, s\<lparr>srv_sessions := insert sid (srv_sessions s)\<rparr>))"

definition closeSession :: "Session \<Rightarrow> Server \<Rightarrow> (Session \<times> Server) go" where
  "closeSession session s =
     (let session = session\<lparr>sess_cancelled := True\<rparr>;
          s = s\<lparr>srv_sessions := srv_sessions s - {sess_ID session}\<rparr>
      in if sess_queues_open session then Ret (session\<lparr>sess_queues_open := False\<rparr>, s)
         else Panic ''close of closed channel'')"

subsection \<open>Frames\<close>

text \<open>The dynamic type of the \<^verbatim>\<open>writer\<close> argument; the datagram handler passes \<^verbatim>\<open>nil\<close>.\<close>

datatype writer = Nil_writer | Conn_writer | Stream_writer

definition sendFrame :: "Session \<Rightarrow> Frame \<Rightarrow> writer \<Rightarrow> Session \<times> bytes list" where
  "sendFrame session frame w =
     (let data = Marshal frame;
          st = sess_stats session;
          st = st\<lparr>FramesSent := FramesSent st + 1, BytesSent := BytesSent st + of_nat (length data)\<rparr>
      in (session\<lparr>sess_stats := st\<rparr>,
          case w of Conn_writer \<Rightarrow> [data] | Stream_writer \<Rightarrow> [data] | Nil_writer \<Rightarrow> []))"

definition hello_text :: bytes where
  "hello_text = bytes_of_string ''WEBBOU/1 transport=tcp+tls''"

definition handleHelloFrame :: "Session \<Rightarrow> Frame \<Rightarrow> writer \<Rightarrow> Session \<times> bytes list" where
  "handleHelloFrame session frame w =
     (let response = NewFrame FrameHelloAck 0 hello_text in sendFrame session response w)"

definition handleDataFrame ::
    "CryptoEngine \<Rightarrow> codecs \<Rightarrow> Session \<Rightarrow> Frame \<Rightarrow> writer \<Rightarrow> Session \<times> bytes list" where
  "handleDataFrame ce cx session frame w =
     (case (if HasFlag frame FlagEncrypted then Decrypt ce (fPayload frame) else Inr (fPayload frame)) of
        Inl err \<Rightarrow> (session, [])
      | Inr payload \<Rightarrow>
          (case (if HasFlag frame FlagCompressed then Decompress cx payload else Inr payload) of
             Inl err \<Rightarrow> (session, [])
           | Inr payload \<Rightarrow>
               (let response = NewFrame FrameData (fStreamID frame) payload in sendFrame session response w)))"

definition handlePingFrame :: "Session \<Rightarrow> Frame \<Rightarrow> writer \<Rightarrow> Session \<times> bytes list" where
  "handlePingFrame session frame w =
     (let pong = NewFrame FramePong (fStreamID frame) (fPayload frame) in sendFrame session pong w)"

definition handleStreamOpen :: "Session \<Rightarrow> Frame \<Rightarrow> Session" where
  "handleStreamOpen session frame =
     session\<lparr>sess_streams := (sess_streams session)(fStreamID frame \<mapsto> True),
             sess_stats := (sess_stats session)\<lparr>StreamsActive := i64 (StreamsActive (sess_stats session) + 1)\<rparr>\<rparr>"

definition handleStreamClose :: "Session \<Rightarrow> Frame \<Rightarrow> Session" where
  "handleStreamClose session frame =
     session\<lparr>sess_streams := (sess_streams session)(fStreamID frame := None),
             sess_stats := (sess_stats session)\<lparr>StreamsActive := i64 (StreamsActive (sess_stats session) - 1)\<rparr>\<rparr>"

definition handleFrame ::
    "CryptoEngine \<Rightarrow> codecs \<Rightarrow> Session \<Rightarrow> Frame \<Rightarrow> writer \<Rightarrow> Session \<times> bytes list" where
  "handleFrame ce cx session frame w =
     (let st = sess_stats session;
          session = session\<lparr>sess_stats := st\<lparr>FramesRecv := FramesRecv st + 1,
                                             BytesRecv := BytesRecv st + of_nat (length (fPayload frame))\<rparr>\<rparr>
      in if fType frame = FrameHello then handleHelloFrame session frame w
         else if fType frame = FrameData then handleDataFrame ce cx session frame w
         else if fType frame = FramePing then handlePingFrame session frame w
         else if fType frame = FrameStreamOpen then (handleStreamOpen session frame, [])
         else if fType frame = FrameStreamClose then (handleStreamClose session frame, [])
         else (session, []))"

subsection \<open>Connections\<close>

text \<open>
  The inner loop of a TCP connection.  \<open>clk k\<close> holds the clock readings that the limiter takes for
  the \<open>k\<close>-th frame of the connection.  The last component is the outcome of the loop: \<open>None\<close> when
  the reader needs more data, otherwise the error, panic or block that ends the handler.
\<close>

type_synonym clock = "nat \<Rightarrow> time \<times> time \<times> time"

function tcp_inner ::
    "clock \<Rightarrow> CryptoEngine \<Rightarrow> codecs \<Rightarrow> string \<Rightarrow> nat \<Rightarrow> FrameReader \<Rightarrow> RateLimiter \<Rightarrow> Session \<Rightarrow>
     bytes list \<times> nat \<times> FrameReader \<times> RateLimiter \<times> Session \<times> error go option" where
  "tcp_inner clk ce cx ip k reader rl session =
     (case ReadFrame reader of
        Ret (Inl err, reader') \<Rightarrow> ([], k, reader', rl, session, Some (Ret err))
      | Ret (Inr None, reader') \<Rightarrow> ([], k, reader', rl, session, None)
      | Ret (Inr (Some frame), reader') \<Rightarrow>
          (case rl_AllowIP (fst (clk k)) (fst (snd (clk k))) (snd (snd (clk k))) ip rl of
             (False, rl') \<Rightarrow> tcp_inner clk ce cx ip (Suc k) reader' rl' session
           | (True, rl') \<Rightarrow>
               (case handleFrame ce cx session frame Conn_writer of
                  (session', out) \<Rightarrow>
                    (case tcp_inner clk ce cx ip (Suc k) reader' rl' session' of
                       (out', rest) \<Rightarrow> (out @ out', rest))))
      | Panic m \<Rightarrow> ([], k, reader, rl, session, Some (Panic m))
      | Blocked \<Rightarrow> ([], k, reader, rl, session, Some Blocked))"
  by pat_completeness auto

termination tcp_inner
  by (relation "measure (\<lambda>(clk, ce, cx, ip, k, reader, rl, session). length (fr_buffer reader))")
     (auto dest!: ReadFrame_consumes simp: HeaderSize_def)

declare tcp_inner.simps [simp del]

fun tcp_outer ::
    "clock \<Rightarrow> CryptoEngine \<Rightarrow> codecs \<Rightarrow> string \<Rightarrow> nat \<Rightarrow> FrameReader \<Rightarrow> RateLimiter \<Rightarrow> Session \<Rightarrow> bytes list \<Rightarrow>
     bytes list \<times> nat \<times> FrameReader \<times> RateLimiter \<times> Session \<times> error go option" where
  "tcp_outer clk ce cx ip k reader rl session [] = ([], k, reader, rl, session, None)"
| "tcp_outer clk ce cx ip k reader rl session (chunk # chunks) =
     (case tcp_inner clk ce cx ip k (Feed reader chunk) rl session of
        (out, k', reader', rl', session', Some e) \<Rightarrow> (out, k', reader', rl', session', Some e)
      | (out, k', reader', rl', session', None) \<Rightarrow>
          (case tcp_outer clk ce cx ip k' reader' rl' session' chunks of (out', rest) \<Rightarrow> (out @ out', rest)))"

text \<open>
  The whole handler, with its deferred calls in the order in which Go runs them.  \<open>sid\<close> and \<open>now\<close> are
  the identifier and the time of the new session, \<open>choice\<close> the buffer that the pool hands out; the
  buffer's contents are overwritten by \<^verbatim>\<open>Read\<close> and enter through \<open>chunks\<close>.  The result holds the data
  passed to \<^verbatim>\<open>Write\<close> and whether \<^verbatim>\<open>conn.Close\<close> was called, which happens to a refused connection only.
  This is the run in which every \<^verbatim>\<open>Read\<close> and \<^verbatim>\<open>Write\<close> returns; a \<^verbatim>\<open>Write\<close> that blocks is a program point of
  \<open>tcp_go\<close> in \<open>WB_Goroutines\<close>.
\<close>

definition handleTCPConnection ::
    "string \<Rightarrow> time \<Rightarrow> clock \<Rightarrow> nat option \<Rightarrow> codecs \<Rightarrow> string \<Rightarrow> bytes list \<Rightarrow> Server \<Rightarrow>
     (bytes list \<times> bool \<times> Session option \<times> Server) go" where
  "handleTCPConnection sid now clk choice cx remoteIP chunks s =
     (case AllowConnection remoteIP (srv_connLimiter s) of
        (False, crl) \<Rightarrow> Ret ([], True, None, s\<lparr>srv_connLimiter := crl\<rparr>)
      | (True, crl) \<Rightarrow>
          (case createSession sid now (s\<lparr>srv_connLimiter := crl\<rparr>) of
             (session, s) \<Rightarrow>
               (case srv_config s of
                  None \<Rightarrow> Panic ''nil pointer dereference''
                | Some config \<Rightarrow>
                    (let reader = NewFrameReader (MaxFrameSize config);
                         (buf, bp) = bp_Get choice (srv_bufferPool s);
                         s = s\<lparr>srv_bufferPool := bp\<rparr>;
                         (out, k, reader', rl, session, stop) =
                           tcp_outer clk (srv_crypto s) cx remoteIP 0 reader (srv_rateLimiter s) session chunks;
                         s = s\<lparr>srv_rateLimiter := rl\<rparr>
                     in case stop of
                          Some (Panic m) \<Rightarrow> Panic m
                        | Some Blocked \<Rightarrow> Blocked
                        | _ \<Rightarrow>
                            (let s = s\<lparr>srv_bufferPool := bp_Put buf (srv_bufferPool s)\<rparr>
                             in go_bind (closeSession session s) (\<lambda>(session, s).
                                  Ret (out, False, Some session,
                                       s\<lparr>srv_connLimiter := ReleaseConnection remoteIP (srv_connLimiter s)\<rparr>)))))))"

text \<open>A QUIC stream: the same loops without the limiter, and the deferred \<^verbatim>\<open>stream.Close\<close> on every return.\<close>

function stream_inner ::
    "CryptoEngine \<Rightarrow> codecs \<Rightarrow> FrameReader \<Rightarrow> Session \<Rightarrow> bytes list \<times> FrameReader \<times> Session \<times> error go option" where
  "stream_inner ce cx reader session =
     (case ReadFrame reader of
        Ret (Inl err, reader') \<Rightarrow> ([], reader', session, Some (Ret err))
      | Ret (Inr None, reader') \<Rightarrow> ([], reader', session, None)
      | Ret (Inr (Some frame), reader') \<Rightarrow>
          (case handleFrame ce cx session frame Stream_writer of
             (session', out) \<Rightarrow>
               (case stream_inner ce cx reader' session' of (out', rest) \<Rightarrow> (out @ out', rest)))
      | Panic m \<Rightarrow> ([], reader, session, Some (Panic m))
      | Blocked \<Rightarrow> ([], reader, session, Some Blocked))"
  by pat_completeness auto

termination stream_inner
  by (relation "measure (\<lambda>(ce, cx, reader, session). length (fr_buffer reader))")
     (auto dest!: ReadFrame_consumes simp: HeaderSize_def)

declare stream_inner.simps [simp del]

fun stream_outer ::
    "CryptoEngine \<Rightarrow> codecs \<Rightarrow> FrameReader \<Rightarrow> Session \<Rightarrow> bytes list \<Rightarrow>
     bytes list \<times> FrameReader \<times> Session \<times> error go option" where
  "stream_outer ce cx reader session [] = ([], reader, session, None)"
| "stream_outer ce cx reader session (chunk # chunks) =
     (case stream_inner ce cx (Feed reader chunk) session of
        (out, reader', session', Some e) \<Rightarrow> (out, reader', session', Some e)
      | (out, reader', session', None) \<Rightarrow>
          (case stream_outer ce cx reader' session' chunks of (out', rest) \<Rightarrow> (out @ out', rest)))"

definition handleStream ::
    "codecs \<Rightarrow> Session \<Rightarrow> bytes list \<Rightarrow> Server \<Rightarrow> (bytes list \<times> bool \<times> Session) go" where
  "handleStream cx session chunks s =
     (case srv_config s of
        None \<Rightarrow> Panic ''nil pointer dereference''
      | Some config \<Rightarrow>
          (case stream_outer (srv_crypto s) cx (NewFrameReader (MaxFrameSize config)) session chunks of
             (out, reader', session', stop) \<Rightarrow>
               (case stop of
                  Some (Panic m) \<Rightarrow> Panic m
                | Some Blocked \<Rightarrow> Blocked
                | _ \<Rightarrow> Ret (out, True, session'))))"

definition handleDatagram :: "codecs \<Rightarrow> Session \<Rightarrow> bytes \<Rightarrow> Server \<Rightarrow> (bytes list \<times> Session) go" where
  "handleDatagram cx session data s =
     go_bind (UnmarshalFrame data) (\<lambda>r.
       case r of
         Inl err \<Rightarrow> Ret ([], session)
       | Inr frame \<Rightarrow>
           (case handleFrame (srv_crypto s) cx session frame Nil_writer of (session', out) \<Rightarrow> Ret (out, session')))"

text \<open>The datagram loop of a QUIC connection; its streams run in goroutines of their own.\<close>

fun datagram_loop :: "codecs \<Rightarrow> Session \<Rightarrow> bytes list \<Rightarrow> Server \<Rightarrow> (bytes list \<times> Session) go" where
  "datagram_loop cx session [] s = Ret ([], session)"
| "datagram_loop cx session (d # ds) s =
     go_bind (handleDatagram cx session d s) (\<lambda>(out, session).
       go_bind (datagram_loop cx session ds s) (\<lambda>(out', session). Ret (out @ out', session)))"

definition handleQUICConnection ::
    "string \<Rightarrow> time \<Rightarrow> codecs \<Rightarrow> bytes list \<Rightarrow> Server \<Rightarrow> (bytes list \<times> Session \<times> Server) go" where
  "handleQUICConnection sid now cx datagrams s =
     (case createSession sid now s of
        (session, s) \<Rightarrow>
          go_bind (datagram_loop cx session datagrams s) (\<lambda>(out, session).
            go_bind (closeSession session s) (\<lambda>(session, s). Ret (out, session, s))))"

end
