(* ===== verification/WB_Connections.thy ===== *)
theory WB_Connections
  imports WB_Server
begin

text \<open>
  What the connection handlers of \<^verbatim>\<open>server.go\<close> guarantee, across the protocol, the limiters, the
  crypto engine and the codecs.  The loops of the handlers are first separated into reading frames
  and handling them; the theorems then follow from the components' lemmas.
\<close>

subsection \<open>Handling a list of frames\<close>

fun handle_frames ::
    "clock \<Rightarrow> CryptoEngine \<Rightarrow> codecs \<Rightarrow> string \<Rightarrow> nat \<Rightarrow> Frame list \<Rightarrow> RateLimiter \<Rightarrow> Session \<Rightarrow>
     bytes list \<times> nat \<times> RateLimiter \<times> Session" where
  "handle_frames clk ce cx ip k [] rl session = ([], k, rl, session)"
| "handle_frames clk ce cx ip k (f # fs) rl session =
     (case rl_AllowIP (fst (clk k)) (fst (snd (clk k))) (snd (snd (clk k))) ip rl of
        (False, rl') \<Rightarrow> handle_frames clk ce cx ip (Suc k) fs rl' session
      | (True, rl') \<Rightarrow>
          (case handleFrame ce cx session f Conn_writer of
             (session', out) \<Rightarrow>
               (case handle_frames clk ce cx ip (Suc k) fs rl' session' of (out', rest) \<Rightarrow> (out @ out', rest))))"

lemma handle_frames_append:
  "handle_frames clk ce cx ip k (fs @ gs) rl session =
     (case handle_frames clk ce cx ip k fs rl session of
        (out, k', rl', session') \<Rightarrow>
          (case handle_frames clk ce cx ip k' gs rl' session' of (out', rest) \<Rightarrow> (out @ out', rest)))"
  by (induction fs arbitrary: k rl session) (auto split: prod.split bool.split)

lemma tcp_inner_frames:
  "tcp_inner clk ce cx ip k reader rl session =
     (case read_loop reader of
        (fs, reader', e) \<Rightarrow>
          (case handle_frames clk ce cx ip k fs rl session of
             (out, k', rl', session') \<Rightarrow> (out, k', reader', rl', session', e)))"
proof (induction reader arbitrary: k rl session rule: read_loop.induct)
  case (1 reader)
  show ?case
  proof (cases "ReadFrame reader")
    case (Ret r)
    obtain a reader' where r: "r = (a, reader')" by (cases r)
    show ?thesis
    proof (cases a)
      case (Inr b)
      show ?thesis
      proof (cases b)
        case (Some f)
        show ?thesis
          using "1.IH" [OF Ret r [symmetric] Inr Some] Ret r Inr Some
          by (auto simp: tcp_inner.simps [of clk ce cx ip k reader] read_loop.simps [of reader]
              split: prod.split bool.split)
      qed (use Ret r Inr in \<open>simp add: tcp_inner.simps [of clk ce cx ip k reader] read_loop.simps [of reader]\<close>)
    qed (use Ret r in \<open>simp add: tcp_inner.simps [of clk ce cx ip k reader] read_loop.simps [of reader]\<close>)
  qed (simp_all add: tcp_inner.simps [of clk ce cx ip k reader] read_loop.simps [of reader])
qed

lemma tcp_outer_frames:
  "tcp_outer clk ce cx ip k reader rl session chunks =
     (case feed_read reader chunks of
        (fs, reader', e) \<Rightarrow>
          (case handle_frames clk ce cx ip k fs rl session of
             (out, k', rl', session') \<Rightarrow> (out, k', reader', rl', session', e)))"
proof (induction chunks arbitrary: k reader rl session)
  case (Cons c cs)
  obtain fs reader' e where r: "read_loop (Feed reader c) = (fs, reader', e)" by (metis prod_cases3)
  obtain out k' rl' session' where h: "handle_frames clk ce cx ip k fs rl session = (out, k', rl', session')"
    by (metis prod_cases4)
  show ?case
    using Cons.IH [of k' reader' rl' session'] r h
    by (cases e) (auto simp: tcp_inner_frames handle_frames_append split: prod.split)
qed simp

subsection \<open>Requests and responses\<close>

text \<open>The payload of a data frame after decryption and decompression, where the flags ask for it.\<close>

definition decoded :: "CryptoEngine \<Rightarrow> codecs \<Rightarrow> Frame \<Rightarrow> bytes option" where
  "decoded ce cx f =
     (case (if HasFlag f FlagEncrypted then Decrypt ce (fPayload f) else Inr (fPayload f)) of
        Inl _ \<Rightarrow> None
      | Inr p \<Rightarrow> (case (if HasFlag f FlagCompressed then Decompress cx p else Inr p) of
                    Inl _ \<Rightarrow> None | Inr q \<Rightarrow> Some q))"

definition response :: "CryptoEngine \<Rightarrow> codecs \<Rightarrow> Frame \<Rightarrow> Frame option" where
  "response ce cx f =
     (if fType f = FrameHello then Some (NewFrame FrameHelloAck 0 hello_text)
      else if fType f = FrameData then
        (case decoded ce cx f of None \<Rightarrow> None | Some p \<Rightarrow> Some (NewFrame FrameData (fStreamID f) p))
      else if fType f = FramePing then Some (NewFrame FramePong (fStreamID f) (fPayload f))
      else None)"

lemma handleFrame_out:
  "snd (handleFrame ce cx session f w) =
     (case response ce cx f of None \<Rightarrow> [] | Some r \<Rightarrow> if w = Nil_writer then [] else [Marshal r])"
  by (cases w)
    (auto simp: handleFrame_def handleHelloFrame_def handleDataFrame_def handlePingFrame_def sendFrame_def
      response_def decoded_def frame_type_defs Let_def split: sum.split option.split)

lemma response_valid: "response ce cx f = Some r \<Longrightarrow> Validate r = None"
  by (auto simp: response_def split: if_split_asm option.split_asm)

text \<open>The frames the limiter lets through.\<close>

fun admitted :: "clock \<Rightarrow> string \<Rightarrow> nat \<Rightarrow> RateLimiter \<Rightarrow> Frame list \<Rightarrow> Frame list" where
  "admitted clk ip k rl [] = []"
| "admitted clk ip k rl (f # fs) =
     (case rl_AllowIP (fst (clk k)) (fst (snd (clk k))) (snd (snd (clk k))) ip rl of
        (b, rl') \<Rightarrow> (if b then [f] else []) @ admitted clk ip (Suc k) rl' fs)"

definition responses :: "CryptoEngine \<Rightarrow> codecs \<Rightarrow> Frame list \<Rightarrow> Frame list" where
  "responses ce cx fs = concat (map (\<lambda>f. case response ce cx f of None \<Rightarrow> [] | Some r \<Rightarrow> [r]) fs)"

lemma handle_frames_out:
  "fst (handle_frames clk ce cx ip k fs rl session) = map Marshal (responses ce cx (admitted clk ip k rl fs))"
proof (induction fs arbitrary: k rl session)
  case (Cons f fs)
  have o: "snd (handleFrame ce cx session f Conn_writer) =
      map Marshal (case response ce cx f of None \<Rightarrow> [] | Some r \<Rightarrow> [r])" for session
    by (simp add: handleFrame_out split: option.split)
  from Cons o [of session] show ?case
    by (auto simp: responses_def split: prod.split bool.split) (metis fst_conv snd_conv)+
qed (simp add: responses_def)

subsection \<open>The whole handler\<close>

lemma closeSession_once:
  "sess_queues_open session \<Longrightarrow> closeSession session s =
     Ret (session\<lparr>sess_cancelled := True, sess_queues_open := False\<rparr>, s\<lparr>srv_sessions := srv_sessions s - {sess_ID session}\<rparr>)"
  by (simp add: closeSession_def Let_def)

lemma handleFrame_session:
  "sess_ID (fst (handleFrame ce cx session f w)) = sess_ID session"
  "sess_queues_open (fst (handleFrame ce cx session f w)) = sess_queues_open session"
  by (auto simp: handleFrame_def handleHelloFrame_def handleDataFrame_def handlePingFrame_def sendFrame_def
      handleStreamOpen_def handleStreamClose_def Let_def split: sum.split)

lemma handle_frames_session:
  "handle_frames clk ce cx ip k fs rl session = (out, k', rl', session') \<Longrightarrow>
     sess_ID session' = sess_ID session \<and> sess_queues_open session' = sess_queues_open session"
proof (induction fs arbitrary: k rl session out)
  case (Cons f fs)
  then show ?case
    using handleFrame_session [of ce cx session f Conn_writer]
    by (auto split: prod.split_asm bool.split_asm)
qed simp

text \<open>
  The handler on an accepted connection whose reader ends with \<open>e\<close>, an ordinary end or an error of
  the peer: what it writes, and what is left of it in the server.
\<close>

lemma handleTCPConnection_accepted:
  assumes "AllowConnection ip (srv_connLimiter s) = (True, crl)" and "srv_config s = Some config"
    and "feed_read (NewFrameReader (MaxFrameSize config)) chunks = (fs, reader', e)"
    and "e = None \<or> (\<exists>err. e = Some (Ret err))"
  shows "\<exists>session' bp rl. handleTCPConnection sid now clk choice cx ip chunks s =
    Ret (map Marshal (responses (srv_crypto s) cx (admitted clk ip 0 (srv_rateLimiter s) fs)), False, Some session',
         s\<lparr>srv_connLimiter := ReleaseConnection ip crl, srv_sessions := srv_sessions s - {sid},
           srv_bufferPool := bp, srv_rateLimiter := rl\<rparr>) \<and>
    session' = (snd (snd (snd (handle_frames clk (srv_crypto s) cx ip 0 fs (srv_rateLimiter s)
      (fst (createSession sid now s))))))\<lparr>sess_cancelled := True, sess_queues_open := False\<rparr>"
proof -
  define s0 where "s0 = fst (createSession sid now s)"
  have s0: "fst (createSession sid now t) = s0" for t by (simp add: s0_def createSession_def Let_def)
  obtain out k rl session where h:
    "handle_frames clk (srv_crypto s) cx ip 0 fs (srv_rateLimiter s) s0 = (out, k, rl, session)"
    by (metis prod_cases4)
  have out: "out = map Marshal (responses (srv_crypto s) cx (admitted clk ip 0 (srv_rateLimiter s) fs))"
    using handle_frames_out [of clk "srv_crypto s" cx ip 0 fs "srv_rateLimiter s" s0] h by simp
  have open': "sess_queues_open session" "sess_ID session = sid"
    using handle_frames_session [OF h] by (simp_all add: s0_def createSession_def Let_def)
  obtain buf bp where g: "bp_Get choice (srv_bufferPool s) = (buf, bp)" by (metis surj_pair)
  have c: "createSession sid now (s\<lparr>srv_connLimiter := crl\<rparr>) =
      (s0, s\<lparr>srv_connLimiter := crl, srv_sessions := insert sid (srv_sessions s)\<rparr>)"
    by (simp add: s0_def createSession_def Let_def)
  show ?thesis
    using assms h out open' g c
    by (intro exI [of _ "session\<lparr>sess_cancelled := True, sess_queues_open := False\<rparr>"] exI [of _ "bp_Put buf bp"]
        exI [of _ rl])
      (auto simp: handleTCPConnection_def tcp_outer_frames closeSession_once s0 s0_def [symmetric] Let_def)
qed

lemma handleTCPConnection_refused:
  assumes "AllowConnection ip (srv_connLimiter s) = (False, crl)"
  shows "handleTCPConnection sid now clk choice cx ip chunks s = Ret ([], True, None, s)"
proof -
  have "crl = srv_connLimiter s" using assms by (auto simp: AllowConnection_def Let_def split: if_split_asm)
  then show ?thesis using assms by (simp add: handleTCPConnection_def)
qed

text \<open>A frame limit below the wrap-around of the length field, as every sensible configuration has.\<close>

definition frame_limit_ok :: "ServerConfig \<Rightarrow> bool" where
  "frame_limit_ok config \<longleftrightarrow> unat (fr_maxLength (NewFrameReader (MaxFrameSize config))) < 2 ^ 32 - 16"

lemma feed_read_no_panic:
  assumes "frame_limit_ok config" and "feed_read (NewFrameReader (MaxFrameSize config)) chunks = (fs, reader', e)"
  shows "e = None \<or> (\<exists>err. e = Some (Ret err))"
proof -
  let ?mx = "fr_maxLength (NewFrameReader (MaxFrameSize config))"
  obtain gs rest where d: "frame_drain ?mx (concat chunks) = (gs, rest, e)"
    using feed_read_whole(2) [of "MaxFrameSize config" chunks] assms(2) by (metis prod.collapse snd_conv)
  show ?thesis
  proof (cases e)
    case (Some e')
    with frame_drain_no_panic [of ?mx "concat chunks" gs rest e'] d NewFrameReader_limit assms(1)
    show ?thesis by (auto simp: frame_limit_ok_def)
  qed simp
qed

subsection \<open>Theorems\<close>

text \<open>C7: What a TCP connection leaves in the server.  Let the frame limit be below \<open>2\<^sup>3\<^sup>2 - 16\<close>, the identifier of
  the new session not in the registry, and every call of \<^verbatim>\<open>Read\<close> and \<^verbatim>\<open>Write\<close> return, with data or with an error.
  Whatever bytes the peer sends, in whatever chunks, the handler of an accepted connection then returns
  without a panic; afterwards the connection limiter counts exactly the connections it counted before, the session
  is out of the registry, cancelled and its queues closed, and nothing else of the \<open>Server\<close> has changed but the
  buckets of the rate limiter and the buffer pool.  The socket, however, is left open: no path of the handler of
  an accepted connection calls \<^verbatim>\<open>conn.Close\<close>.  A connection is refused exactly when its address has reached the
  limit; it is closed, gets no byte, and changes nothing in the server.\<close>

theorem tcp_connection_cleanup:
  assumes "srv_config s = Some config" and "frame_limit_ok config"
    and "crl_abs M (srv_connLimiter s)" and "sid \<notin> srv_sessions s"
  shows "\<exists>out closed session s'. handleTCPConnection sid now clk choice cx ip chunks s = Ret (out, closed, session, s') \<and>
    crl_abs M (srv_connLimiter s') \<and>
    (\<exists>bp rl crl. s' = s\<lparr>srv_connLimiter := crl, srv_bufferPool := bp, srv_rateLimiter := rl\<rparr>) \<and>
    (case session of
       Some c \<Rightarrow> int (count M ip) < maxPerIP (srv_connLimiter s) \<and> sess_ID c = sid \<and>
                 sess_cancelled c \<and> \<not> sess_queues_open c \<and> \<not> closed
     | None \<Rightarrow> maxPerIP (srv_connLimiter s) \<le> int (count M ip) \<and> out = [] \<and> s' = s \<and> closed)"
proof -
  note a = AllowConnection_refines [OF assms(3), of ip]
  obtain b crl where al: "AllowConnection ip (srv_connLimiter s) = (b, crl)" by (metis surj_pair)
  show ?thesis
  proof (cases b)
    case False
    then have le: "maxPerIP (srv_connLimiter s) \<le> int (count M ip)"
      using a(1) al by (auto simp: spec_allow_def split: if_split_asm)
    have h: "handleTCPConnection sid now clk choice cx ip chunks s = Ret ([], True, None, s)"
      using handleTCPConnection_refused [of ip s crl] al False by simp
    have ex: "\<exists>bp rl crl. s = s\<lparr>srv_connLimiter := crl, srv_bufferPool := bp, srv_rateLimiter := rl\<rparr>"
      by (rule exI [of _ "srv_bufferPool s"], rule exI [of _ "srv_rateLimiter s"], rule exI [of _ "srv_connLimiter s"]) simp
    show ?thesis
      by (rule exI [of _ "[]"], rule exI [of _ True], rule exI [of _ None], rule exI [of _ s])
        (use h ex le assms(3) in \<open>simp only: option.case simp_thms\<close>)
  next
    case True
    obtain fs reader' e where f: "feed_read (NewFrameReader (MaxFrameSize config)) chunks = (fs, reader', e)"
      by (metis prod_cases3)
    have al': "AllowConnection ip (srv_connLimiter s) = (True, crl)" using al True by simp
    have lt: "int (count M ip) < maxPerIP (srv_connLimiter s)" and "crl_abs (add_mset ip M) crl"
      using a al True by (auto simp: spec_allow_def split: if_split_asm)
    then have r: "crl_abs M (ReleaseConnection ip crl)"
      using ReleaseConnection_refines(1) [of "add_mset ip M" crl ip] by (simp add: spec_release_def)
    obtain out session' bp rl where h: "handleTCPConnection sid now clk choice cx ip chunks s =
        Ret (out, False, Some session', s\<lparr>srv_connLimiter := ReleaseConnection ip crl, srv_sessions := srv_sessions s - {sid},
           srv_bufferPool := bp, srv_rateLimiter := rl\<rparr>)"
      and c: "sess_ID session' = sid" "sess_cancelled session'" "\<not> sess_queues_open session'"
      using handleTCPConnection_accepted [OF al' assms(1) f feed_read_no_panic [OF assms(2) f],
          of sid now clk choice cx]
        handle_frames_session [of clk "srv_crypto s" cx ip 0 fs "srv_rateLimiter s" "fst (createSession sid now s)"]
      by (auto simp: createSession_def Let_def) (metis prod.collapse)
    have same: "s\<lparr>srv_connLimiter := ReleaseConnection ip crl, srv_sessions := srv_sessions s - {sid},
           srv_bufferPool := bp, srv_rateLimiter := rl\<rparr> =
         s\<lparr>srv_connLimiter := ReleaseConnection ip crl, srv_bufferPool := bp, srv_rateLimiter := rl\<rparr>"
      using assms(4) by (cases s) simp
    show ?thesis using h [unfolded same] c r lt
      by (intro exI [of _ out] exI [of _ False] exI [of _ "Some session'"] exI conjI) auto
  qed
qed

text \<open>An empty server with the defaults, and the engine and the codecs of the earlier examples.\<close>

definition demo_server :: Server where
  "demo_server = projr (NewServer (Inr toy_engine) 0 0 (Some DefaultServerConfig))"

lemma demo_server_fields [simp]:
  "srv_config demo_server = Some DefaultServerConfig" "srv_sessions demo_server = {}"
  "srv_connLimiter demo_server = NewConnectionRateLimiter 10" "srv_rateLimiter demo_server = NewRateLimiter 0 1000 100"
  "srv_crypto demo_server = toy_engine" "srv_bufferPool demo_server = NewBufferPool 8192"
  by (simp_all add: demo_server_def NewServer_def)

lemma demo_limit: "frame_limit_ok DefaultServerConfig"
  by (simp add: frame_limit_ok_def DefaultServerConfig_def NewFrameReader_maxLength)

theorem tcp_connection_cleanup_witness:
  "\<exists>out closed session s'. handleTCPConnection ''id'' 0 (\<lambda>_. (0, 0, 0)) None stored_codecs ''peer'' [[1, 2], [3]] demo_server =
     Ret (out, closed, session, s') \<and> crl_abs {#} (srv_connLimiter s')"
proof -
  have "crl_abs {#} (srv_connLimiter demo_server)" by (simp add: crl_abs_def NewConnectionRateLimiter_def in_i64_def)
  moreover have "''id'' \<notin> srv_sessions demo_server" by simp
  ultimately show ?thesis using tcp_connection_cleanup [OF demo_server_fields(1) demo_limit] by blast
qed

text \<open>C12: What the server writes to a TCP peer depends only on the bytes it received, never on how they
  were cut into reads: same answers, same state of the limiter and of the session, same end.\<close>

theorem tcp_output_chunking:
  assumes "concat chunks = concat chunks'"
  shows "handleTCPConnection sid now clk choice cx ip chunks s = handleTCPConnection sid now clk choice cx ip chunks' s"
proof -
  have read: "\<exists>fs r r' e. feed_read (NewFrameReader n) chunks = (fs, r, e) \<and>
      feed_read (NewFrameReader n) chunks' = (fs, r', e)" for n
    using feed_read_whole [of n chunks] feed_read_whole [of n chunks'] assms
    by (cases "feed_read (NewFrameReader n) chunks"; cases "feed_read (NewFrameReader n) chunks'") auto
  obtain b crl where al: "AllowConnection ip (srv_connLimiter s) = (b, crl)" by (metis surj_pair)
  show ?thesis
  proof (cases b)
    case True
    show ?thesis
    proof (cases "srv_config s")
      case (Some config)
      with read [of "MaxFrameSize config"] obtain fs r r' e where
        f: "feed_read (NewFrameReader (MaxFrameSize config)) chunks = (fs, r, e)"
          "feed_read (NewFrameReader (MaxFrameSize config)) chunks' = (fs, r', e)" by blast
      obtain buf bp where g: "bp_Get choice (srv_bufferPool s) = (buf, bp)" by (metis surj_pair)
      show ?thesis
        using al True Some f g
        by (cases "handle_frames clk (srv_crypto s) cx ip 0 fs (srv_rateLimiter s) (fst (createSession sid now s))")
          (simp add: handleTCPConnection_def tcp_outer_frames createSession_def Let_def)
    qed (use al True in \<open>simp add: handleTCPConnection_def createSession_def Let_def\<close>)
  qed (use al in \<open>simp add: handleTCPConnection_def\<close>)
qed

theorem tcp_output_chunking_witness:
  "handleTCPConnection ''id'' 0 (\<lambda>_. (0, 0, 0)) None stored_codecs ''peer'' [[1, 2], [3]] demo_server =
   handleTCPConnection ''id'' 0 (\<lambda>_. (0, 0, 0)) None stored_codecs ''peer'' [[1], [2, 3]] demo_server"
  by (rule tcp_output_chunking) simp

text \<open>C1: End to end.  A client sends valid frames within the server's limit, cut into arbitrary reads; the
  connection is accepted.  The server writes exactly the answers to the frames that the limiter lets
  through, in order: for a hello the greeting, for a ping the same payload on the same stream as a
  pong, for a data frame its decoded payload, nothing otherwise.  A client that feeds what it gets, in
  whatever pieces, to a frame reader with a limit that fits gets back exactly these answers.\<close>

theorem tcp_end_to_end:
  assumes "srv_config s = Some config" and "fst (AllowConnection ip (srv_connLimiter s))"
    and "list_all (acceptable (fr_maxLength (NewFrameReader (MaxFrameSize config)))) fs"
    and "concat chunks = concat (map Marshal fs)"
    and "rs = responses (srv_crypto s) cx (admitted clk ip 0 (srv_rateLimiter s) fs)"
    and "list_all (\<lambda>r. length (fPayload r) < 2 ^ 32 - 16 \<and>
       length (fPayload r) \<le> unat (fr_maxLength (NewFrameReader n))) rs"
  shows "\<exists>out session s'. handleTCPConnection sid now clk choice cx ip chunks s = Ret (out, False, Some session, s') \<and>
    (\<forall>pieces. concat pieces = concat out \<longrightarrow>
       feed_read (NewFrameReader n) pieces = (rs, NewFrameReader n, None))"
proof -
  obtain crl where al: "AllowConnection ip (srv_connLimiter s) = (True, crl)"
    using assms(2) by (cases "AllowConnection ip (srv_connLimiter s)") auto
  have f: "feed_read (NewFrameReader (MaxFrameSize config)) chunks = (fs, NewFrameReader (MaxFrameSize config), None)"
    by (rule feed_read_Marshals [OF assms(3,4)])
  obtain session s' where h: "handleTCPConnection sid now clk choice cx ip chunks s = Ret (map Marshal rs, False, Some session, s')"
    using handleTCPConnection_accepted [OF al assms(1) f] unfolding assms(5) by blast
  have "\<exists>f. response (srv_crypto s) cx f = Some r" if "r \<in> set rs" for r
    using that unfolding assms(5) by (auto simp: responses_def split: option.split_asm)
  then have "list_all (acceptable (fr_maxLength (NewFrameReader n))) rs"
    using assms(6) response_valid by (fastforce simp: list_all_iff acceptable_def)
  from feed_read_Marshals [OF this] h show ?thesis by blast
qed

theorem tcp_end_to_end_witness:
  "\<exists>out session s'. handleTCPConnection ''id'' 0 (\<lambda>_. (0, 0, 0)) None stored_codecs ''peer''
      [Marshal (NewFrame FramePing 3 [9])] demo_server = Ret (out, False, Some session, s') \<and>
    feed_read (NewFrameReader 4096) out = ([NewFrame FramePong 3 [9]], NewFrameReader 4096, None)"
proof -
  let ?clk = "\<lambda>_ :: nat. (0 :: time, 0 :: time, 0 :: time)"
  have "ip_level 0 0 ''peer'' (NewRateLimiter 0 1000 100) = 100"
    by (simp add: ip_level_def ip_bucket_def NewRateLimiter_def fill_zero bucket_ok_def)
  then have "fst (rl_AllowIP 0 0 0 ''peer'' (NewRateLimiter 0 1000 100))"
    by (simp add: rl_AllowIP_level Let_def)
  then have "admitted ?clk ''peer'' 0 (srv_rateLimiter demo_server) [NewFrame FramePing 3 [9]] = [NewFrame FramePing 3 [9]]"
    by (cases "rl_AllowIP 0 0 0 ''peer'' (NewRateLimiter 0 1000 100)") simp
  then have rs: "[NewFrame FramePong 3 [9]] = responses (srv_crypto demo_server) stored_codecs
      (admitted ?clk ''peer'' 0 (srv_rateLimiter demo_server) [NewFrame FramePing 3 [9]])"
    by (simp add: responses_def response_def frame_type_defs)
  have ok: "fst (AllowConnection ''peer'' (srv_connLimiter demo_server))"
    by (simp add: AllowConnection_def conn_count_def NewConnectionRateLimiter_def)
  have acc: "list_all (acceptable (fr_maxLength (NewFrameReader (MaxFrameSize DefaultServerConfig)))) [NewFrame FramePing 3 [9]]"
    by (simp add: acceptable_def NewFrameReader_maxLength DefaultServerConfig_def)
  have lim: "list_all (\<lambda>r. length (fPayload r) < 2 ^ 32 - 16 \<and>
      length (fPayload r) \<le> unat (fr_maxLength (NewFrameReader 4096))) [NewFrame FramePong 3 [9]]"
    by (simp add: NewFrameReader_maxLength)
  from tcp_end_to_end [OF demo_server_fields(1) ok acc _ rs lim, of "[Marshal (NewFrame FramePing 3 [9])]" "''id''" 0 None]
  show ?thesis by (simp only: list.map concat.simps append_Nil2 refl simp_thms) blast
qed

subsection \<open>Floods\<close>

lemma admitted_burst:
  "length (admitted (\<lambda>_. (now, now, now)) ip k rl fs) = AllowIP_burst (length fs) now ip rl"
  by (induction fs arbitrary: k rl) (auto split: prod.split)

lemma admitted_subset: "set (admitted clk ip k rl fs) \<subseteq> set fs"
proof (induction fs arbitrary: k rl)
  case (Cons f fs)
  obtain b rl' where r: "rl_AllowIP (fst (clk k)) (fst (snd (clk k))) (snd (snd (clk k))) ip rl = (b, rl')"
    by (metis surj_pair)
  from Cons.IH [of "Suc k" rl'] show ?case by (auto simp: r)
qed simp

lemma responses_pings:
  "\<forall>f \<in> set fs. fType f = FramePing \<Longrightarrow> length (responses ce cx fs) = length fs"
  by (induction fs) (auto simp: responses_def response_def frame_type_defs)

text \<open>C10: A flood of \<open>n\<close> pings that reaches a new server in one instant, on one connection, in whatever
  chunks, is answered by exactly the smaller of \<open>n\<close> and 100 pongs: a tenth of the global bucket is what
  an address gets, and the frames beyond it are dropped without an answer.\<close>

theorem flood_bounded:
  assumes "NewServer (Inr ce) t0 t0' (Some config) = Inr s" and "t0 \<le> now"
    and "\<forall>f \<in> set fs. fType f = FramePing"
    and "list_all (acceptable (fr_maxLength (NewFrameReader (MaxFrameSize config)))) fs"
    and "concat chunks = concat (map Marshal fs)"
  shows "\<exists>out session s'. handleTCPConnection sid tc (\<lambda>_. (now, now, now)) choice cx ip chunks s = Ret (out, False, Some session, s') \<and>
    length out = min (length fs) 100"
proof -
  have s: "srv_config s = Some config" "srv_connLimiter s = NewConnectionRateLimiter 10"
      "srv_rateLimiter s = NewRateLimiter t0 1000 100"
    using assms(1) by (auto simp: NewServer_def)
  have "fst (AllowConnection ip (NewConnectionRateLimiter 10))"
    by (simp add: AllowConnection_def conn_count_def NewConnectionRateLimiter_def)
  then obtain crl where al: "AllowConnection ip (srv_connLimiter s) = (True, crl)"
    unfolding s by (cases "AllowConnection ip (NewConnectionRateLimiter 10)") auto
  have f: "feed_read (NewFrameReader (MaxFrameSize config)) chunks = (fs, NewFrameReader (MaxFrameSize config), None)"
    by (rule feed_read_Marshals [OF assms(4,5)])
  let ?a = "admitted (\<lambda>_. (now, now, now)) ip 0 (srv_rateLimiter s) fs"
  obtain session s' where h: "handleTCPConnection sid tc (\<lambda>_. (now, now, now)) choice cx ip chunks s =
      Ret (map Marshal (responses (srv_crypto s) cx ?a), False, Some session, s')"
    using handleTCPConnection_accepted [OF al s(1) f] by blast
  have ok: "rl_ok now (NewRateLimiter t0 1000 100)"
    by (rule rl_ok_later [OF NewRateLimiter_ok assms(2)]) simp_all
  have "0 \<le> Seconds (time_Sub now now)" by simp
  have "ip_level now now ip (NewRateLimiter t0 1000 100) = 100"
    by (simp add: ip_level_def ip_bucket_def NewRateLimiter_def fill_zero bucket_ok_def)
  then have "AllowIP_burst (length fs) now ip (NewRateLimiter t0 1000 100) = min (length fs) 100"
    using perip.burst_granted [of now "NewRateLimiter t0 1000 100" ip "length fs"] ok
    by (simp add: AllowIP_burst_eq) (simp add: NewRateLimiter_def)
  moreover have "length (responses (srv_crypto s) cx ?a) = length ?a"
    using assms(3) admitted_subset by (intro responses_pings) blast
  ultimately have "length (responses (srv_crypto s) cx ?a) = min (length fs) 100"
    by (simp add: admitted_burst s(3))
  with h show ?thesis by (intro exI conjI) auto
qed

theorem flood_bounded_witness:
  "\<exists>out session s'. handleTCPConnection ''id'' 0 (\<lambda>_. (5, 5, 5)) None stored_codecs ''peer''
     [concat (map Marshal (replicate 250 (NewFrame FramePing 1 [])))] demo_server = Ret (out, False, Some session, s') \<and>
     length out = 100"
proof -
  have "NewServer (Inr toy_engine) 0 0 (Some DefaultServerConfig) = Inr demo_server"
    by (simp add: demo_server_def NewServer_def)
  from flood_bounded [OF this, of 5 "replicate 250 (NewFrame FramePing 1 [])"
      "[concat (map Marshal (replicate 250 (NewFrame FramePing 1 [])))]" "''id''" 0 None stored_codecs "''peer''"]
  show ?thesis by (simp add: list_all_iff acceptable_def)
qed

subsection \<open>Statistics\<close>

definition sum_len :: "('a \<Rightarrow> nat) \<Rightarrow> 'a list \<Rightarrow> u64" where
  "sum_len g xs = of_nat (sum_list (map g xs))"

text \<open>What a list of handled frames adds to the counters.\<close>

definition stats_after :: "CryptoEngine \<Rightarrow> codecs \<Rightarrow> Frame list \<Rightarrow> SessionStats \<Rightarrow> u64 \<times> u64 \<times> u64 \<times> u64" where
  "stats_after ce cx fs st =
     (FramesRecv st + of_nat (length fs), BytesRecv st + sum_len (\<lambda>f. length (fPayload f)) fs,
      FramesSent st + of_nat (length (responses ce cx fs)), BytesSent st + sum_len (\<lambda>r. length (Marshal r)) (responses ce cx fs))"

definition counters :: "SessionStats \<Rightarrow> u64 \<times> u64 \<times> u64 \<times> u64" where
  "counters st = (FramesRecv st, BytesRecv st, FramesSent st, BytesSent st)"

lemma handleFrame_stats: "counters (sess_stats (fst (handleFrame ce cx session f w))) = stats_after ce cx [f] (sess_stats session)"
  by (auto simp: counters_def stats_after_def sum_len_def responses_def handleFrame_def handleHelloFrame_def
      handleDataFrame_def handlePingFrame_def handleStreamOpen_def handleStreamClose_def sendFrame_def
      response_def decoded_def frame_type_defs Let_def split: sum.split option.split)

lemma responses_Cons: "responses ce cx (f # fs) = responses ce cx [f] @ responses ce cx fs"
  by (simp add: responses_def)

lemma stats_after_Cons:
  "counters st' = stats_after ce cx [f] st \<Longrightarrow> stats_after ce cx fs st' = stats_after ce cx (f # fs) st"
  by (simp add: counters_def stats_after_def sum_len_def responses_Cons [of ce cx f fs] add.assoc)

text \<open>The counters of a session are exact modulo \<open>2\<^sup>6\<^sup>4\<close>: after any frames, received are the frames the
  limiter let through and the bytes of their payloads, sent are the answers and the bytes of their
  serialisations, and what was written to the connection is these answers.\<close>

theorem session_stats_exact:
  assumes "handle_frames clk ce cx ip k fs rl session = (out, k', rl', session')"
  shows "counters (sess_stats session') = stats_after ce cx (admitted clk ip k rl fs) (sess_stats session) \<and>
    FramesSent (sess_stats session') = FramesSent (sess_stats session) + of_nat (length out)"
proof -
  have c: "handle_frames clk ce cx ip k fs rl session = (out, k', rl', session') \<Longrightarrow>
      counters (sess_stats session') = stats_after ce cx (admitted clk ip k rl fs) (sess_stats session)"
    for k rl session out
  proof (induction fs arbitrary: k rl session out)
    case (Cons f fs)
    obtain b rl1 where r: "rl_AllowIP (fst (clk k)) (fst (snd (clk k))) (snd (snd (clk k))) ip rl = (b, rl1)"
      by (metis surj_pair)
    show ?case
    proof (cases b)
      case True
      let ?s1 = "fst (handleFrame ce cx session f Conn_writer)"
      obtain out1 where "handle_frames clk ce cx ip (Suc k) fs rl1 ?s1 = (out1, k', rl', session')"
        using Cons.prems r True by (auto split: prod.split_asm)
      from Cons.IH [OF this] stats_after_Cons [OF handleFrame_stats, of ce cx "admitted clk ip (Suc k) rl1 fs" session f Conn_writer]
      show ?thesis using r True by simp
    qed (use Cons r in auto)
  qed (simp add: counters_def stats_after_def sum_len_def responses_def)
  moreover have "out = map Marshal (responses ce cx (admitted clk ip k rl fs))"
    using handle_frames_out [of clk ce cx ip k fs rl session] assms by simp
  ultimately show ?thesis using assms by (simp add: counters_def stats_after_def)
qed

theorem session_stats_exact_witness:
  "\<exists>out k' rl' session'. handle_frames (\<lambda>_. (0, 0, 0)) toy_engine stored_codecs ''peer'' 0 [NewFrame FramePing 3 [9]]
      ((NewRateLimiter 0 1000 100)\<lparr>maxTokens := 0\<rparr>) (fst (createSession ''id'' 0 demo_server)) = (out, k', rl', session') \<and>
     FramesSent (sess_stats session') = of_nat (length out)"
proof -
  obtain out k' rl' session' where h: "handle_frames (\<lambda>_. (0, 0, 0)) toy_engine stored_codecs ''peer'' 0 [NewFrame FramePing 3 [9]]
      ((NewRateLimiter 0 1000 100)\<lparr>maxTokens := 0\<rparr>) (fst (createSession ''id'' 0 demo_server)) = (out, k', rl', session')"
    by (metis prod_cases4)
  from session_stats_exact [OF h] h show ?thesis by (auto simp: createSession_def Let_def)
qed

text \<open>Answers to QUIC datagrams are counted but never sent: no datagram makes the handler write
  anything, although every hello, ping and readable data frame adds one to the frames sent and the
  length of its answer to the bytes sent.\<close>

theorem datagram_answers_lost:
  assumes "handleDatagram cx session data s = Ret (out, session')"
  shows "out = [] \<and>
    (\<forall>f. UnmarshalFrame data = Ret (Inr f) \<longrightarrow>
       counters (sess_stats session') = stats_after (srv_crypto s) cx [f] (sess_stats session))"
proof (cases "UnmarshalFrame data")
  case (Ret r)
  show ?thesis
  proof (cases r)
    case (Inr f)
    then have h: "session' = fst (handleFrame (srv_crypto s) cx session f Nil_writer)"
        "out = snd (handleFrame (srv_crypto s) cx session f Nil_writer)"
      using assms Ret by (auto simp: handleDatagram_def split: prod.split_asm)
    have "out = []" unfolding h handleFrame_out by (simp split: option.split)
    moreover have "counters (sess_stats session') = stats_after (srv_crypto s) cx [f] (sess_stats session)"
      unfolding h by (rule handleFrame_stats)
    ultimately show ?thesis using Ret Inr by simp
  qed (use assms Ret in \<open>simp add: handleDatagram_def\<close>)
qed (use assms in \<open>simp_all add: handleDatagram_def\<close>)

theorem datagram_answers_lost_witness:
  "\<exists>session'. handleDatagram stored_codecs (fst (createSession ''id'' 0 demo_server)) (Marshal (NewFrame FramePing 3 [9])) demo_server =
     Ret ([], session') \<and> FramesSent (sess_stats session') = 1"
proof -
  let ?f = "NewFrame FramePing 3 [9]" and ?s = "fst (createSession ''id'' 0 demo_server)"
  have u: "UnmarshalFrame (Marshal ?f) = Ret (Inr ?f)" using UnmarshalFrame_Marshal_append [of ?f "[]"] by simp
  then obtain out session' where h: "handleDatagram stored_codecs ?s (Marshal ?f) demo_server = Ret (out, session')"
    by (cases "handleFrame toy_engine stored_codecs ?s ?f Nil_writer") (simp add: handleDatagram_def)
  have "length (responses toy_engine stored_codecs [?f]) = 1" by (simp add: responses_def response_def frame_type_defs)
  with datagram_answers_lost [OF h] u have "out = []" "FramesSent (sess_stats session') = 1"
    by (simp_all add: counters_def stats_after_def createSession_def Let_def)
  with h show ?thesis by blast
qed

text \<open>A data frame that carries an encryption by the server's engine of a message, raw or compressed
  by \<^verbatim>\<open>CompressZstd\<close>, is answered by the message itself, in the clear and without flags, on the same stream.\<close>

theorem encrypted_data_echoed_in_clear:
  assumes "aead_opens (aead ce)" and "zstd_ok cx" and "length nonce = NonceSize (aead ce)"
    and "fType f = FrameData" and "HasFlag f FlagEncrypted"
    and "HasFlag f FlagCompressed \<longleftrightarrow> packed" and "body = (if packed then zstd_EncodeAll cx p else p)"
    and "Encrypt (Inr nonce) ce body = Inr (fPayload f)"
  shows "snd (handleFrame ce cx session f Conn_writer) = [Marshal (NewFrame FrameData (fStreamID f) p)]"
proof -
  have "Decrypt ce (fPayload f) = Inr body"
    by (rule Decrypt_Encrypt [OF assms(1,3,8)])
  then have "decoded ce cx f = Some p"
    using assms(2,5-7) by (auto simp: decoded_def Decompress_def DecompressZstd_def zstd_ok_def)
  then have "response ce cx f = Some (NewFrame FrameData (fStreamID f) p)"
    using assms(4) by (simp add: response_def frame_type_defs)
  then show ?thesis by (simp add: handleFrame_out)
qed

theorem encrypted_data_echoed_in_clear_witness:
  "snd (handleFrame toy_engine stored_codecs (fst (createSession ''id'' 0 demo_server))
     ((NewFrame FrameData 7 [5, 5, 0, 2, 1])\<lparr>fFlags := 3\<rparr>) Conn_writer) = [Marshal (NewFrame FrameData 7 [1])]"
proof -
  let ?f = "(NewFrame FrameData 7 [5, 5, 0, 2, 1])\<lparr>fFlags := 3\<rparr>"
  have l: "aead_opens (aead toy_engine)" using toy_aead_laws by (simp add: toy_engine_def)
  have z: "zstd_ok stored_codecs" by (simp add: zstd_ok_def stored_codecs_def)
  have e: "Encrypt (Inr [5]) toy_engine [2, 1] = Inr [5, 5, 0, 2, 1]"
    by (simp add: Encrypt_def toy_engine_def toy_aead_def)
  have "[2, 1] = (if True then zstd_EncodeAll stored_codecs [1] else [1])" by (simp add: stored_codecs_def)
  moreover have "length [5 :: byte] = NonceSize (aead toy_engine)" by (simp add: toy_engine_def toy_aead_def)
  ultimately show ?thesis
    using encrypted_data_echoed_in_clear [OF l z, of "[5]" ?f True "[2, 1]" "[1]" "fst (createSession ''id'' 0 demo_server)"] e
    by (simp add: HasFlag_def flag_defs)
qed

end
