(* ===== verification/WB_Goroutines.thy ===== *)
theory WB_Goroutines
  imports WB_Connections
begin

text \<open>
  The goroutines of a running server (\<^verbatim>\<open>server.go\<close>): the two accept loops, one goroutine per connection
  with the deferred calls of its handler, the streams of a QUIC connection, and a call of \<^verbatim>\<open>Shutdown\<close>,
  interleaved in every order over the shared \<open>Server\<close>.  A goroutine is a program point with its local
  variables; a step is the code between two accesses to shared state or to the network.  What the network,
  the clock and the random source return is chosen by the rule that uses it.  A panic of a goroutine ends
  the process: nothing happens afterwards.

  A datagram travels in one UDP packet and is shorter than 64 KiB.  No write deadline is ever set: a handler in
  \<^verbatim>\<open>Write\<close> waits for the act \<open>Wrote\<close>, which may never come; whether \<^verbatim>\<open>Write\<close> returns an error makes no
  difference, since \<^verbatim>\<open>sendFrame\<close> only logs it.
\<close>

subsection \<open>The accept loops\<close>

datatype loop =
  L_off
| L_spawned
| L_bound
| L_accept
| L_exit
| L_gone
| L_panic string

datatype loop_act = L_step | L_retry | L_conn string

definition wg_Done :: "Server \<Rightarrow> Server go" where
  "wg_Done s = (if srv_wg s = 0 then Panic ''sync: negative WaitGroup counter'' else Ret (s\<lparr>srv_wg := srv_wg s - 1\<rparr>))"

definition listen_config :: "Server \<Rightarrow> tls_Config go" where
  "listen_config s =
     (case srv_config s of None \<Rightarrow> Panic ''nil pointer dereference'' | Some config \<Rightarrow> assert_tls (TLSConfig config))"

text \<open>
  \<^verbatim>\<open>startTCP\<close>.  \<^verbatim>\<open>Accept\<close> on an open listener gives a connection or an error after which the loop
  continues; on a closed one it gives \<^verbatim>\<open>net.ErrClosed\<close>, which ends the loop.
\<close>

inductive startTCP :: "loop \<times> Server \<Rightarrow> loop_act \<Rightarrow> loop \<times> Server \<Rightarrow> bool" where
  tcp_listen: "listen_config s = Ret tc \<Longrightarrow> startTCP (L_spawned, s) L_step (L_bound, s)"
| tcp_listen_failed: "listen_config s = Ret tc \<Longrightarrow> startTCP (L_spawned, s) L_step (L_exit, s)"
| tcp_listen_panic: "listen_config s = Panic m \<Longrightarrow> startTCP (L_spawned, s) L_step (L_panic m, s)"
| tcp_store: "startTCP (L_bound, s) L_step (L_accept, s\<lparr>srv_tcpListener := Some Listening\<rparr>)"
| tcp_accept: "srv_tcpListener s = Some Listening \<Longrightarrow>
    startTCP (L_accept, s) (L_conn addr) (L_accept, s\<lparr>srv_wg := srv_wg s + 1\<rparr>)"
| tcp_accept_error: "srv_tcpListener s = Some Listening \<Longrightarrow> startTCP (L_accept, s) L_retry (L_accept, s)"
| tcp_accept_closed: "srv_tcpListener s = Some Closed \<Longrightarrow> startTCP (L_accept, s) L_step (L_exit, s)"
| tcp_loop_done: "wg_Done s = Ret s' \<Longrightarrow> startTCP (L_exit, s) L_step (L_gone, s')"
| tcp_loop_panic: "wg_Done s = Panic m \<Longrightarrow> startTCP (L_exit, s) L_step (L_panic m, s)"

text \<open>
  \<^verbatim>\<open>startQUIC\<close>.  What \<^verbatim>\<open>Accept\<close> of the QUIC library returns on a closed listener is not in the sources:
  \<open>closed_is_net\<close> says whether \<^verbatim>\<open>errors.Is(err, net.ErrClosed)\<close> holds for it.  If not, the loop goes on.
\<close>

inductive startQUIC :: "bool \<Rightarrow> loop \<times> Server \<Rightarrow> loop_act \<Rightarrow> loop \<times> Server \<Rightarrow> bool" for closed_is_net where
  quic_listen: "listen_config s = Ret tc \<Longrightarrow> startQUIC closed_is_net (L_spawned, s) L_step (L_bound, s)"
| quic_listen_failed: "listen_config s = Ret tc \<Longrightarrow> startQUIC closed_is_net (L_spawned, s) L_step (L_exit, s)"
| quic_listen_panic: "listen_config s = Panic m \<Longrightarrow> startQUIC closed_is_net (L_spawned, s) L_step (L_panic m, s)"
| quic_store: "startQUIC closed_is_net (L_bound, s) L_step (L_accept, s\<lparr>srv_quicListener := Some Listening\<rparr>)"
| quic_accept: "srv_quicListener s = Some Listening \<Longrightarrow>
    startQUIC closed_is_net (L_accept, s) (L_conn addr) (L_accept, s\<lparr>srv_wg := srv_wg s + 1\<rparr>)"
| quic_accept_error: "srv_quicListener s = Some Listening \<or> \<not> closed_is_net \<Longrightarrow>
    startQUIC closed_is_net (L_accept, s) L_retry (L_accept, s)"
| quic_accept_closed: "srv_quicListener s = Some Closed \<Longrightarrow> closed_is_net \<Longrightarrow>
    startQUIC closed_is_net (L_accept, s) L_step (L_exit, s)"
| quic_loop_done: "wg_Done s = Ret s' \<Longrightarrow> startQUIC closed_is_net (L_exit, s) L_step (L_gone, s')"
| quic_loop_panic: "wg_Done s = Panic m \<Longrightarrow> startQUIC closed_is_net (L_exit, s) L_step (L_panic m, s)"

subsection \<open>TCP connections\<close>

text \<open>
  The program points of \<^verbatim>\<open>handleTCPConnection\<close>, from the start of the goroutine to its last deferred
  call, with the local variables alive there: the buffer, the reader, the session and the frame.
\<close>

datatype tcp_phase =
  T_start
| T_admitted
| T_open Session
| T_read bytes FrameReader Session
| T_parse bytes FrameReader Session
| T_limit bytes FrameReader Session Frame
| T_handle bytes FrameReader Session Frame
| T_write bytes FrameReader Session
| T_put bytes Session
| T_close Session
| T_release
| T_done
| T_gone
| T_panic string

text \<open>
  \<open>tc_closed\<close> says whether \<^verbatim>\<open>conn.Close\<close> has been called, \<open>tc_writes\<close> is the data passed to \<^verbatim>\<open>Write\<close>.  The last
  three fields are history: the chunks that were read, the frames that were taken from the reader and asked
  about, and the clock readings of the limiter for them.
\<close>

record tcp_conn =
  tc_addr :: string
  tc_phase :: tcp_phase
  tc_deadline :: time
  tc_closed :: bool
  tc_writes :: "bytes list"
  tc_reads :: "bytes list"
  tc_frames :: "Frame list"
  tc_clocks :: "(time \<times> time \<times> time) list"

definition new_conn :: "string \<Rightarrow> tcp_conn" where
  "new_conn addr = \<lparr>tc_addr = addr, tc_phase = T_start, tc_deadline = 0, tc_closed = False, tc_writes = [], tc_reads = [],
                    tc_frames = [], tc_clocks = []\<rparr>"

text \<open>
  What happens to a goroutine that uses the network: it runs (\<open>Step\<close>), \<^verbatim>\<open>Read\<close> returns data, \<^verbatim>\<open>Read\<close> returns an
  error because the peer or the network has ended the connection, \<^verbatim>\<open>Write\<close> returns.
\<close>

datatype io_act = Step | Got bytes | Hup | Wrote

text \<open>
  The deadline is set once, before the loop.  \<^verbatim>\<open>Read\<close> returns at most a buffer of data before the deadline,
  and an error from the deadline on or when the connection has ended.
\<close>

inductive tcp_go :: "codecs \<Rightarrow> time \<times> Server \<times> tcp_conn \<Rightarrow> io_act \<Rightarrow> time \<times> Server \<times> tcp_conn \<Rightarrow> bool" for cx where
  go_refused: "tc_phase c = T_start \<Longrightarrow> AllowConnection (tc_addr c) (srv_connLimiter s) = (False, crl) \<Longrightarrow>
    tcp_go cx (now, s, c) Step (now, s\<lparr>srv_connLimiter := crl\<rparr>, c\<lparr>tc_phase := T_done, tc_closed := True\<rparr>)"
| go_admitted: "tc_phase c = T_start \<Longrightarrow> AllowConnection (tc_addr c) (srv_connLimiter s) = (True, crl) \<Longrightarrow>
    tcp_go cx (now, s, c) Step (now, s\<lparr>srv_connLimiter := crl\<rparr>, c\<lparr>tc_phase := T_admitted\<rparr>)"
| go_session: "tc_phase c = T_admitted \<Longrightarrow> now \<le> t \<Longrightarrow> createSession sid t s = (session, s') \<Longrightarrow>
    tcp_go cx (now, s, c) Step (t, s', c\<lparr>tc_phase := T_open session\<rparr>)"
| go_setup: "tc_phase c = T_open session \<Longrightarrow> now \<le> t \<Longrightarrow> srv_config s = Some config \<Longrightarrow>
    bp_Get choice (srv_bufferPool s) = (buf, bp) \<Longrightarrow>
    tcp_go cx (now, s, c) Step (t, s\<lparr>srv_bufferPool := bp\<rparr>,
      c\<lparr>tc_phase := T_read buf (NewFrameReader (MaxFrameSize config)) session,
        tc_deadline := time_Add t readIdleTimeout\<rparr>)"
| go_setup_panic: "tc_phase c = T_open session \<Longrightarrow> srv_config s = None \<Longrightarrow>
    tcp_go cx (now, s, c) Step (now, s, c\<lparr>tc_phase := T_panic ''nil pointer dereference''\<rparr>)"
| go_read: "tc_phase c = T_read buf reader session \<Longrightarrow> now \<le> t \<Longrightarrow> t < tc_deadline c \<Longrightarrow> length data \<le> length buf \<Longrightarrow>
    tcp_go cx (now, s, c) (Got data) (t, s,
      c\<lparr>tc_phase := T_parse (data @ drop (length data) buf) (Feed reader data) session, tc_reads := tc_reads c @ [data]\<rparr>)"
| go_read_timeout: "tc_phase c = T_read buf reader session \<Longrightarrow> tc_deadline c \<le> now \<Longrightarrow>
    tcp_go cx (now, s, c) Step (now, s, c\<lparr>tc_phase := T_put buf session\<rparr>)"
| go_read_ended: "tc_phase c = T_read buf reader session \<Longrightarrow>
    tcp_go cx (now, s, c) Hup (now, s, c\<lparr>tc_phase := T_put buf session\<rparr>)"
| go_no_frame: "tc_phase c = T_parse buf reader session \<Longrightarrow> ReadFrame reader = Ret (Inr None, reader') \<Longrightarrow>
    tcp_go cx (now, s, c) Step (now, s, c\<lparr>tc_phase := T_read buf reader' session\<rparr>)"
| go_bad_frame: "tc_phase c = T_parse buf reader session \<Longrightarrow> ReadFrame reader = Ret (Inl err, reader') \<Longrightarrow>
    tcp_go cx (now, s, c) Step (now, s, c\<lparr>tc_phase := T_put buf session\<rparr>)"
| go_frame: "tc_phase c = T_parse buf reader session \<Longrightarrow> ReadFrame reader = Ret (Inr (Some frame), reader') \<Longrightarrow>
    tcp_go cx (now, s, c) Step (now, s, c\<lparr>tc_phase := T_limit buf reader' session frame\<rparr>)"
| go_frame_panic: "tc_phase c = T_parse buf reader session \<Longrightarrow> ReadFrame reader = Panic m \<Longrightarrow>
    tcp_go cx (now, s, c) Step (now, s, c\<lparr>tc_phase := T_panic m\<rparr>)"
| go_limited: "tc_phase c = T_limit buf reader session frame \<Longrightarrow> now \<le> t1 \<Longrightarrow> t1 \<le> t2 \<Longrightarrow> t2 \<le> t3 \<Longrightarrow>
    rl_AllowIP t1 t2 t3 (tc_addr c) (srv_rateLimiter s) = (False, rl) \<Longrightarrow>
    tcp_go cx (now, s, c) Step (t3, s\<lparr>srv_rateLimiter := rl\<rparr>,
      c\<lparr>tc_phase := T_parse buf reader session, tc_frames := tc_frames c @ [frame], tc_clocks := tc_clocks c @ [(t1, t2, t3)]\<rparr>)"
| go_allowed: "tc_phase c = T_limit buf reader session frame \<Longrightarrow> now \<le> t1 \<Longrightarrow> t1 \<le> t2 \<Longrightarrow> t2 \<le> t3 \<Longrightarrow>
    rl_AllowIP t1 t2 t3 (tc_addr c) (srv_rateLimiter s) = (True, rl) \<Longrightarrow>
    tcp_go cx (now, s, c) Step (t3, s\<lparr>srv_rateLimiter := rl\<rparr>,
      c\<lparr>tc_phase := T_handle buf reader session frame, tc_frames := tc_frames c @ [frame], tc_clocks := tc_clocks c @ [(t1, t2, t3)]\<rparr>)"
| go_handle: "tc_phase c = T_handle buf reader session frame \<Longrightarrow>
    handleFrame (srv_crypto s) cx session frame Conn_writer = (session', out) \<Longrightarrow>
    tcp_go cx (now, s, c) Step (now, s,
      c\<lparr>tc_phase := (if out = [] then T_parse buf reader session' else T_write buf reader session'),
        tc_writes := tc_writes c @ out\<rparr>)"
| go_wrote: "tc_phase c = T_write buf reader session \<Longrightarrow>
    tcp_go cx (now, s, c) Wrote (now, s, c\<lparr>tc_phase := T_parse buf reader session\<rparr>)"
| go_put: "tc_phase c = T_put buf session \<Longrightarrow>
    tcp_go cx (now, s, c) Step (now, s\<lparr>srv_bufferPool := bp_Put buf (srv_bufferPool s)\<rparr>, c\<lparr>tc_phase := T_close session\<rparr>)"
| go_close: "tc_phase c = T_close session \<Longrightarrow> closeSession session s = Ret (session', s') \<Longrightarrow>
    tcp_go cx (now, s, c) Step (now, s', c\<lparr>tc_phase := T_release\<rparr>)"
| go_close_panic: "tc_phase c = T_close session \<Longrightarrow> closeSession session s = Panic m \<Longrightarrow>
    tcp_go cx (now, s, c) Step (now, s, c\<lparr>tc_phase := T_panic m\<rparr>)"
| go_release: "tc_phase c = T_release \<Longrightarrow>
    tcp_go cx (now, s, c) Step (now, s\<lparr>srv_connLimiter := ReleaseConnection (tc_addr c) (srv_connLimiter s)\<rparr>,
      c\<lparr>tc_phase := T_done\<rparr>)"
| go_done: "tc_phase c = T_done \<Longrightarrow> wg_Done s = Ret s' \<Longrightarrow> tcp_go cx (now, s, c) Step (now, s', c\<lparr>tc_phase := T_gone\<rparr>)"
| go_done_panic: "tc_phase c = T_done \<Longrightarrow> wg_Done s = Panic m \<Longrightarrow>
    tcp_go cx (now, s, c) Step (now, s, c\<lparr>tc_phase := T_panic m\<rparr>)"

subsection \<open>QUIC connections\<close>

text \<open>A stream ends with the deferred \<^verbatim>\<open>stream.Close\<close> (\<open>S_close\<close>), which does not wait for the peer.\<close>

datatype stream_phase =
  S_read FrameReader
| S_parse FrameReader
| S_handle FrameReader Frame
| S_write FrameReader
| S_close
| S_end
| S_panic string

datatype quic_phase = Q_start | Q_run | Q_close | Q_done | Q_gone | Q_panic string

text \<open>
  The session is shared by the goroutine of the connection, the one that accepts streams
  (\<open>qc_acceptor\<close>: it still runs) and those of the streams; only the first is in the wait group.
  \<open>qc_writes\<close> is the data passed to \<^verbatim>\<open>Write\<close> with the number of the stream.
\<close>

record quic_conn =
  qc_phase :: quic_phase
  qc_session :: "Session option"
  qc_acceptor :: bool
  qc_streams :: "stream_phase list"
  qc_writes :: "(nat \<times> bytes) list"

definition new_quic :: quic_conn where
  "new_quic = \<lparr>qc_phase = Q_start, qc_session = None, qc_acceptor = False, qc_streams = [], qc_writes = []\<rparr>"

text \<open>
  An act of the connection's goroutine (\<open>Got\<close> a datagram, \<open>Hup\<close> when \<^verbatim>\<open>ReceiveDatagram\<close> fails), the result of
  \<^verbatim>\<open>AcceptStream\<close>, or an act of a stream.
\<close>

datatype quic_act = Q_conn io_act | Q_accept | Q_accept_failed | Q_stream nat io_act

inductive quic_go :: "codecs \<Rightarrow> time \<times> Server \<times> quic_conn \<Rightarrow> quic_act \<Rightarrow> time \<times> Server \<times> quic_conn \<Rightarrow> bool" for cx where
  q_session: "qc_phase c = Q_start \<Longrightarrow> now \<le> t \<Longrightarrow> createSession sid t s = (session, s') \<Longrightarrow>
    quic_go cx (now, s, c) (Q_conn Step) (t, s', c\<lparr>qc_phase := Q_run, qc_session := Some session, qc_acceptor := True\<rparr>)"
| q_datagram: "qc_phase c = Q_run \<Longrightarrow> qc_session c = Some session \<Longrightarrow> length data < 65536 \<Longrightarrow>
    handleDatagram cx session data s = Ret (out, session') \<Longrightarrow>
    quic_go cx (now, s, c) (Q_conn (Got data)) (now, s, c\<lparr>qc_session := Some session'\<rparr>)"
| q_datagram_panic: "qc_phase c = Q_run \<Longrightarrow> qc_session c = Some session \<Longrightarrow> length data < 65536 \<Longrightarrow>
    handleDatagram cx session data s = Panic m \<Longrightarrow>
    quic_go cx (now, s, c) (Q_conn (Got data)) (now, s, c\<lparr>qc_phase := Q_panic m\<rparr>)"
| q_end: "qc_phase c = Q_run \<Longrightarrow> quic_go cx (now, s, c) (Q_conn Hup) (now, s, c\<lparr>qc_phase := Q_close\<rparr>)"
| q_close: "qc_phase c = Q_close \<Longrightarrow> qc_session c = Some session \<Longrightarrow> closeSession session s = Ret (session', s') \<Longrightarrow>
    quic_go cx (now, s, c) (Q_conn Step) (now, s', c\<lparr>qc_phase := Q_done, qc_session := Some session'\<rparr>)"
| q_close_panic: "qc_phase c = Q_close \<Longrightarrow> qc_session c = Some session \<Longrightarrow> closeSession session s = Panic m \<Longrightarrow>
    quic_go cx (now, s, c) (Q_conn Step) (now, s, c\<lparr>qc_phase := Q_panic m\<rparr>)"
| q_done: "qc_phase c = Q_done \<Longrightarrow> wg_Done s = Ret s' \<Longrightarrow>
    quic_go cx (now, s, c) (Q_conn Step) (now, s', c\<lparr>qc_phase := Q_gone\<rparr>)"
| q_done_panic: "qc_phase c = Q_done \<Longrightarrow> wg_Done s = Panic m \<Longrightarrow>
    quic_go cx (now, s, c) (Q_conn Step) (now, s, c\<lparr>qc_phase := Q_panic m\<rparr>)"
| q_accept: "qc_acceptor c \<Longrightarrow> srv_config s = Some config \<Longrightarrow>
    quic_go cx (now, s, c) Q_accept (now, s, c\<lparr>qc_streams := qc_streams c @ [S_read (NewFrameReader (MaxFrameSize config))]\<rparr>)"
| q_accept_end: "qc_acceptor c \<Longrightarrow> quic_go cx (now, s, c) Q_accept_failed (now, s, c\<lparr>qc_acceptor := False\<rparr>)"
| q_stream_read: "i < length (qc_streams c) \<Longrightarrow> qc_streams c ! i = S_read reader \<Longrightarrow> length data \<le> 4096 \<Longrightarrow>
    quic_go cx (now, s, c) (Q_stream i (Got data)) (now, s, c\<lparr>qc_streams := (qc_streams c)[i := S_parse (Feed reader data)]\<rparr>)"
| q_stream_end: "i < length (qc_streams c) \<Longrightarrow> qc_streams c ! i = S_read reader \<Longrightarrow>
    quic_go cx (now, s, c) (Q_stream i Hup) (now, s, c\<lparr>qc_streams := (qc_streams c)[i := S_close]\<rparr>)"
| q_stream_wait: "i < length (qc_streams c) \<Longrightarrow> qc_streams c ! i = S_parse reader \<Longrightarrow>
    ReadFrame reader = Ret (Inr None, reader') \<Longrightarrow>
    quic_go cx (now, s, c) (Q_stream i Step) (now, s, c\<lparr>qc_streams := (qc_streams c)[i := S_read reader']\<rparr>)"
| q_stream_bad: "i < length (qc_streams c) \<Longrightarrow> qc_streams c ! i = S_parse reader \<Longrightarrow>
    ReadFrame reader = Ret (Inl err, reader') \<Longrightarrow>
    quic_go cx (now, s, c) (Q_stream i Step) (now, s, c\<lparr>qc_streams := (qc_streams c)[i := S_close]\<rparr>)"
| q_stream_frame: "i < length (qc_streams c) \<Longrightarrow> qc_streams c ! i = S_parse reader \<Longrightarrow>
    ReadFrame reader = Ret (Inr (Some frame), reader') \<Longrightarrow>
    quic_go cx (now, s, c) (Q_stream i Step) (now, s, c\<lparr>qc_streams := (qc_streams c)[i := S_handle reader' frame]\<rparr>)"
| q_stream_panic: "i < length (qc_streams c) \<Longrightarrow> qc_streams c ! i = S_parse reader \<Longrightarrow> ReadFrame reader = Panic m \<Longrightarrow>
    quic_go cx (now, s, c) (Q_stream i Step) (now, s, c\<lparr>qc_streams := (qc_streams c)[i := S_panic m]\<rparr>)"
| q_stream_handle: "i < length (qc_streams c) \<Longrightarrow> qc_streams c ! i = S_handle reader frame \<Longrightarrow>
    qc_session c = Some session \<Longrightarrow> handleFrame (srv_crypto s) cx session frame Stream_writer = (session', out) \<Longrightarrow>
    quic_go cx (now, s, c) (Q_stream i Step) (now, s,
      c\<lparr>qc_streams := (qc_streams c)[i := (if out = [] then S_parse reader else S_write reader)], qc_session := Some session',
        qc_writes := qc_writes c @ map (Pair i) out\<rparr>)"
| q_stream_wrote: "i < length (qc_streams c) \<Longrightarrow> qc_streams c ! i = S_write reader \<Longrightarrow>
    quic_go cx (now, s, c) (Q_stream i Wrote) (now, s, c\<lparr>qc_streams := (qc_streams c)[i := S_parse reader]\<rparr>)"
| q_stream_close: "i < length (qc_streams c) \<Longrightarrow> qc_streams c ! i = S_close \<Longrightarrow>
    quic_go cx (now, s, c) (Q_stream i Step) (now, s, c\<lparr>qc_streams := (qc_streams c)[i := S_end]\<rparr>)"

subsection \<open>The running server\<close>

datatype stopping = SD_idle | SD_wait | SD_returned "error option"

record world =
  w_srv :: Server
  w_now :: time
  w_tcp :: loop
  w_quic :: loop
  w_conns :: "tcp_conn list"
  w_qconns :: "quic_conn list"
  w_stop :: stopping

text \<open>\<^verbatim>\<open>Start\<close> and the goroutines it leaves behind.\<close>

definition launch :: "time \<Rightarrow> Server \<Rightarrow> error + world" where
  "launch now s =
     (case Start s of
        (Some err, _) \<Rightarrow> Inl err
      | (None, s') \<Rightarrow>
          (case srv_config s of
             None \<Rightarrow> Inl ''server config is nil''
           | Some config \<Rightarrow>
               Inr \<lparr>w_srv = s', w_now = now,
                    w_tcp = (if TCPAddr config \<noteq> '''' then L_spawned else L_off),
                    w_quic = (if QUICAddr config \<noteq> '''' then L_spawned else L_off),
                    w_conns = [], w_qconns = [], w_stop = SD_idle\<rparr>))"

fun loop_crashed :: "loop \<Rightarrow> bool" where
  "loop_crashed (L_panic _) = True"
| "loop_crashed _ = False"

fun tcp_crashed :: "tcp_phase \<Rightarrow> bool" where
  "tcp_crashed (T_panic _) = True"
| "tcp_crashed _ = False"

fun stream_crashed :: "stream_phase \<Rightarrow> bool" where
  "stream_crashed (S_panic _) = True"
| "stream_crashed _ = False"

fun quic_crashed :: "quic_phase \<Rightarrow> bool" where
  "quic_crashed (Q_panic _) = True"
| "quic_crashed _ = False"

definition crashed :: "world \<Rightarrow> bool" where
  "crashed w \<longleftrightarrow> loop_crashed (w_tcp w) \<or> loop_crashed (w_quic w) \<or>
     list_ex (\<lambda>c. tcp_crashed (tc_phase c)) (w_conns w) \<or>
     list_ex (\<lambda>c. quic_crashed (qc_phase c) \<or> list_ex stream_crashed (qc_streams c)) (w_qconns w)"

datatype event =
  Ev_tcp loop_act
| Ev_quic loop_act
| Ev_conn nat io_act
| Ev_qconn nat quic_act
| Ev_clock time
| Ev_cleanup "string list"
| Ev_shutdown
| Ev_shutdown_returns "error option"

fun spawn_tcp :: "loop_act \<Rightarrow> tcp_conn list" where
  "spawn_tcp (L_conn addr) = [new_conn addr]"
| "spawn_tcp _ = []"

fun spawn_quic :: "loop_act \<Rightarrow> quic_conn list" where
  "spawn_quic (L_conn addr) = [new_quic]"
| "spawn_quic _ = []"

text \<open>
  One step of the server: of a goroutine, of the clock, of the limiter's clean-up, or of the caller of
  \<^verbatim>\<open>Shutdown\<close>, which waits for the wait group or for the end of its context.
\<close>

inductive world_step :: "codecs \<Rightarrow> bool \<Rightarrow> world \<Rightarrow> event \<Rightarrow> world \<Rightarrow> bool" for cx closed_is_net where
  w_step_tcp: "\<not> crashed w \<Longrightarrow> startTCP (w_tcp w, w_srv w) a (l, s) \<Longrightarrow>
    world_step cx closed_is_net w (Ev_tcp a) (w\<lparr>w_tcp := l, w_srv := s, w_conns := w_conns w @ spawn_tcp a\<rparr>)"
| w_step_quic: "\<not> crashed w \<Longrightarrow> startQUIC closed_is_net (w_quic w, w_srv w) a (l, s) \<Longrightarrow>
    world_step cx closed_is_net w (Ev_quic a) (w\<lparr>w_quic := l, w_srv := s, w_qconns := w_qconns w @ spawn_quic a\<rparr>)"
| w_step_conn: "\<not> crashed w \<Longrightarrow> i < length (w_conns w) \<Longrightarrow> tcp_go cx (w_now w, w_srv w, w_conns w ! i) a (t, s, c) \<Longrightarrow>
    world_step cx closed_is_net w (Ev_conn i a) (w\<lparr>w_now := t, w_srv := s, w_conns := (w_conns w)[i := c]\<rparr>)"
| w_step_qconn: "\<not> crashed w \<Longrightarrow> i < length (w_qconns w) \<Longrightarrow> quic_go cx (w_now w, w_srv w, w_qconns w ! i) a (t, s, c) \<Longrightarrow>
    world_step cx closed_is_net w (Ev_qconn i a) (w\<lparr>w_now := t, w_srv := s, w_qconns := (w_qconns w)[i := c]\<rparr>)"
| w_step_clock: "\<not> crashed w \<Longrightarrow> w_now w \<le> t \<Longrightarrow> world_step cx closed_is_net w (Ev_clock t) (w\<lparr>w_now := t\<rparr>)"
| w_step_cleanup: "\<not> crashed w \<Longrightarrow> iteration_order (perIPLimiters (srv_rateLimiter (w_srv w))) ord \<Longrightarrow>
    world_step cx closed_is_net w (Ev_cleanup ord)
      (w\<lparr>w_srv := (w_srv w)\<lparr>srv_rateLimiter := rl_cleanup (w_now w) ord (srv_rateLimiter (w_srv w))\<rparr>\<rparr>)"
| w_step_shutdown: "\<not> crashed w \<Longrightarrow> w_stop w = SD_idle \<Longrightarrow> Shutdown None (w_srv w) = (r, s) \<Longrightarrow>
    world_step cx closed_is_net w Ev_shutdown (w\<lparr>w_srv := s, w_stop := SD_wait\<rparr>)"
| w_step_stopped: "\<not> crashed w \<Longrightarrow> w_stop w = SD_wait \<Longrightarrow> srv_wg (w_srv w) = 0 \<Longrightarrow>
    world_step cx closed_is_net w (Ev_shutdown_returns None) (w\<lparr>w_stop := SD_returned None\<rparr>)"
| w_step_timeout: "\<not> crashed w \<Longrightarrow> w_stop w = SD_wait \<Longrightarrow>
    world_step cx closed_is_net w (Ev_shutdown_returns (Some err)) (w\<lparr>w_stop := SD_returned (Some err)\<rparr>)"

end
