(* ===== verification/WB_Lifecycle.thy ===== *)
theory WB_Lifecycle
  imports WB_Goroutines
begin

text \<open>
  What holds of the running server in every interleaving: the books of the wait group, the connection
  limiter and the registry of sessions always agree with the goroutines that are alive; no
  goroutine panics, and every one that has not returned and does not wait for the network can take a step.
\<close>

subsection \<open>What a goroutine holds\<close>

fun tcp_live :: "tcp_phase \<Rightarrow> bool" where
  "tcp_live T_gone = False"
| "tcp_live _ = True"

fun tcp_slot :: "tcp_phase \<Rightarrow> bool" where
  "tcp_slot T_start = False"
| "tcp_slot T_done = False"
| "tcp_slot T_gone = False"
| "tcp_slot (T_panic _) = False"
| "tcp_slot _ = True"

fun tcp_session :: "tcp_phase \<Rightarrow> Session option" where
  "tcp_session (T_open x) = Some x"
| "tcp_session (T_read _ _ x) = Some x"
| "tcp_session (T_parse _ _ x) = Some x"
| "tcp_session (T_limit _ _ x _) = Some x"
| "tcp_session (T_handle _ _ x _) = Some x"
| "tcp_session (T_write _ _ x) = Some x"
| "tcp_session (T_put _ x) = Some x"
| "tcp_session (T_close x) = Some x"
| "tcp_session _ = None"

fun tcp_reader :: "tcp_phase \<Rightarrow> FrameReader option" where
  "tcp_reader (T_read _ r _) = Some r"
| "tcp_reader (T_parse _ r _) = Some r"
| "tcp_reader (T_limit _ r _ _) = Some r"
| "tcp_reader (T_handle _ r _ _) = Some r"
| "tcp_reader (T_write _ r _) = Some r"
| "tcp_reader _ = None"

fun tcp_buffer :: "tcp_phase \<Rightarrow> bytes option" where
  "tcp_buffer (T_read b _ _) = Some b"
| "tcp_buffer (T_parse b _ _) = Some b"
| "tcp_buffer (T_limit b _ _ _) = Some b"
| "tcp_buffer (T_handle b _ _ _) = Some b"
| "tcp_buffer (T_write b _ _) = Some b"
| "tcp_buffer (T_put b _) = Some b"
| "tcp_buffer _ = None"

fun loop_live :: "loop \<Rightarrow> bool" where
  "loop_live L_off = False"
| "loop_live L_gone = False"
| "loop_live _ = True"

fun quic_live :: "quic_phase \<Rightarrow> bool" where
  "quic_live Q_gone = False"
| "quic_live _ = True"

fun quic_open :: "quic_phase \<Rightarrow> bool" where
  "quic_open Q_run = True"
| "quic_open Q_close = True"
| "quic_open _ = False"

fun stream_reader :: "stream_phase \<Rightarrow> FrameReader option" where
  "stream_reader (S_read r) = Some r"
| "stream_reader (S_parse r) = Some r"
| "stream_reader (S_handle r _) = Some r"
| "stream_reader (S_write r) = Some r"
| "stream_reader _ = None"

subsection \<open>Well-formed goroutines\<close>

definition limit_of :: "ServerConfig \<Rightarrow> u32" where
  "limit_of config = fr_maxLength (NewFrameReader (MaxFrameSize config))"

definition conn_ok :: "ServerConfig \<Rightarrow> tcp_conn \<Rightarrow> bool" where
  "conn_ok config c \<longleftrightarrow> \<not> tcp_crashed (tc_phase c) \<and>
     pred_option sess_queues_open (tcp_session (tc_phase c)) \<and>
     pred_option (\<lambda>r. fr_maxLength r = limit_of config) (tcp_reader (tc_phase c)) \<and>
     pred_option (\<lambda>b. length b = 8192) (tcp_buffer (tc_phase c)) \<and>
     (tc_closed c \<longrightarrow> tc_phase c = T_done \<or> tc_phase c = T_gone)"

definition stream_ok :: "ServerConfig \<Rightarrow> stream_phase \<Rightarrow> bool" where
  "stream_ok config p \<longleftrightarrow> \<not> stream_crashed p \<and> pred_option (\<lambda>r. fr_maxLength r = limit_of config) (stream_reader p)"

definition qconn_ok :: "ServerConfig \<Rightarrow> quic_conn \<Rightarrow> bool" where
  "qconn_ok config c \<longleftrightarrow> \<not> quic_crashed (qc_phase c) \<and> list_all (stream_ok config) (qc_streams c) \<and>
     (qc_phase c = Q_start \<longleftrightarrow> qc_session c = None) \<and>
     (qc_session c = None \<longrightarrow> \<not> qc_acceptor c \<and> qc_streams c = []) \<and>
     (quic_open (qc_phase c) \<longrightarrow> pred_option sess_queues_open (qc_session c))"

text \<open>The shared part, with the constants of \<^verbatim>\<open>NewServer\<close>.\<close>

definition srv_ok :: "ServerConfig \<Rightarrow> time \<Rightarrow> Server \<Rightarrow> bool" where
  "srv_ok config now s \<longleftrightarrow> srv_config s = Some config \<and> bp_ok 8192 (srv_bufferPool s) \<and>
     rl_ok now (srv_rateLimiter s) \<and> maxTokens (srv_rateLimiter s) = 1000 \<and> refillRate (srv_rateLimiter s) = 100 \<and>
     maxPerIP (srv_connLimiter s) = 10"

text \<open>What no goroutine of a connection touches.\<close>

definition srv_frame :: "Server \<Rightarrow> listener option \<times> listener option \<times> bool \<times> CryptoEngine" where
  "srv_frame s = (srv_tcpListener s, srv_quicListener s, srv_shutdown s, srv_crypto s)"

lemma ReadFrame_maxLength: "ReadFrame r = Ret (x, r') \<Longrightarrow> fr_maxLength r' = fr_maxLength r"
  by (auto simp: ReadFrame_def Let_def elim!: go_bind_RetE split: if_split_asm sum.split_asm)

lemma Feed_maxLength [simp]: "fr_maxLength (Feed r d) = fr_maxLength r"
  by (simp add: Feed_def)

lemma ReadFrame_returns:
  assumes "frame_limit_ok config" and "fr_maxLength r = limit_of config"
  shows "\<exists>x. ReadFrame r = Ret x"
proof -
  have r: "ReadFrame r = ReadFrame \<lparr>fr_buffer = fr_buffer r, fr_maxLength = fr_maxLength r\<rparr>" by (cases r) simp
  have "frame_parse (fr_maxLength r) (fr_buffer r) = Failed e \<Longrightarrow> \<exists>err. e = Ret err" for e
    using frame_parse_no_panic [of "fr_maxLength r"] assms NewFrameReader_limit
    by (simp add: frame_limit_ok_def limit_of_def)
  then show ?thesis unfolding r by (cases "ReadFrame \<lparr>fr_buffer = fr_buffer r, fr_maxLength = fr_maxLength r\<rparr>")
      (auto simp: frame_parse_def)
qed

lemma rl_AllowIP_params:
  "rl_AllowIP t1 t2 t3 ip rl = (b, rl') \<Longrightarrow> maxTokens rl' = maxTokens rl \<and> refillRate rl' = refillRate rl"
  using rl_AllowIP_others(1,2) [of t1 t2 t3 ip rl] by simp

lemma AllowConnection_max: "AllowConnection ip crl = (b, crl') \<Longrightarrow> maxPerIP crl' = maxPerIP crl"
  by (auto simp: AllowConnection_def Let_def split: if_split_asm)

lemma ReleaseConnection_max: "maxPerIP (ReleaseConnection ip crl) = maxPerIP crl"
  by (simp add: ReleaseConnection_def Let_def)

lemma createSession_fields:
  "createSession sid t s = (x, s') \<Longrightarrow> sess_queues_open x \<and> sess_ID x = sid \<and> s' = s\<lparr>srv_sessions := insert sid (srv_sessions s)\<rparr>"
  by (auto simp: createSession_def Let_def)

lemma handleFrame_keeps:
  "handleFrame ce cx x f w = (x', out) \<Longrightarrow> sess_queues_open x' = sess_queues_open x \<and> sess_ID x' = sess_ID x"
  using handleFrame_session [of ce cx x f w] by simp

lemma handleDatagram_keeps:
  "handleDatagram cx x d s = Ret (out, x') \<Longrightarrow> sess_queues_open x' = sess_queues_open x \<and> sess_ID x' = sess_ID x"
  by (auto simp: handleDatagram_def elim!: go_bind_RetE split: sum.split_asm prod.split_asm dest: handleFrame_keeps)

lemma handleDatagram_returns: "length d < 65536 \<Longrightarrow> handleDatagram cx x d s \<noteq> Panic m"
  using UnmarshalFrame_cases [of d]
  by (auto simp: handleDatagram_def split: sum.split prod.split option.split)

lemmas conn_facts = AllowConnection_max createSession_fields handleFrame_keeps rl_AllowIP_params ReadFrame_maxLength

text \<open>A step of a connection keeps the shared part and its own part well-formed.\<close>

lemma tcp_go_ok:
  assumes "tcp_go cx (now, s, c) a (now', s', c')" and "srv_ok config now s" and "conn_ok config c"
    and "frame_limit_ok config" and "tcp_live (tc_phase c) \<longrightarrow> 0 < srv_wg s"
  shows "srv_ok config now' s'" and "conn_ok config c'" and "now \<le> now'" and "srv_frame s' = srv_frame s"
    and "tc_addr c' = tc_addr c"
proof -
  note [simp] = srv_ok_def conn_ok_def srv_frame_def wg_Done_def
  from assms(1) show "now \<le> now'" by cases auto
  from assms(1) show "tc_addr c' = tc_addr c" by cases auto
  from assms(1) show "srv_frame s' = srv_frame s"
    by cases (auto dest: createSession_fields simp: closeSession_def Let_def split: if_split_asm)
  from assms(1) show "conn_ok config c'"
  proof cases
    case (go_setup session config' choice buf bp)
    then show ?thesis using assms bp_Get_ok [of 8192 _ choice buf bp] by (auto simp: limit_of_def)
  next
    case (go_frame_panic buf reader session m)
    then show ?thesis using ReadFrame_returns [OF assms(4), of reader] assms(3) by auto
  qed (use assms(2-) in \<open>auto dest!: conn_facts simp: closeSession_once\<close>)
  from assms(1) show "srv_ok config now' s'"
  proof cases
    case (go_setup session config' choice buf bp)
    then show ?thesis using assms bp_Get_ok [of 8192 _ choice buf bp] by (auto intro: rl_ok_later)
  next
    case (go_limited buf reader session frame t1 t2 rl)
    then show ?thesis using assms rl_AllowIP_ok [of now _ t1 t2 now'] by (auto dest: rl_AllowIP_params)
  next
    case (go_allowed buf reader session frame t1 t2 rl)
    then show ?thesis using assms rl_AllowIP_ok [of now _ t1 t2 now'] by (auto dest: rl_AllowIP_params)
  qed (use assms(2-) in \<open>auto dest!: conn_facts intro: rl_ok_later bp_Put_ok simp: ReleaseConnection_max closeSession_once\<close>)
qed

text \<open>What it holds in the wait group, the connection limiter and the registry.\<close>

definition slot_of :: "tcp_conn \<Rightarrow> string multiset" where
  "slot_of c = (if tcp_slot (tc_phase c) then {#tc_addr c#} else {#})"

definition ids_of :: "tcp_conn \<Rightarrow> string set" where
  "ids_of c = (case tcp_session (tc_phase c) of None \<Rightarrow> {} | Some x \<Rightarrow> {sess_ID x})"

definition qids_of :: "quic_conn \<Rightarrow> string set" where
  "qids_of c = (if quic_open (qc_phase c) then (case qc_session c of None \<Rightarrow> {} | Some x \<Rightarrow> {sess_ID x}) else {})"

lemma tcp_go_wg:
  assumes "tcp_go cx (now, s, c) a (now', s', c')" and "conn_ok config c" and "tcp_live (tc_phase c) \<longrightarrow> 0 < srv_wg s"
  shows "srv_wg s' + of_bool (tcp_live (tc_phase c)) = srv_wg s + of_bool (tcp_live (tc_phase c'))"
  using assms(1)
  by cases (use assms(2,3) in \<open>auto dest!: createSession_fields simp: wg_Done_def conn_ok_def closeSession_once\<close>)

lemma tcp_go_slots:
  assumes "tcp_go cx (now, s, c) a (now', s', c')" and "conn_ok config c" and "crl_abs (M + slot_of c) (srv_connLimiter s)"
    and "tcp_live (tc_phase c) \<longrightarrow> 0 < srv_wg s" and "frame_limit_ok config" and "srv_config s = Some config"
  shows "crl_abs (M + slot_of c') (srv_connLimiter s')"
  using assms(1)
proof cases
  case (go_refused crl)
  then show ?thesis
    using AllowConnection_refines [OF assms(3), of "tc_addr c"] assms(3)
    by (auto simp: slot_of_def spec_allow_def split: if_split_asm)
next
  case (go_admitted crl)
  then show ?thesis
    using AllowConnection_refines [OF assms(3), of "tc_addr c"]
    by (auto simp: slot_of_def spec_allow_def split: if_split_asm)
next
  case (go_frame_panic buf reader session m)
  then show ?thesis using ReadFrame_returns [OF assms(5), of reader] assms(2) by (auto simp: conn_ok_def)
next
  case go_release
  then show ?thesis
    using ReleaseConnection_refines(1) [OF assms(3), of "tc_addr c"] by (simp add: slot_of_def spec_release_def)
qed (use assms(2-) in \<open>auto dest!: createSession_fields simp: slot_of_def wg_Done_def conn_ok_def closeSession_once\<close>)

lemma tcp_go_sessions:
  assumes "tcp_go cx (now, s, c) a (now', s', c')" and "conn_ok config c" and "srv_sessions s \<subseteq> A \<union> ids_of c"
    and "frame_limit_ok config" and "tcp_live (tc_phase c) \<longrightarrow> 0 < srv_wg s" and "srv_config s = Some config"
  shows "srv_sessions s' \<subseteq> A \<union> ids_of c'"
  using assms(1)
proof cases
  case (go_frame_panic buf reader session m)
  then show ?thesis using ReadFrame_returns [OF assms(4), of reader] assms(2) by (auto simp: conn_ok_def)
qed (use assms(2-) in \<open>auto dest!: createSession_fields handleFrame_keeps simp: ids_of_def wg_Done_def conn_ok_def closeSession_once\<close>)

text \<open>The same for QUIC connections.\<close>

lemma quic_go_ok:
  assumes "quic_go cx (now, s, c) a (now', s', c')" and "srv_ok config now s" and "qconn_ok config c"
    and "frame_limit_ok config" and "quic_live (qc_phase c) \<longrightarrow> 0 < srv_wg s"
  shows "srv_ok config now' s' \<and> qconn_ok config c' \<and> now \<le> now' \<and> srv_frame s' = srv_frame s \<and>
    srv_wg s' + of_bool (quic_live (qc_phase c)) = srv_wg s + of_bool (quic_live (qc_phase c')) \<and>
    srv_connLimiter s' = srv_connLimiter s \<and> srv_rateLimiter s' = srv_rateLimiter s"
proof -
  note [simp] = srv_ok_def qconn_ok_def srv_frame_def wg_Done_def stream_ok_def list_all_length nth_list_update
  from assms(1) show ?thesis
  proof cases
    case (q_stream_panic i reader m)
    then show ?thesis using ReadFrame_returns [OF assms(4), of reader] assms(3) by fastforce
  qed (use assms(2-) in \<open>force dest: createSession_fields handleFrame_keeps handleDatagram_keeps handleDatagram_returns
        ReadFrame_maxLength intro: rl_ok_later simp: closeSession_once limit_of_def nth_append\<close>)+
qed

lemma quic_go_sessions:
  assumes "quic_go cx (now, s, c) a (now', s', c')" and "qconn_ok config c" and "srv_sessions s \<subseteq> A \<union> qids_of c"
    and "quic_live (qc_phase c) \<longrightarrow> 0 < srv_wg s"
  shows "srv_sessions s' \<subseteq> A \<union> qids_of c'"
  using assms(1)
  by cases (use assms(2-) in \<open>auto dest!: createSession_fields handleFrame_keeps handleDatagram_keeps handleDatagram_returns
    simp: qids_of_def wg_Done_def qconn_ok_def closeSession_once split: if_split_asm option.split_asm\<close>)

subsection \<open>The whole server\<close>

definition live_count :: "world \<Rightarrow> nat" where
  "live_count w = of_bool (loop_live (w_tcp w)) + of_bool (loop_live (w_quic w)) +
     sum_list (map (\<lambda>c. of_bool (tcp_live (tc_phase c))) (w_conns w)) +
     sum_list (map (\<lambda>c. of_bool (quic_live (qc_phase c))) (w_qconns w))"

definition slots :: "world \<Rightarrow> string multiset" where
  "slots w = sum_list (map slot_of (w_conns w))"

definition open_ids :: "world \<Rightarrow> string set" where
  "open_ids w = (\<Union>c \<in> set (w_conns w). ids_of c) \<union> (\<Union>c \<in> set (w_qconns w). qids_of c)"

definition world_ok :: "ServerConfig \<Rightarrow> world \<Rightarrow> bool" where
  "world_ok config w \<longleftrightarrow> srv_ok config (w_now w) (w_srv w) \<and>
     \<not> loop_crashed (w_tcp w) \<and> \<not> loop_crashed (w_quic w) \<and>
     list_all (conn_ok config) (w_conns w) \<and> list_all (qconn_ok config) (w_qconns w) \<and>
     srv_wg (w_srv w) = live_count w \<and> crl_abs (slots w) (srv_connLimiter (w_srv w)) \<and>
     srv_sessions (w_srv w) \<subseteq> open_ids w"

lemma world_ok_not_crashed: "world_ok config w \<Longrightarrow> \<not> crashed w"
  by (auto simp: world_ok_def crashed_def list_all_iff list_ex_iff conn_ok_def qconn_ok_def stream_ok_def)

text \<open>A configuration with which a server can run: certificates, and a frame limit away from the wrap-around.\<close>

definition usable :: "ServerConfig \<Rightarrow> bool" where
  "usable config \<longleftrightarrow> frame_limit_ok config \<and> (\<exists>tc. TLSConfig config = Any_tls tc)"

text \<open>What the accept loops do to the shared part.\<close>

lemma startTCP_effect:
  assumes "startTCP (l, s) a (l', s')" and "loop_live l \<longrightarrow> 0 < srv_wg s" and "srv_config s = Some config"
    and "\<exists>tc. TLSConfig config = Any_tls tc" and "\<not> loop_crashed l"
  shows "\<not> loop_crashed l' \<and> (\<exists>lst. s' = s\<lparr>srv_tcpListener := lst, srv_wg := srv_wg s'\<rparr>) \<and>
    srv_wg s' + of_bool (loop_live l) = srv_wg s + of_bool (loop_live l') + length (spawn_tcp a)"
  using assms(1) by cases (use assms(2-) in \<open>auto simp: wg_Done_def listen_config_def
    intro: exI [of _ "srv_tcpListener s"] split: if_split_asm\<close>)

lemma startQUIC_effect:
  assumes "startQUIC b (l, s) a (l', s')" and "loop_live l \<longrightarrow> 0 < srv_wg s" and "srv_config s = Some config"
    and "\<exists>tc. TLSConfig config = Any_tls tc" and "\<not> loop_crashed l"
  shows "\<not> loop_crashed l' \<and> (\<exists>lst. s' = s\<lparr>srv_quicListener := lst, srv_wg := srv_wg s'\<rparr>) \<and>
    srv_wg s' + of_bool (loop_live l) = srv_wg s + of_bool (loop_live l') + length (spawn_quic a)"
  using assms(1) by cases (use assms(2-) in \<open>auto simp: wg_Done_def listen_config_def
    intro: exI [of _ "srv_quicListener s"] split: if_split_asm\<close>)

lemma spawn_ok:
  "list_all (conn_ok config) (spawn_tcp a)" "sum_list (map slot_of (spawn_tcp a)) = {#}" "(\<Union>c \<in> set (spawn_tcp a). ids_of c) = {}"
  "sum_list (map (\<lambda>c. of_bool (tcp_live (tc_phase c))) (spawn_tcp a)) = length (spawn_tcp a)"
  "list_all (qconn_ok config) (spawn_quic a)" "(\<Union>c \<in> set (spawn_quic a). qids_of c) = {}"
  "sum_list (map (\<lambda>c. of_bool (quic_live (qc_phase c))) (spawn_quic a)) = length (spawn_quic a)"
  by (cases a; simp add: new_conn_def new_quic_def conn_ok_def qconn_ok_def slot_of_def ids_of_def qids_of_def)+

text \<open>One element of a list of goroutines, and the list after its step.\<close>

lemma nth_split:
  assumes "i < length xs"
  obtains ys zs where "xs = ys @ xs ! i # zs" and "\<And>x. xs[i := x] = ys @ x # zs" and "length ys = i"
  using assms id_take_nth_drop [OF assms] upd_conv_take_nth_drop [OF assms] by (metis length_take min.absorb4)

lemma live_count_0:
  "live_count w = 0 \<longleftrightarrow> \<not> loop_live (w_tcp w) \<and> \<not> loop_live (w_quic w) \<and>
     (\<forall>c \<in> set (w_conns w). \<not> tcp_live (tc_phase c)) \<and> (\<forall>c \<in> set (w_qconns w). \<not> quic_live (qc_phase c))"
  by (auto simp: live_count_def sum_list_eq_0_iff)

lemma live_positive:
  "c \<in> set (w_conns w) \<Longrightarrow> tcp_live (tc_phase c) \<Longrightarrow> 0 < live_count w"
  "q \<in> set (w_qconns w) \<Longrightarrow> quic_live (qc_phase q) \<Longrightarrow> 0 < live_count w"
  "loop_live (w_tcp w) \<Longrightarrow> 0 < live_count w"
  "loop_live (w_quic w) \<Longrightarrow> 0 < live_count w"
  using live_count_0 [of w] by (auto intro: gr0I)

text \<open>Every step keeps the books.\<close>

lemma world_ok_conn:
  assumes "world_ok config w" and "usable config" and "i < length (w_conns w)"
    and "tcp_go cx (w_now w, w_srv w, w_conns w ! i) a (t, s, c)"
  shows "world_ok config (w\<lparr>w_now := t, w_srv := s, w_conns := (w_conns w)[i := c]\<rparr>)"
proof -
  obtain ys zs where l: "w_conns w = ys @ w_conns w ! i # zs" and u: "\<And>x. (w_conns w)[i := x] = ys @ x # zs"
    using nth_split [OF assms(3)] by blast
  define c0 where "c0 = w_conns w ! i"
  note l = l [folded c0_def] and go = assms(4) [folded c0_def]
  have ok: "conn_ok config c0" and pos: "tcp_live (tc_phase c0) \<longrightarrow> 0 < srv_wg (w_srv w)"
    using assms(1,3) live_positive(1) [of c0 w] by (auto simp: world_ok_def c0_def list_all_length)
  have s: "srv_ok config (w_now w) (w_srv w)" and lim: "frame_limit_ok config" and cfg: "srv_config (w_srv w) = Some config"
    using assms(1,2) by (auto simp: world_ok_def usable_def srv_ok_def)
  note step = tcp_go_ok [OF go s ok lim pos]
  have "crl_abs (sum_list (map slot_of (ys @ zs)) + slot_of c0) (srv_connLimiter (w_srv w))"
    using assms(1) l by (simp add: world_ok_def slots_def ac_simps)
  from tcp_go_slots [OF go ok this pos lim cfg]
  have "crl_abs (slots (w\<lparr>w_now := t, w_srv := s, w_conns := (w_conns w)[i := c]\<rparr>)) (srv_connLimiter s)"
    by (simp add: slots_def u ac_simps)
  moreover have "srv_sessions (w_srv w) \<subseteq> (\<Union>x \<in> set (ys @ zs). ids_of x) \<union> (\<Union>x \<in> set (w_qconns w). qids_of x) \<union> ids_of c0"
    using assms(1) unfolding world_ok_def open_ids_def by (subst (asm) l) auto
  from tcp_go_sessions [OF go ok this lim pos cfg]
  have "srv_sessions s \<subseteq> open_ids (w\<lparr>w_now := t, w_srv := s, w_conns := (w_conns w)[i := c]\<rparr>)"
    by (auto simp: open_ids_def u)
  moreover have "srv_wg s = live_count (w\<lparr>w_now := t, w_srv := s, w_conns := (w_conns w)[i := c]\<rparr>)"
  proof -
    have "live_count w + of_bool (tcp_live (tc_phase c)) =
        live_count (w\<lparr>w_now := t, w_srv := s, w_conns := (w_conns w)[i := c]\<rparr>) + of_bool (tcp_live (tc_phase c0))"
      unfolding live_count_def by (subst l) (simp add: u)
    then show ?thesis using tcp_go_wg [OF go ok pos] assms(1) by (simp add: world_ok_def)
  qed
  moreover have "list_all (conn_ok config) ((w_conns w)[i := c])"
    using assms(1) step(2) unfolding u world_ok_def by (subst (asm) l) simp
  ultimately show ?thesis using assms(1) step(1) by (simp add: world_ok_def)
qed

lemma world_ok_qconn:
  assumes "world_ok config w" and "usable config" and "i < length (w_qconns w)"
    and "quic_go cx (w_now w, w_srv w, w_qconns w ! i) a (t, s, c)"
  shows "world_ok config (w\<lparr>w_now := t, w_srv := s, w_qconns := (w_qconns w)[i := c]\<rparr>)"
proof -
  obtain ys zs where l: "w_qconns w = ys @ w_qconns w ! i # zs" and u: "\<And>x. (w_qconns w)[i := x] = ys @ x # zs"
    using nth_split [OF assms(3)] by blast
  define c0 where "c0 = w_qconns w ! i"
  note l = l [folded c0_def] and go = assms(4) [folded c0_def]
  have ok: "qconn_ok config c0" and pos: "quic_live (qc_phase c0) \<longrightarrow> 0 < srv_wg (w_srv w)"
    using assms(1,3) live_positive(2) [of c0 w] by (auto simp: world_ok_def c0_def list_all_length)
  have s: "srv_ok config (w_now w) (w_srv w)" and lim: "frame_limit_ok config"
    using assms(1,2) by (auto simp: world_ok_def usable_def)
  note step = quic_go_ok [OF go s ok lim pos]
  have "srv_sessions (w_srv w) \<subseteq> (\<Union>x \<in> set (w_conns w). ids_of x) \<union> (\<Union>x \<in> set (ys @ zs). qids_of x) \<union> qids_of c0"
    using assms(1) unfolding world_ok_def open_ids_def by (subst (asm) l) auto
  from quic_go_sessions [OF go ok this pos]
  have "srv_sessions s \<subseteq> open_ids (w\<lparr>w_now := t, w_srv := s, w_qconns := (w_qconns w)[i := c]\<rparr>)"
    by (auto simp: open_ids_def u)
  moreover have "srv_wg s = live_count (w\<lparr>w_now := t, w_srv := s, w_qconns := (w_qconns w)[i := c]\<rparr>)"
  proof -
    have "live_count w + of_bool (quic_live (qc_phase c)) =
        live_count (w\<lparr>w_now := t, w_srv := s, w_qconns := (w_qconns w)[i := c]\<rparr>) + of_bool (quic_live (qc_phase c0))"
      unfolding live_count_def by (subst l) (simp add: u)
    then show ?thesis using step assms(1) by (simp add: world_ok_def)
  qed
  moreover have "list_all (qconn_ok config) ((w_qconns w)[i := c])"
    using assms(1) step unfolding u world_ok_def by (subst (asm) l) simp
  ultimately show ?thesis using assms(1) step by (simp add: world_ok_def slots_def)
qed

lemma srv_ok_update:
  "srv_ok config now (s\<lparr>srv_tcpListener := l, srv_wg := n\<rparr>) = srv_ok config now s"
  "srv_ok config now (s\<lparr>srv_quicListener := l, srv_wg := n\<rparr>) = srv_ok config now s"
  by (simp_all add: srv_ok_def)

lemma world_ok_tcp:
  assumes "world_ok config w" and "usable config" and "startTCP (w_tcp w, w_srv w) a (l, s)"
  shows "world_ok config (w\<lparr>w_tcp := l, w_srv := s, w_conns := w_conns w @ spawn_tcp a\<rparr>)"
proof -
  have "loop_live (w_tcp w) \<longrightarrow> 0 < srv_wg (w_srv w)" "srv_config (w_srv w) = Some config"
      "\<exists>tc. TLSConfig config = Any_tls tc" "\<not> loop_crashed (w_tcp w)"
    using assms(1,2) live_positive(3) [of w] by (auto simp: world_ok_def srv_ok_def usable_def)
  from startTCP_effect [OF assms(3) this] obtain lst where e: "\<not> loop_crashed l"
      "s = (w_srv w)\<lparr>srv_tcpListener := lst, srv_wg := srv_wg s\<rparr>"
      "srv_wg s + of_bool (loop_live (w_tcp w)) = srv_wg (w_srv w) + of_bool (loop_live l) + length (spawn_tcp a)"
    by blast
  have "srv_ok config (w_now w) s" "srv_connLimiter s = srv_connLimiter (w_srv w)" "srv_sessions s = srv_sessions (w_srv w)"
    using assms(1) by (subst e(2), simp add: srv_ok_update world_ok_def)+
  moreover have "srv_wg s = live_count (w\<lparr>w_tcp := l, w_srv := s, w_conns := w_conns w @ spawn_tcp a\<rparr>)"
    using e(3) assms(1) by (simp add: world_ok_def live_count_def spawn_ok)
  ultimately show ?thesis using e(1) assms(1) by (simp add: world_ok_def spawn_ok slots_def open_ids_def)
qed

lemma world_ok_quic:
  assumes "world_ok config w" and "usable config" and "startQUIC b (w_quic w, w_srv w) a (l, s)"
  shows "world_ok config (w\<lparr>w_quic := l, w_srv := s, w_qconns := w_qconns w @ spawn_quic a\<rparr>)"
proof -
  have "loop_live (w_quic w) \<longrightarrow> 0 < srv_wg (w_srv w)" "srv_config (w_srv w) = Some config"
      "\<exists>tc. TLSConfig config = Any_tls tc" "\<not> loop_crashed (w_quic w)"
    using assms(1,2) live_positive(4) [of w] by (auto simp: world_ok_def srv_ok_def usable_def)
  from startQUIC_effect [OF assms(3) this] obtain lst where e: "\<not> loop_crashed l"
      "s = (w_srv w)\<lparr>srv_quicListener := lst, srv_wg := srv_wg s\<rparr>"
      "srv_wg s + of_bool (loop_live (w_quic w)) = srv_wg (w_srv w) + of_bool (loop_live l) + length (spawn_quic a)"
    by blast
  have "srv_ok config (w_now w) s" "srv_connLimiter s = srv_connLimiter (w_srv w)" "srv_sessions s = srv_sessions (w_srv w)"
    using assms(1) by (subst e(2), simp add: srv_ok_update world_ok_def)+
  moreover have "srv_wg s = live_count (w\<lparr>w_quic := l, w_srv := s, w_qconns := w_qconns w @ spawn_quic a\<rparr>)"
    using e(3) assms(1) by (simp add: world_ok_def live_count_def spawn_ok)
  ultimately show ?thesis using e(1) assms(1) by (simp add: world_ok_def spawn_ok slots_def open_ids_def)
qed

text \<open>What does not touch the goroutines.\<close>

lemma world_ok_shared:
  assumes "world_ok config w" and "srv_ok config now s" and "srv_wg s = srv_wg (w_srv w)"
    and "srv_connLimiter s = srv_connLimiter (w_srv w)" and "srv_sessions s = srv_sessions (w_srv w)"
  shows "world_ok config (w\<lparr>w_srv := s, w_now := now, w_stop := st\<rparr>)"
  using assms by (simp add: world_ok_def live_count_def slots_def open_ids_def)

lemma close_listeners_eq:
  "close_listeners s = s\<lparr>srv_tcpListener := map_option (\<lambda>_. Closed) (srv_tcpListener s),
     srv_quicListener := map_option (\<lambda>_. Closed) (srv_quicListener s)\<rparr>"
  by (cases s; cases "srv_tcpListener s"; cases "srv_quicListener s") (simp_all add: close_listeners_def Let_def)

lemma Shutdown_fields:
  "Shutdown e s = (r, s') \<Longrightarrow> srv_wg s' = srv_wg s \<and> srv_connLimiter s' = srv_connLimiter s \<and> srv_sessions s' = srv_sessions s \<and>
     (srv_ok config now s' \<longleftrightarrow> srv_ok config now s)"
  by (auto simp: Shutdown_def close_listeners_eq srv_ok_def Let_def split: if_split_asm)

lemma world_ok_step:
  assumes "world_ok config w" and "usable config" and "world_step cx b w e w'"
  shows "world_ok config w'"
  using assms(3)
proof cases
  case (w_step_tcp a l s)
  then show ?thesis using world_ok_tcp [OF assms(1,2)] by simp
next
  case (w_step_quic a l s)
  then show ?thesis using world_ok_quic [OF assms(1,2)] by simp
next
  case (w_step_conn i a t s c)
  then show ?thesis using world_ok_conn [OF assms(1,2)] by simp
next
  case (w_step_qconn i a t s c)
  then show ?thesis using world_ok_qconn [OF assms(1,2)] by simp
next
  case (w_step_clock t)
  have "srv_ok config t (w_srv w)" using assms(1) w_step_clock by (auto simp: world_ok_def srv_ok_def intro: rl_ok_later)
  from world_ok_shared [OF assms(1) this, of "w_stop w"] show ?thesis using w_step_clock by simp
next
  case (w_step_cleanup ord)
  let ?s = "(w_srv w)\<lparr>srv_rateLimiter := rl_cleanup (w_now w) ord (srv_rateLimiter (w_srv w))\<rparr>"
  have "srv_ok config (w_now w) ?s" using assms(1) rl_cleanup_ok [of "w_now w" _ "w_now w" ord]
    by (auto simp: world_ok_def srv_ok_def) (simp_all add: rl_cleanup_def)
  from world_ok_shared [OF assms(1) this, of "w_stop w"] show ?thesis using w_step_cleanup by simp
next
  case (w_step_shutdown r s)
  note f = Shutdown_fields [OF w_step_shutdown(5), of config "w_now w"]
  have "srv_ok config (w_now w) s" using assms(1) f by (simp add: world_ok_def)
  from world_ok_shared [OF assms(1) this, of SD_wait] show ?thesis using f w_step_shutdown by simp
qed (use world_ok_shared [OF assms(1), of "w_now w" "w_srv w"] assms(1) in \<open>auto simp: world_ok_def\<close>)

interpretation server: invariant_system "world_step cx b" "\<lambda>w. usable config \<and> world_ok config w" for cx b config
  by unfold_locales (auto intro: world_ok_step)

subsection \<open>From the start\<close>

text \<open>A world that \<^verbatim>\<open>NewServer\<close> and \<^verbatim>\<open>Start\<close> have produced, and those it can become.\<close>

definition started :: "ServerConfig \<Rightarrow> world \<Rightarrow> bool" where
  "started config w \<longleftrightarrow> usable config \<and> (\<exists>ce t0 t0' s now. NewServer (Inr ce) t0 t0' (Some config) = Inr s \<and> t0 \<le> now \<and>
     launch now s = Inr w)"

lemma started_cases:
  assumes "started config w"
  obtains ce t0 t0' s now where "NewServer (Inr ce) t0 t0' (Some config) = Inr s" and "t0 \<le> now"
    and "w_srv w = s\<lparr>srv_wg := of_bool (TCPAddr config \<noteq> '''') + of_bool (QUICAddr config \<noteq> '''')\<rparr>" and "w_now w = now"
    and "w_tcp w = (if TCPAddr config \<noteq> '''' then L_spawned else L_off)"
    and "w_quic w = (if QUICAddr config \<noteq> '''' then L_spawned else L_off)"
    and "w_conns w = []" and "w_qconns w = []" and "w_stop w = SD_idle"
proof -
  obtain ce t0 t0' s now where n: "NewServer (Inr ce) t0 t0' (Some config) = Inr s" "t0 \<le> now" "launch now s = Inr w"
    using assms by (auto simp: started_def)
  from n(1) have s: "srv_config s = Some config" "srv_wg s = 0" by (auto simp: NewServer_def)
  have e: "\<not> (QUICAddr config = '''' \<and> TCPAddr config = '''')"
    using n(3) s by (auto simp: launch_def Start_def)
  with n(3) s have "w = \<lparr>w_srv = s\<lparr>srv_wg := of_bool (TCPAddr config \<noteq> '''') + of_bool (QUICAddr config \<noteq> '''')\<rparr>, w_now = now,
       w_tcp = (if TCPAddr config \<noteq> '''' then L_spawned else L_off),
       w_quic = (if QUICAddr config \<noteq> '''' then L_spawned else L_off), w_conns = [], w_qconns = [], w_stop = SD_idle\<rparr>"
    by (cases "QUICAddr config = ''''"; cases "TCPAddr config = ''''") (auto simp: launch_def Start_def Let_def)
  with that [OF n(1,2)] show ?thesis by simp
qed

lemma started_ok:
  assumes "started config w"
  shows "usable config \<and> world_ok config w"
proof -
  have u: "usable config" using assms by (simp add: started_def)
  show ?thesis
  proof (rule started_cases [OF assms])
    fix ce t0 t0' s now
    assume n: "NewServer (Inr ce) t0 t0' (Some config) = Inr s" "t0 \<le> now"
      and w: "w_srv w = s\<lparr>srv_wg := of_bool (TCPAddr config \<noteq> '''') + of_bool (QUICAddr config \<noteq> '''')\<rparr>" "w_now w = now"
        "w_tcp w = (if TCPAddr config \<noteq> '''' then L_spawned else L_off)"
        "w_quic w = (if QUICAddr config \<noteq> '''' then L_spawned else L_off)" "w_conns w = []" "w_qconns w = []"
    have s: "srv_config s = Some config" "srv_bufferPool s = NewBufferPool 8192" "srv_sessions s = {}"
        "srv_rateLimiter s = NewRateLimiter t0 1000 100" "srv_connLimiter s = NewConnectionRateLimiter 10"
      using n(1) by (auto simp: NewServer_def)
    have "rl_ok now (NewRateLimiter t0 1000 100)"
      by (rule rl_ok_later [OF NewRateLimiter_ok n(2)]) simp_all
    moreover have "bp_ok 8192 (NewBufferPool 8192)" by (simp add: bp_ok_def NewBufferPool_def)
    moreover have "crl_abs {#} (NewConnectionRateLimiter 10)"
      by (simp add: crl_abs_def NewConnectionRateLimiter_def in_i64_def)
    ultimately show ?thesis
      using u s by (simp add: world_ok_def srv_ok_def w live_count_def slots_def) (simp add: NewRateLimiter_def NewConnectionRateLimiter_def)
  qed
qed

lemma reachable_ok:
  assumes "started config w0" and "run (world_step cx b) w0 ls w"
  shows "usable config" and "world_ok config w"
  using server.inv_run [OF assms(2), of config] started_ok [OF assms(1)] by auto

lemma sum_list_empty: "\<forall>x \<in> set xs. f x = {#} \<Longrightarrow> sum_list (map f xs) = {#}"
  by (induction xs) auto

text \<open>Once the wait group is empty every goroutine of it has returned and nothing is held.\<close>

lemma books_closed:
  assumes "world_ok config w" and "srv_wg (w_srv w) = 0"
  shows "srv_sessions (w_srv w) = {} \<and> connections (srv_connLimiter (w_srv w)) = Map.empty \<and>
    list_all (\<lambda>c. tc_phase c = T_gone) (w_conns w)"
proof -
  have 0: "live_count w = 0" using assms by (simp add: world_ok_def)
  have d: "tc_phase x = T_gone" "slot_of x = {#}" "ids_of x = {}" if "\<not> tcp_live (tc_phase x)" for x
    using that by (cases "tc_phase x"; simp add: slot_of_def ids_of_def)+
  moreover have "qids_of x = {}" if "\<not> quic_live (qc_phase x)" for x using that by (cases "qc_phase x") (simp_all add: qids_of_def)
  ultimately have "slots w = {#}" "open_ids w = {}"
    using 0 unfolding live_count_0 slots_def open_ids_def by (auto intro!: sum_list_empty)
  then show ?thesis using assms 0 d by (auto simp: world_ok_def crl_abs_def live_count_0 list_all_iff)
qed

text \<open>C4: The books of the server are right in every interleaving of its goroutines, with any traffic: the wait
  group counts exactly the accept loops and connection handlers that have not returned; the connection
  limiter counts, for every address, exactly the TCP connections between admission and release, never more
  than ten; every registered session belongs to a connection that is still open.  When the last goroutine
  has returned, the registry and the limiter are empty.\<close>

theorem server_accounting:
  assumes "started config w0" and "run (world_step cx b) w0 ls w"
  shows "srv_wg (w_srv w) = live_count w \<and>
    (\<forall>ip. GetConnectionCount ip (srv_connLimiter (w_srv w)) = int (count (slots w) ip) \<and> count (slots w) ip \<le> 10) \<and>
    srv_sessions (w_srv w) \<subseteq> open_ids w \<and>
    (srv_wg (w_srv w) = 0 \<longrightarrow> srv_sessions (w_srv w) = {} \<and> connections (srv_connLimiter (w_srv w)) = Map.empty)"
proof -
  have ok: "world_ok config w" by (rule reachable_ok(2) [OF assms])
  then have c: "crl_abs (slots w) (srv_connLimiter (w_srv w))" and m: "maxPerIP (srv_connLimiter (w_srv w)) = 10"
    by (simp_all add: world_ok_def srv_ok_def)
  have "int (count (slots w) ip) \<le> max 0 10" for ip using c m by (simp add: crl_abs_def)
  then have "count (slots w) ip \<le> 10" for ip by (metis max_def of_nat_le_iff of_nat_numeral zero_le_numeral)
  then show ?thesis using ok books_closed [OF ok] crl_abs_count [OF c] by (auto simp: world_ok_def GetConnectionCount_def)
qed

subsection \<open>No goroutine gets stuck\<close>

text \<open>A handler that waits for the network: in \<^verbatim>\<open>Read\<close> before the deadline, or in \<^verbatim>\<open>Write\<close>.\<close>

fun tcp_writing :: "tcp_phase \<Rightarrow> bool" where
  "tcp_writing (T_write _ _ _) = True"
| "tcp_writing _ = False"

definition tcp_waiting :: "time \<Rightarrow> tcp_conn \<Rightarrow> bool" where
  "tcp_waiting now c \<longleftrightarrow> (case tc_phase c of T_read _ _ _ \<Rightarrow> now < tc_deadline c | p \<Rightarrow> tcp_writing p)"

fun stream_live :: "stream_phase \<Rightarrow> bool" where
  "stream_live S_end = False"
| "stream_live _ = True"

fun stream_waiting :: "stream_phase \<Rightarrow> bool" where
  "stream_waiting (S_read _) = True"
| "stream_waiting (S_write _) = True"
| "stream_waiting _ = False"

lemma tcp_go_progress:
  assumes "conn_ok config c" and "srv_config s = Some config" and "frame_limit_ok config" and "0 < srv_wg s"
    and "tcp_live (tc_phase c)" and "\<not> tcp_waiting now c"
  shows "\<exists>now' s' c'. tcp_go cx (now, s, c) Step (now', s', c')"
proof (cases "tc_phase c")
  case T_start
  then show ?thesis
    by (cases "AllowConnection (tc_addr c) (srv_connLimiter s)"; cases "fst (AllowConnection (tc_addr c) (srv_connLimiter s))")
      (auto dest: go_refused go_admitted)
next
  case T_admitted
  obtain x s' where "createSession [] now s = (x, s')" by (metis surj_pair)
  from go_session [OF T_admitted order_refl this] show ?thesis by blast
next
  case (T_open session)
  obtain buf bp where "bp_Get None (srv_bufferPool s) = (buf, bp)" by (metis surj_pair)
  from go_setup [OF T_open order_refl assms(2) this] show ?thesis by blast
next
  case (T_parse buf reader session)
  obtain x reader' where r: "ReadFrame reader = Ret (x, reader')"
    using ReadFrame_returns [OF assms(3), of reader] assms(1) T_parse by (auto simp: conn_ok_def)
  show ?thesis
  proof (cases x)
    case (Inl err)
    from go_bad_frame [OF T_parse r [unfolded Inl]] show ?thesis by blast
  next
    case (Inr y)
    then show ?thesis using go_no_frame [OF T_parse] go_frame [OF T_parse] r by (cases y) blast+
  qed
next
  case (T_limit buf reader session frame)
  show ?thesis
  proof (cases "rl_AllowIP now now now (tc_addr c) (srv_rateLimiter s)")
    case (Pair b rl)
    show ?thesis
    proof (cases b)
      case True
      with Pair have "rl_AllowIP now now now (tc_addr c) (srv_rateLimiter s) = (True, rl)" by simp
      from go_allowed [OF T_limit order_refl order_refl order_refl this] show ?thesis by blast
    next
      case False
      with Pair have "rl_AllowIP now now now (tc_addr c) (srv_rateLimiter s) = (False, rl)" by simp
      from go_limited [OF T_limit order_refl order_refl order_refl this] show ?thesis by blast
    qed
  qed
next
  case (T_handle buf reader session frame)
  obtain x out where "handleFrame (srv_crypto s) cx session frame Conn_writer = (x, out)" by (metis surj_pair)
  from go_handle [OF T_handle this] show ?thesis by blast
next
  case (T_close session)
  then have "closeSession session s = Ret (session\<lparr>sess_cancelled := True, sess_queues_open := False\<rparr>,
      s\<lparr>srv_sessions := srv_sessions s - {sess_ID session}\<rparr>)"
    using assms(1) by (intro closeSession_once) (simp add: conn_ok_def)
  from go_close [OF T_close this] show ?thesis by blast
next
  case T_done
  have "wg_Done s = Ret (s\<lparr>srv_wg := srv_wg s - 1\<rparr>)" using assms(4) by (simp add: wg_Done_def)
  from go_done [OF T_done this] show ?thesis by blast
next
  case (T_read buf reader session)
  then have "tc_deadline c \<le> now" using assms(6) by (simp add: tcp_waiting_def)
  from go_read_timeout [OF T_read this] show ?thesis by blast
next
  case (T_write buf reader session)
  then show ?thesis using assms(6) by (simp add: tcp_waiting_def)
next
  case (T_put buf session)
  from go_put [OF T_put] show ?thesis by blast
next
  case T_release
  from go_release [OF T_release] show ?thesis by blast
qed (use assms in \<open>simp_all add: conn_ok_def\<close>)

text \<open>Whatever the network answers, a waiting handler goes on.\<close>

lemma tcp_go_answered:
  assumes "tcp_waiting now c"
  shows "\<exists>a now' s' c'. tcp_go cx (now, s, c) a (now', s', c') \<and> (a = Hup \<or> a = Wrote) \<and> (a = Wrote \<longrightarrow> tcp_writing (tc_phase c))"
proof (cases "tc_phase c")
  case (T_read buf reader session)
  from go_read_ended [OF T_read] show ?thesis by blast
next
  case (T_write buf reader session)
  from go_wrote [OF T_write] show ?thesis using T_write by (metis tcp_writing.simps(1))
qed (use assms in \<open>simp_all add: tcp_waiting_def\<close>)

lemma quic_go_progress:
  assumes "qconn_ok config c" and "0 < srv_wg s" and "quic_live (qc_phase c)" and "qc_phase c \<noteq> Q_run"
  shows "\<exists>now' s' c'. quic_go cx (now, s, c) (Q_conn Step) (now', s', c')"
proof (cases "qc_phase c")
  case Q_start
  obtain x s' where "createSession [] now s = (x, s')" by (metis surj_pair)
  from q_session [OF Q_start order_refl this] show ?thesis by blast
next
  case Q_close
  then obtain session where x: "qc_session c = Some session" "sess_queues_open session"
    using assms(1) by (cases "qc_session c") (auto simp: qconn_ok_def)
  from q_close [OF Q_close x(1) closeSession_once [OF x(2)]] show ?thesis by blast
next
  case Q_done
  have "wg_Done s = Ret (s\<lparr>srv_wg := srv_wg s - 1\<rparr>)" using assms(2) by (simp add: wg_Done_def)
  from q_done [OF Q_done this] show ?thesis by blast
qed (use assms in \<open>simp_all add: qconn_ok_def\<close>)

lemma stream_progress:
  assumes "qconn_ok config c" and "frame_limit_ok config" and "j < length (qc_streams c)"
    and "stream_live (qc_streams c ! j)" and "\<not> stream_waiting (qc_streams c ! j)"
  shows "\<exists>now' s' c'. quic_go cx (now, s, c) (Q_stream j Step) (now', s', c')"
proof (cases "qc_streams c ! j")
  case (S_parse reader)
  have "stream_ok config (qc_streams c ! j)" using assms(1,3) by (simp add: qconn_ok_def list_all_length)
  then obtain x reader' where r: "ReadFrame reader = Ret (x, reader')"
    using ReadFrame_returns [OF assms(2), of reader] S_parse by (auto simp: stream_ok_def)
  show ?thesis
  proof (cases x)
    case (Inl err)
    from q_stream_bad [OF assms(3) S_parse r [unfolded Inl]] show ?thesis by blast
  next
    case (Inr y)
    then show ?thesis using q_stream_wait [OF assms(3) S_parse] q_stream_frame [OF assms(3) S_parse] r by (cases y) blast+
  qed
next
  case (S_handle reader frame)
  obtain session where x: "qc_session c = Some session"
    using assms(1,3) by (cases "qc_session c") (auto simp: qconn_ok_def)
  obtain x' out where "handleFrame (srv_crypto s) cx session frame Stream_writer = (x', out)" by (metis surj_pair)
  from q_stream_handle [OF assms(3) S_handle x this] show ?thesis by blast
next
  case S_close
  from q_stream_close [OF assms(3) S_close] show ?thesis by blast
qed (use assms in \<open>auto simp: qconn_ok_def stream_ok_def list_all_length\<close>)

text \<open>An accept loop that is not in \<^verbatim>\<open>Accept\<close>.\<close>

lemma loop_progress:
  assumes "loop_live l" and "l \<noteq> L_accept" and "\<not> loop_crashed l" and "0 < srv_wg s" and "srv_config s = Some config"
    and "usable config"
  shows "\<exists>l' s'. startTCP (l, s) L_step (l', s')" and "\<exists>l' s'. startQUIC b (l, s) L_step (l', s')"
proof -
  obtain tc where tc: "listen_config s = Ret tc" using assms(5,6) by (auto simp: listen_config_def usable_def)
  have wg: "wg_Done s = Ret (s\<lparr>srv_wg := srv_wg s - 1\<rparr>)" using assms(4) by (simp add: wg_Done_def)
  have l: "l = L_spawned \<or> l = L_bound \<or> l = L_exit" using assms(1-3) by (cases l) simp_all
  show "\<exists>l' s'. startTCP (l, s) L_step (l', s')"
    using l tcp_listen [OF tc] tcp_store [of s] tcp_loop_done [OF wg] by blast
  show "\<exists>l' s'. startQUIC b (l, s) L_step (l', s')"
    using l quic_listen [OF tc] quic_store [of b s] quic_loop_done [OF wg] by blast
qed

text \<open>C13: Well-formed goroutines do not go wrong: in every reachable state of a server with a usable configuration
  no goroutine has panicked, and the local state of every one is well-formed (open queues, a buffer of 8192
  bytes, a reader with the configured limit).  Every accept loop, connection handler and stream that has not
  returned can take its next step unless it waits in a call to the network: a TCP handler unless it is in \<^verbatim>\<open>Read\<close> before its deadline or in
  \<^verbatim>\<open>Write\<close>, a QUIC handler unless it is in \<^verbatim>\<open>ReceiveDatagram\<close>, a QUIC stream unless it is in \<^verbatim>\<open>Read\<close> or
  \<^verbatim>\<open>Write\<close>, an accept loop unless it is in \<^verbatim>\<open>Accept\<close>.\<close>

theorem goroutines_sound:
  assumes "started config w0" and "run (world_step cx b) w0 ls w"
  shows "\<not> crashed w \<and> list_all (conn_ok config) (w_conns w) \<and> list_all (qconn_ok config) (w_qconns w) \<and>
    (\<forall>i < length (w_conns w). tcp_live (tc_phase (w_conns w ! i)) \<longrightarrow> \<not> tcp_waiting (w_now w) (w_conns w ! i) \<longrightarrow>
       (\<exists>w'. world_step cx b w (Ev_conn i Step) w')) \<and>
    (\<forall>i < length (w_qconns w). quic_live (qc_phase (w_qconns w ! i)) \<longrightarrow> qc_phase (w_qconns w ! i) \<noteq> Q_run \<longrightarrow>
       (\<exists>w'. world_step cx b w (Ev_qconn i (Q_conn Step)) w')) \<and>
    (\<forall>i < length (w_qconns w). \<forall>j < length (qc_streams (w_qconns w ! i)).
       stream_live (qc_streams (w_qconns w ! i) ! j) \<longrightarrow> \<not> stream_waiting (qc_streams (w_qconns w ! i) ! j) \<longrightarrow>
       (\<exists>w'. world_step cx b w (Ev_qconn i (Q_stream j Step)) w')) \<and>
    (loop_live (w_tcp w) \<longrightarrow> w_tcp w \<noteq> L_accept \<longrightarrow> (\<exists>w'. world_step cx b w (Ev_tcp L_step) w')) \<and>
    (loop_live (w_quic w) \<longrightarrow> w_quic w \<noteq> L_accept \<longrightarrow> (\<exists>w'. world_step cx b w (Ev_quic L_step) w'))"
proof -
  note ok = reachable_ok [OF assms]
  have nc: "\<not> crashed w" by (rule world_ok_not_crashed [OF ok(2)])
  have s: "srv_config (w_srv w) = Some config" "frame_limit_ok config" "srv_wg (w_srv w) = live_count w"
      "\<not> loop_crashed (w_tcp w)" "\<not> loop_crashed (w_quic w)"
    and l: "list_all (conn_ok config) (w_conns w)" "list_all (qconn_ok config) (w_qconns w)"
    using ok by (auto simp: world_ok_def srv_ok_def usable_def)
  have "\<exists>w'. world_step cx b w (Ev_conn i Step) w'"
    if "i < length (w_conns w)" "tcp_live (tc_phase (w_conns w ! i))" "\<not> tcp_waiting (w_now w) (w_conns w ! i)" for i
    using tcp_go_progress [OF _ s(1,2) _ that(2,3), of cx] live_positive(1) [OF nth_mem [OF that(1)] that(2)] l(1) s(3) that(1)
      w_step_conn [OF nc that(1)] by (metis list_all_length)
  moreover have "\<exists>w'. world_step cx b w (Ev_qconn i (Q_conn Step)) w'"
    if "i < length (w_qconns w)" "quic_live (qc_phase (w_qconns w ! i))" "qc_phase (w_qconns w ! i) \<noteq> Q_run" for i
    using quic_go_progress [OF _ _ that(2,3), of config "w_srv w" cx] live_positive(2) [OF nth_mem [OF that(1)] that(2)] l(2) s(3) that(1)
      w_step_qconn [OF nc that(1)] by (metis list_all_length)
  moreover have "\<exists>w'. world_step cx b w (Ev_qconn i (Q_stream j Step)) w'"
    if "i < length (w_qconns w)" "j < length (qc_streams (w_qconns w ! i))" "stream_live (qc_streams (w_qconns w ! i) ! j)"
      "\<not> stream_waiting (qc_streams (w_qconns w ! i) ! j)" for i j
    using stream_progress [OF _ s(2) that(2-4), of cx] l(2) that(1) w_step_qconn [OF nc that(1)] by (metis list_all_length)
  moreover have "loop_live (w_tcp w) \<longrightarrow> w_tcp w \<noteq> L_accept \<longrightarrow> (\<exists>w'. world_step cx b w (Ev_tcp L_step) w')"
    using loop_progress(1) [OF _ _ s(4) _ s(1) ok(1)] live_positive(3) [of w] s(3) w_step_tcp [OF nc] by metis
  moreover have "loop_live (w_quic w) \<longrightarrow> w_quic w \<noteq> L_accept \<longrightarrow> (\<exists>w'. world_step cx b w (Ev_quic L_step) w')"
    using loop_progress(2) [OF _ _ s(5) _ s(1) ok(1)] live_positive(4) [of w] s(3) w_step_quic [OF nc] by metis
  ultimately show ?thesis using nc l by blast
qed

subsection \<open>An example\<close>

text \<open>A server with TCP only, as the command line starts it by default, and its first connection.\<close>

definition demo_config :: ServerConfig where
  "demo_config = \<lparr>QUICAddr = '''', TCPAddr = ''0.0.0.0:8443'', MaxStreams = 1000, MaxFrameSize = 65536,
     TLSConfig = Any_tls \<lparr>Certificates = [[]], ClientAuth = NoClientCert, MinVersion = VersionTLS13, CipherSuites = []\<rparr>\<rparr>"

definition demo_world :: world where
  "demo_world = projr (launch 0 (projr (NewServer (Inr toy_engine) 0 0 (Some demo_config))))"

lemma demo_launch: "launch 0 (projr (NewServer (Inr toy_engine) 0 0 (Some demo_config))) = Inr demo_world"
  by (simp add: demo_world_def launch_def Start_def NewServer_def demo_config_def)

lemma demo_started: "started demo_config demo_world"
proof -
  have "usable demo_config" by (simp add: usable_def frame_limit_ok_def NewFrameReader_maxLength demo_config_def)
  moreover have "NewServer (Inr toy_engine) 0 0 (Some demo_config) = Inr (projr (NewServer (Inr toy_engine) 0 0 (Some demo_config)))"
    by (simp add: NewServer_def)
  ultimately show ?thesis using demo_launch unfolding started_def by blast
qed

lemma demo_world_fields [simp]:
  "w_tcp demo_world = L_spawned" "w_quic demo_world = L_off" "w_conns demo_world = []" "w_qconns demo_world = []"
  "w_stop demo_world = SD_idle" "w_now demo_world = 0" "srv_wg (w_srv demo_world) = 1"
  "srv_config (w_srv demo_world) = Some demo_config" "srv_tcpListener (w_srv demo_world) = None"
  "srv_quicListener (w_srv demo_world) = None" "\<not> srv_shutdown (w_srv demo_world)"
  "srv_connLimiter (w_srv demo_world) = NewConnectionRateLimiter 10"
  "srv_rateLimiter (w_srv demo_world) = NewRateLimiter 0 1000 100" "srv_bufferPool (w_srv demo_world) = NewBufferPool 8192"
  "srv_crypto (w_srv demo_world) = toy_engine" "srv_sessions (w_srv demo_world) = {}"
  by (simp_all add: demo_world_def launch_def Start_def NewServer_def demo_config_def)

definition demo_accepting :: world where
  "demo_accepting = demo_world\<lparr>w_tcp := L_accept, w_srv := (w_srv demo_world)\<lparr>srv_tcpListener := Some Listening\<rparr>, w_conns := []\<rparr>"

lemma demo_accepting_fields:
  "w_tcp demo_accepting = L_accept" "w_quic demo_accepting = L_off" "w_conns demo_accepting = []" "w_qconns demo_accepting = []"
  "srv_tcpListener (w_srv demo_accepting) = Some Listening" "srv_wg (w_srv demo_accepting) = 1" "w_now demo_accepting = 0"
  "w_stop demo_accepting = SD_idle"
  by (simp_all add: demo_accepting_def)

lemma step_tcpI:
  "startTCP (l0, s0) a (l, s) \<Longrightarrow> \<not> crashed w \<Longrightarrow> w_tcp w = l0 \<Longrightarrow> w_srv w = s0 \<Longrightarrow>
     w' = w\<lparr>w_tcp := l, w_srv := s, w_conns := w_conns w @ spawn_tcp a\<rparr> \<Longrightarrow> world_step cx b w (Ev_tcp a) w'"
  using w_step_tcp [of w a l s cx b] by simp

lemma step_connI:
  "tcp_go cx (now, s0, c0) a (t, s, c) \<Longrightarrow> \<not> crashed w \<Longrightarrow> i < length (w_conns w) \<Longrightarrow> w_now w = now \<Longrightarrow> w_srv w = s0 \<Longrightarrow>
     w_conns w ! i = c0 \<Longrightarrow> w' = w\<lparr>w_now := t, w_srv := s, w_conns := (w_conns w)[i := c]\<rparr> \<Longrightarrow>
     world_step cx b w (Ev_conn i a) w'"
  using w_step_conn [of w i cx a t s c b] by simp

lemma demo_listen: "run (world_step cx b) demo_world [Ev_tcp L_step, Ev_tcp L_step] demo_accepting"
proof -
  have "listen_config (w_srv demo_world) = Ret \<lparr>Certificates = [[]], ClientAuth = NoClientCert, MinVersion = VersionTLS13, CipherSuites = []\<rparr>"
    by (simp add: listen_config_def) (simp add: demo_config_def)
  then have "world_step cx b demo_world (Ev_tcp L_step) (demo_world\<lparr>w_tcp := L_bound, w_srv := w_srv demo_world, w_conns := []\<rparr>)"
    by (rule step_tcpI [OF tcp_listen]) (simp_all add: crashed_def)
  moreover have "world_step cx b (demo_world\<lparr>w_tcp := L_bound, w_srv := w_srv demo_world, w_conns := []\<rparr>) (Ev_tcp L_step) demo_accepting"
    by (rule step_tcpI [OF tcp_store]) (simp_all add: crashed_def demo_accepting_def)
  ultimately show ?thesis by (rule run_Cons [OF _ run_one])
qed

definition demo_connected :: world where
  "demo_connected = demo_accepting\<lparr>w_srv := (w_srv demo_accepting)\<lparr>srv_wg := srv_wg (w_srv demo_accepting) + 1\<rparr>, w_conns := [new_conn ''peer'']\<rparr>"

lemma demo_connect: "run (world_step cx b) demo_world [Ev_tcp L_step, Ev_tcp L_step, Ev_tcp (L_conn ''peer'')] demo_connected"
proof -
  have "world_step cx b demo_accepting (Ev_tcp (L_conn ''peer'')) demo_connected"
    by (rule step_tcpI [OF tcp_accept, of "w_srv demo_accepting"])
      (simp_all add: crashed_def demo_connected_def demo_accepting_fields)
  then have "run (world_step cx b) demo_accepting [Ev_tcp (L_conn ''peer'')] demo_connected" by (rule run_one)
  from conjI [OF demo_listen this]
  have "run (world_step cx b) demo_world ([Ev_tcp L_step, Ev_tcp L_step] @ [Ev_tcp (L_conn ''peer'')]) demo_connected"
    unfolding run_append by (rule exI)
  then show ?thesis by simp
qed

theorem server_accounting_witness:
  "run (world_step stored_codecs True) demo_world [Ev_tcp L_step, Ev_tcp L_step, Ev_tcp (L_conn ''peer'')] demo_connected \<and>
   live_count demo_connected = 2"
proof -
  have "srv_wg (w_srv demo_connected) = 2" by (simp add: demo_connected_def demo_accepting_fields)
  with server_accounting [OF demo_started demo_connect] demo_connect show ?thesis by simp
qed

theorem goroutines_sound_witness:
  "\<exists>w'. world_step stored_codecs True demo_connected (Ev_conn 0 Step) w'"
proof -
  have "length (w_conns demo_connected) = 1" "tcp_live (tc_phase (w_conns demo_connected ! 0))"
    by (simp_all add: demo_connected_def new_conn_def)
  moreover have "\<not> tcp_waiting (w_now demo_connected) (w_conns demo_connected ! 0)"
    by (simp add: demo_connected_def new_conn_def tcp_waiting_def)
  ultimately show ?thesis using goroutines_sound [OF demo_started demo_connect, of stored_codecs True] by simp
qed

end
