(* ===== verification/WB_Shutdown.thy ===== *)
theory WB_Shutdown
  imports WB_Lifecycle
begin

text \<open>
  Stopping a running server: the work that is left after \<^verbatim>\<open>Shutdown\<close> has closed the listeners is bounded.
  Once the read deadlines have passed it is done, and \<^verbatim>\<open>Shutdown\<close> returns without an error, if the calls of
  \<^verbatim>\<open>Write\<close> return; one that does not keeps \<^verbatim>\<open>Shutdown\<close> waiting.  A \<^verbatim>\<open>Shutdown\<close> that comes before the accept loop
  has stored its listener never stops it.
\<close>

subsection \<open>The work that is left\<close>

fun loop_weight :: "loop \<Rightarrow> nat" where
  "loop_weight L_spawned = 4"
| "loop_weight L_bound = 3"
| "loop_weight L_accept = 2"
| "loop_weight L_exit = 1"
| "loop_weight _ = 0"

fun tcp_weight :: "tcp_phase \<Rightarrow> nat" where
  "tcp_weight T_start = 8"
| "tcp_weight T_admitted = 7"
| "tcp_weight (T_open _) = 6"
| "tcp_weight (T_read _ r _) = 3 * length (fr_buffer r) + 5"
| "tcp_weight (T_parse _ r _) = 3 * length (fr_buffer r) + 6"
| "tcp_weight (T_limit _ r _ _) = 3 * length (fr_buffer r) + 9"
| "tcp_weight (T_handle _ r _ _) = 3 * length (fr_buffer r) + 8"
| "tcp_weight (T_write _ r _) = 3 * length (fr_buffer r) + 7"
| "tcp_weight (T_put _ _) = 4"
| "tcp_weight (T_close _) = 3"
| "tcp_weight T_release = 2"
| "tcp_weight T_done = 1"
| "tcp_weight _ = 0"

definition tcp_work :: "world \<Rightarrow> nat" where
  "tcp_work w = loop_weight (w_tcp w) + sum_list (map (\<lambda>c. tcp_weight (tc_phase c)) (w_conns w))"

fun is_tcp_event :: "event \<Rightarrow> bool" where
  "is_tcp_event (Ev_tcp _) = True"
| "is_tcp_event (Ev_conn _ _) = True"
| "is_tcp_event _ = False"

text \<open>A call of \<^verbatim>\<open>Write\<close> on a TCP connection returns.\<close>

fun write_returns :: "event \<Rightarrow> bool" where
  "write_returns (Ev_conn _ Wrote) = True"
| "write_returns _ = False"

fun received :: "event \<Rightarrow> nat" where
  "received (Ev_conn _ (Got data)) = 3 * length data + 2"
| "received _ = 0"

text \<open>No connection will be accepted any more.\<close>

definition no_more_tcp :: "world \<Rightarrow> bool" where
  "no_more_tcp w \<longleftrightarrow> w_tcp w \<noteq> L_spawned \<and> w_tcp w \<noteq> L_bound \<and>
     (w_tcp w = L_accept \<longrightarrow> srv_tcpListener (w_srv w) = Some Closed)"

lemma ReadFrame_keeps: "ReadFrame r = Ret (Inr None, r') \<Longrightarrow> r' = r" "ReadFrame r = Ret (Inl err, r') \<Longrightarrow> r' = r"
  by (auto simp: ReadFrame_def Let_def elim!: go_bind_RetE split: if_split_asm sum.split_asm)

lemma tcp_go_weight:
  assumes "tcp_go cx (now, s, c) a (now', s', c')"
  shows "tcp_weight (tc_phase c') + 1 \<le> tcp_weight (tc_phase c) + received (Ev_conn i a)"
  using assms by cases (auto simp: Feed_def dest!: ReadFrame_consumes ReadFrame_keeps simp: HeaderSize_def)

lemma tcp_go_listener:
  assumes "tcp_go cx (now, s, c) a (now', s', c')"
  shows "srv_tcpListener s' = srv_tcpListener s" and "now \<le> now'"
  using assms by (cases; auto dest: createSession_fields simp: closeSession_def wg_Done_def Let_def split: if_split_asm)+

lemma quic_go_listener:
  assumes "quic_go cx (now, s, c) a (now', s', c')"
  shows "srv_tcpListener s' = srv_tcpListener s" and "now \<le> now'"
  using assms by (cases; auto dest: createSession_fields simp: closeSession_def wg_Done_def Let_def split: if_split_asm)+

lemma startQUIC_listener: "startQUIC b (l, s) a (l', s') \<Longrightarrow> srv_tcpListener s' = srv_tcpListener s"
  by (erule startQUIC.cases) (auto simp: wg_Done_def split: if_split_asm)

lemma startTCP_no_more:
  assumes "startTCP (w_tcp w, w_srv w) a (l, s)" and "no_more_tcp w"
  shows "loop_weight l < loop_weight (w_tcp w) \<and> spawn_tcp a = [] \<and> l \<noteq> L_spawned \<and> l \<noteq> L_bound \<and> l \<noteq> L_accept"
  using assms(1) by cases (use assms(2) in \<open>auto simp: no_more_tcp_def\<close>)

text \<open>Every step of the TCP side uses up work, and only a read brings new work.\<close>

lemma work_step:
  assumes "world_step cx b w e w'" and "no_more_tcp w"
  shows "no_more_tcp w' \<and> of_bool (is_tcp_event e) + tcp_work w' \<le> tcp_work w + received e"
  using assms(1)
proof cases
  case (w_step_tcp a l s)
  then show ?thesis using startTCP_no_more [OF w_step_tcp(4) assms(2)] by (simp add: tcp_work_def no_more_tcp_def)
next
  case (w_step_quic a l s)
  then show ?thesis using startQUIC_listener [OF w_step_quic(4)] assms(2) by (simp add: tcp_work_def no_more_tcp_def)
next
  case (w_step_conn i a t s c)
  obtain ys zs where l: "w_conns w = ys @ w_conns w ! i # zs" and u: "\<And>x. (w_conns w)[i := x] = ys @ x # zs"
    using nth_split [OF w_step_conn(4)] by blast
  have "tcp_work w' + tcp_weight (tc_phase (w_conns w ! i)) = tcp_work w + tcp_weight (tc_phase c)"
    unfolding tcp_work_def w_step_conn(2) by (subst (3) l) (simp add: u)
  then show ?thesis
    using tcp_go_weight [OF w_step_conn(5), of i] tcp_go_listener [OF w_step_conn(5)] assms(2) w_step_conn
    by (simp add: no_more_tcp_def)
next
  case (w_step_qconn i a t s c)
  then show ?thesis using quic_go_listener [OF w_step_qconn(5)] assms(2) by (simp add: tcp_work_def no_more_tcp_def)
next
  case (w_step_shutdown r s)
  then show ?thesis using assms(2)
    by (auto simp: tcp_work_def no_more_tcp_def Shutdown_def close_listeners_eq Let_def split: if_split_asm)
qed (use assms(2) in \<open>simp_all add: tcp_work_def no_more_tcp_def\<close>)

lemma work_run:
  assumes "run (world_step cx b) w ls w'" and "no_more_tcp w"
  shows "length (filter is_tcp_event ls) + tcp_work w' \<le> tcp_work w + sum_list (map received ls)"
  using assms
proof (induction rule: run.induct)
  case (run_Cons w e w1 ls w2)
  then show ?case using work_step [OF run_Cons.hyps(1)] by fastforce
qed simp

text \<open>An accept loop that accepts has stored its listener, so that \<^verbatim>\<open>Shutdown\<close> closes it.\<close>

definition listener_stored :: "world \<Rightarrow> bool" where
  "listener_stored w \<longleftrightarrow> (w_tcp w = L_accept \<longrightarrow> srv_tcpListener (w_srv w) \<noteq> None)"

lemma listener_stored_step:
  assumes "world_step cx b w e w'" and "listener_stored w"
  shows "listener_stored w'"
  using assms(1)
proof cases
  case (w_step_tcp a l s)
  then show ?thesis using assms(2) by (auto simp: listener_stored_def elim: startTCP.cases)
next
  case (w_step_quic a l s)
  then show ?thesis using startQUIC_listener [OF w_step_quic(4)] assms(2) by (simp add: listener_stored_def)
next
  case (w_step_conn i a t s c)
  then show ?thesis using tcp_go_listener(1) [OF w_step_conn(5)] assms(2) by (simp add: listener_stored_def)
next
  case (w_step_qconn i a t s c)
  then show ?thesis using quic_go_listener(1) [OF w_step_qconn(5)] assms(2) by (simp add: listener_stored_def)
next
  case (w_step_shutdown r s)
  then show ?thesis using assms(2)
    by (auto simp: listener_stored_def Shutdown_def close_listeners_eq Let_def split: if_split_asm)
qed (use assms(2) in \<open>simp_all add: listener_stored_def\<close>)

interpretation listening: invariant_system "world_step cx b" listener_stored for cx b
  by unfold_locales (rule listener_stored_step)

text \<open>\<^verbatim>\<open>Shutdown\<close> is called once: nothing else sets the flag.\<close>

definition shutdown_once :: "world \<Rightarrow> bool" where
  "shutdown_once w \<longleftrightarrow> (w_stop w = SD_idle \<longrightarrow> \<not> srv_shutdown (w_srv w))"

lemma connection_keeps_flag:
  "tcp_go cx (now, s, c) a (now', s', c') \<Longrightarrow> srv_shutdown s' = srv_shutdown s"
  "quic_go cx (now, s, q) qa (now', s', q') \<Longrightarrow> srv_shutdown s' = srv_shutdown s"
  "startTCP (l, s) la (l', s') \<Longrightarrow> srv_shutdown s' = srv_shutdown s"
  "startQUIC b (l, s) la (l', s') \<Longrightarrow> srv_shutdown s' = srv_shutdown s"
  by (auto elim!: tcp_go.cases quic_go.cases startTCP.cases startQUIC.cases dest!: createSession_fields
      simp: closeSession_def wg_Done_def Let_def split: if_split_asm)

interpretation once: invariant_system "world_step cx b" shutdown_once for cx b
proof
  fix w e w'
  assume "shutdown_once w" and "world_step cx b w e w'"
  from this(2,1) show "shutdown_once w'" by cases (auto simp: shutdown_once_def dest: connection_keeps_flag)
qed

lemma shutdown_closes:
  assumes "world_step cx b w Ev_shutdown w1" and "listener_stored w" and "shutdown_once w"
    and "w_tcp w \<noteq> L_spawned" and "w_tcp w \<noteq> L_bound"
  shows "no_more_tcp w1 \<and> tcp_work w1 = tcp_work w"
  using assms(1) by cases (use assms(2-) in \<open>auto simp: listener_stored_def shutdown_once_def no_more_tcp_def tcp_work_def
      Shutdown_def close_listeners_eq Let_def split: if_split_asm\<close>)

lemma started_flags:
  assumes "started config w"
  shows "listener_stored w \<and> shutdown_once w"
  by (rule started_cases [OF assms]) (auto simp: listener_stored_def shutdown_once_def NewServer_def)


subsection \<open>The end of a shutdown\<close>

text \<open>Every handler that may still read has run into its deadline; QUIC has ended.\<close>

fun expired :: "time \<Rightarrow> tcp_conn \<Rightarrow> bool" where
  "expired now c =
     (case tc_phase c of
        T_start \<Rightarrow> False
      | T_admitted \<Rightarrow> False
      | T_open _ \<Rightarrow> False
      | _ \<Rightarrow> tc_deadline c \<le> now \<or> tcp_reader (tc_phase c) = None)"

definition overdue :: "world \<Rightarrow> bool" where
  "overdue w \<longleftrightarrow> no_more_tcp w \<and> list_all (expired (w_now w)) (w_conns w) \<and>
     \<not> loop_live (w_quic w) \<and> list_all (\<lambda>c. \<not> quic_live (qc_phase c)) (w_qconns w)"

lemma expired_mono: "expired now c \<Longrightarrow> now \<le> t \<Longrightarrow> expired t c"
  by (auto split: tcp_phase.split_asm)

lemma tcp_go_expired:
  assumes "tcp_go cx (now, s, c) a (now', s', c')" and "expired now c"
  shows "expired now' c'" and "received (Ev_conn i a) = 0"
  using assms(1) by (cases; use assms(2) in \<open>auto split: tcp_phase.split_asm\<close>)+

lemma quic_go_dead:
  "quic_go cx (now, s, c) a (now', s', c') \<Longrightarrow> \<not> quic_live (qc_phase c) \<Longrightarrow> \<not> quic_live (qc_phase c')"
  by (erule quic_go.cases) auto

lemma startQUIC_dead: "startQUIC b (l, s) a (l', s') \<Longrightarrow> loop_live l"
  by (erule startQUIC.cases) auto

lemma overdue_step:
  assumes "world_step cx b w e w'" and "overdue w"
  shows "overdue w' \<and> received e = 0"
proof -
  have nm: "no_more_tcp w'" using work_step [OF assms(1)] assms(2) by (simp add: overdue_def)
  from assms(1) have "list_all (expired (w_now w')) (w_conns w') \<and> received e = 0 \<and>
      \<not> loop_live (w_quic w') \<and> list_all (\<lambda>c. \<not> quic_live (qc_phase c)) (w_qconns w')"
  proof cases
    case (w_step_tcp a l s)
    then show ?thesis using startTCP_no_more [OF w_step_tcp(4)] assms(2) by (simp add: overdue_def)
  next
    case (w_step_quic a l s)
    then show ?thesis using startQUIC_dead [OF w_step_quic(4)] assms(2) by (simp add: overdue_def)
  next
    case (w_step_conn i a t s c)
    have "expired (w_now w) (w_conns w ! i)" using assms(2) w_step_conn(4) by (simp add: overdue_def list_all_length)
    note go = tcp_go_expired(1) [OF w_step_conn(5) this] tcp_go_expired(2) [OF w_step_conn(5) this, of i] tcp_go_listener(2) [OF w_step_conn(5)]
    have "list_all (expired t) ((w_conns w)[i := c])"
      using assms(2) go(1,3) expired_mono unfolding overdue_def list_all_iff
      by (auto dest!: set_update_subset_insert [THEN subsetD])
    then show ?thesis using assms(2) go(2) w_step_conn by (simp add: overdue_def)
  next
    case (w_step_qconn i a t s c)
    have dead: "\<not> quic_live (qc_phase c)"
      using quic_go_dead [OF w_step_qconn(5)] assms(2) w_step_qconn(4) by (simp add: overdue_def list_all_length)
    have "list_all (\<lambda>c. \<not> quic_live (qc_phase c)) ((w_qconns w)[i := c])"
      using assms(2) dead unfolding overdue_def list_all_iff by (auto dest!: set_update_subset_insert [THEN subsetD])
    moreover have "list_all (expired t) (w_conns w)"
      using assms(2) expired_mono quic_go_listener(2) [OF w_step_qconn(5)] by (auto simp: overdue_def list_all_iff)
    ultimately show ?thesis using assms(2) w_step_qconn by (simp add: overdue_def)
  next
    case (w_step_clock t)
    then show ?thesis using assms(2) expired_mono by (auto simp: overdue_def list_all_iff)
  qed (use assms(2) in \<open>simp_all add: overdue_def\<close>)
  with nm show ?thesis by (simp add: overdue_def)
qed

lemma overdue_run:
  assumes "run (world_step cx b) w ls w'" and "overdue w"
  shows "overdue w' \<and> sum_list (map received ls) = 0"
  using assms by (induction rule: run.induct) (auto dest: overdue_step)

text \<open>
  A goroutine of the TCP side that has not returned and is not in \<^verbatim>\<open>Write\<close> can run, and one in \<^verbatim>\<open>Write\<close> can run when
  \<^verbatim>\<open>Write\<close> returns.
\<close>

definition only_writers :: "world \<Rightarrow> bool" where
  "only_writers w \<longleftrightarrow> \<not> loop_live (w_tcp w) \<and> list_all (\<lambda>c. tcp_live (tc_phase c) \<longrightarrow> tcp_writing (tc_phase c)) (w_conns w)"

lemma expired_not_waiting: "expired now c \<Longrightarrow> \<not> tcp_writing (tc_phase c) \<Longrightarrow> \<not> tcp_waiting now c"
  by (cases "tc_phase c") (simp_all add: tcp_waiting_def)

lemma overdue_progress:
  assumes "usable config" and "world_ok config w" and "overdue w" and "\<not> only_writers w"
  shows "\<exists>e w'. is_tcp_event e \<and> \<not> write_returns e \<and> world_step cx b w e w'"
proof -
  have nc: "\<not> crashed w" by (rule world_ok_not_crashed [OF assms(2)])
  have wg: "srv_wg (w_srv w) = live_count w" using assms(2) by (simp add: world_ok_def)
  consider "loop_live (w_tcp w)" | c where "c \<in> set (w_conns w)" "tcp_live (tc_phase c)" "\<not> tcp_writing (tc_phase c)"
    using assms(4) by (auto simp: only_writers_def list_all_iff)
  then show ?thesis
  proof cases
    case 1
    then have "w_tcp w = L_exit \<or> w_tcp w = L_accept \<and> srv_tcpListener (w_srv w) = Some Closed"
      using assms(2,3) by (cases "w_tcp w") (auto simp: overdue_def no_more_tcp_def world_ok_def)
    then obtain l s where "startTCP (w_tcp w, w_srv w) L_step (l, s)"
      using live_positive(3) [OF 1] wg tcp_accept_closed [of "w_srv w"] tcp_loop_done [of "w_srv w"] by (fastforce simp: wg_Done_def)
    from w_step_tcp [OF nc this] show ?thesis by (intro exI [of _ "Ev_tcp L_step"] exI conjI) simp_all
  next
    case 2
    then obtain i where i: "i < length (w_conns w)" "w_conns w ! i = c" by (auto simp: in_set_conv_nth)
    have ok: "conn_ok config c" "srv_config (w_srv w) = Some config" "frame_limit_ok config" "0 < srv_wg (w_srv w)"
      using assms(1,2) 2 live_positive(1) [OF 2(1,2)] by (auto simp: world_ok_def srv_ok_def usable_def list_all_iff)
    have "\<not> tcp_waiting (w_now w) c" using assms(3) 2 expired_not_waiting by (auto simp: overdue_def list_all_iff)
    from tcp_go_progress [OF ok 2(2) this] obtain t s c' where "tcp_go cx (w_now w, w_srv w, w_conns w ! i) Step (t, s, c')"
      using i(2) by blast
    from w_step_conn [OF nc i(1) this]
    show ?thesis by (intro exI [of _ "Ev_conn i Step"] exI conjI) simp_all
  qed
qed

lemma overdue_event:
  assumes "usable config" and "world_ok config w" and "overdue w" and "0 < srv_wg (w_srv w)"
  shows "\<exists>e w'. is_tcp_event e \<and> world_step cx b w e w'"
proof (cases "only_writers w")
  case True
  have "0 < live_count w" using assms(2,4) by (simp add: world_ok_def)
  then obtain c where "c \<in> set (w_conns w)" "tcp_writing (tc_phase c)"
    using live_count_0 [of w] assms(3) True by (auto simp: overdue_def only_writers_def list_all_iff)
  then obtain i where i: "i < length (w_conns w)" "tcp_writing (tc_phase (w_conns w ! i))" by (auto simp: in_set_conv_nth)
  then obtain buf reader session where "tc_phase (w_conns w ! i) = T_write buf reader session"
    by (cases "tc_phase (w_conns w ! i)") auto
  from w_step_conn [OF world_ok_not_crashed [OF assms(2)] i(1) go_wrote [OF this]]
  show ?thesis by (intro exI [of _ "Ev_conn i Wrote"] exI conjI) simp_all
qed (use overdue_progress [OF assms(1-3)] in blast)

lemma stop_step: "world_step cx b w e w' \<Longrightarrow> is_tcp_event e \<Longrightarrow> w_stop w' = w_stop w"
  by (erule world_step.cases) auto

lemma drain_exists:
  assumes "usable config" and "world_ok config w" and "overdue w"
  shows "\<exists>ls w'. run (world_step cx b) w ls w' \<and> list_all is_tcp_event ls \<and> srv_wg (w_srv w') = 0 \<and> w_stop w' = w_stop w"
  using assms(2,3)
proof (induction "tcp_work w" arbitrary: w rule: less_induct)
  case less
  show ?case
  proof (cases "srv_wg (w_srv w) = 0")
    case True
    then show ?thesis by (intro exI [of _ "[]"] exI [of _ w]) (simp add: run_Nil)
  next
    case False
    then obtain e w1 where e: "is_tcp_event e" "world_step cx b w e w1"
      using overdue_event [OF assms(1) less.prems] by blast
    have "tcp_work w1 < tcp_work w" using work_step [OF e(2)] overdue_step [OF e(2)] e(1) less.prems by (simp add: overdue_def)
    from less.hyps [OF this] obtain ls w2 where "run (world_step cx b) w1 ls w2" "list_all is_tcp_event ls"
        "srv_wg (w_srv w2) = 0" "w_stop w2 = w_stop w1"
      using world_ok_step [OF less.prems(1) assms(1) e(2)] overdue_step [OF e(2)] less.prems by blast
    then show ?thesis using e stop_step [OF e(2,1)] run_Cons [where step = "world_step cx b", OF e(2)]
      by (intro exI [of _ "e # ls"] exI [of _ w2]) simp
  qed
qed

lemma world_step_conns:
  assumes "world_step cx b w e w'" and "i < length (w_conns w)"
  shows "i < length (w_conns w') \<and> w_now w \<le> w_now w' \<and>
    (w_conns w' ! i = w_conns w ! i \<or> (\<exists>a s. e = Ev_conn i a \<and> tcp_go cx (w_now w, w_srv w, w_conns w ! i) a (w_now w', s, w_conns w' ! i)))"
  using assms(1)
proof cases
  case (w_step_conn j a t s c)
  then show ?thesis using tcp_go_listener(2) [OF w_step_conn(5)] assms(2) by (cases "i = j") auto
next
  case (w_step_qconn j a t s c)
  then show ?thesis using quic_go_listener(2) [OF w_step_qconn(5)] assms(2) by simp
qed (use assms(2) in \<open>auto simp: nth_append\<close>)

text \<open>A handler in \<^verbatim>\<open>Write\<close> stays there until \<^verbatim>\<open>Write\<close> returns: no deadline ends it.\<close>

lemma tcp_writing_live: "tcp_writing p \<Longrightarrow> tcp_live p"
  by (cases p) simp_all

lemma tcp_go_writing: "tcp_go cx (now, s, c) a (now', s', c') \<Longrightarrow> tcp_writing (tc_phase c) \<Longrightarrow> a = Wrote"
  by (erule tcp_go.cases) auto

lemma blocked_run:
  assumes "run (world_step cx b) w ls w'" and "i < length (w_conns w)" and "tcp_writing (tc_phase (w_conns w ! i))"
    and "Ev_conn i Wrote \<notin> set ls"
  shows "i < length (w_conns w') \<and> w_conns w' ! i = w_conns w ! i"
  using assms
proof (induction rule: run.induct)
  case (run_Cons w e w1 ls w2)
  have "w_conns w1 ! i = w_conns w ! i"
    using world_step_conns [OF run_Cons.hyps(1) run_Cons.prems(1)] tcp_go_writing run_Cons.prems(2,3) by fastforce
  then show ?case using run_Cons world_step_conns [OF run_Cons.hyps(1) run_Cons.prems(1)] by auto
qed simp

lemma returned_wg:
  assumes "run (world_step cx b) w ls w'" and "w_stop w \<noteq> SD_returned None" and "w_stop w' = SD_returned None"
  shows "\<exists>ls1 ls2 w1. ls = ls1 @ ls2 \<and> run (world_step cx b) w ls1 w1 \<and> srv_wg (w_srv w1) = 0"
  using assms
proof (induction rule: run.induct)
  case (run_Cons w e w1 ls w2)
  show ?case
  proof (cases "w_stop w1 = SD_returned None")
    case True
    have "srv_wg (w_srv w) = 0" using run_Cons.hyps(1) by cases (use True run_Cons.prems(1) in auto)
    with run.run_Nil [where step = "world_step cx b"] show ?thesis by (intro exI [of _ "[]"] exI [of _ "e # ls"] exI [of _ w]) simp
  next
    case False
    then obtain ls1 ls2 w3 where i: "ls = ls1 @ ls2" "run (world_step cx b) w1 ls1 w3" "srv_wg (w_srv w3) = 0"
      using run_Cons by auto
    show ?thesis
      by (rule exI [of _ "e # ls1"], rule exI [of _ ls2], rule exI [of _ w3])
        (use i run.run_Cons [where step = "world_step cx b", OF run_Cons.hyps(1) i(2)] in simp)
  qed
qed simp

lemma blocked_write:
  assumes "usable config" and "world_ok config w" and "w_stop w = SD_wait" and "i < length (w_conns w)"
    and "tcp_writing (tc_phase (w_conns w ! i))" and "run (world_step cx b) w ls w'" and "Ev_conn i Wrote \<notin> set ls"
  shows "0 < srv_wg (w_srv w') \<and> w_stop w' \<noteq> SD_returned None"
proof -
  have pos: "0 < srv_wg (w_srv w1)" if "run (world_step cx b) w ls1 w1" "Ev_conn i Wrote \<notin> set ls1" for ls1 w1
  proof -
    have "world_ok config w1" using server.inv_run [OF that(1), of config] assms(1,2) by blast
    moreover have "i < length (w_conns w1)" "tcp_live (tc_phase (w_conns w1 ! i))"
      using blocked_run [OF that(1) assms(4,5) that(2)] tcp_writing_live [OF assms(5)] by simp_all
    ultimately show ?thesis using live_positive(1) [of "w_conns w1 ! i" w1] by (simp add: world_ok_def)
  qed
  have "w_stop w' \<noteq> SD_returned None"
  proof
    assume "w_stop w' = SD_returned None"
    with returned_wg [OF assms(6)] assms(3) obtain ls1 ls2 w1 where
      "ls = ls1 @ ls2" "run (world_step cx b) w ls1 w1" "srv_wg (w_srv w1) = 0" by auto
    with pos [of ls1 w1] assms(7) show False by simp
  qed
  with pos [OF assms(6,7)] show ?thesis ..
qed

text \<open>C6: How a shutdown ends once the read deadlines have passed.  Let the listener be closed, every open TCP connection
  be past its read deadline, and QUIC not be in use.  Then the accept loop and the TCP handlers can take only
  boundedly many more steps.  When nothing but the return of a \<^verbatim>\<open>Write\<close> is left to happen, the accept loop has returned and every handler
  that is left waits in \<^verbatim>\<open>Write\<close>; when not even that, the wait group is empty.  An end in which \<^verbatim>\<open>Shutdown\<close>
  returns nil can always be reached.  But no write deadline is set: as long as the \<^verbatim>\<open>Write\<close> that a handler is in
  does not return (a peer that does not read), the wait group is not empty and \<^verbatim>\<open>Shutdown\<close> does not return nil, however
  much time passes.\<close>

theorem shutdown_drains:
  assumes "started config w0" and "run (world_step cx b) w0 ls0 w" and "overdue w" and "w_stop w = SD_wait"
  shows "(\<forall>ls w'. run (world_step cx b) w ls w' \<longrightarrow> length (filter is_tcp_event ls) \<le> tcp_work w \<and>
        ((\<forall>e w''. is_tcp_event e \<longrightarrow> \<not> write_returns e \<longrightarrow> \<not> world_step cx b w' e w'') \<longrightarrow> only_writers w') \<and>
        ((\<forall>e w''. is_tcp_event e \<longrightarrow> \<not> world_step cx b w' e w'') \<longrightarrow> srv_wg (w_srv w') = 0)) \<and>
    (\<exists>ls w'. run (world_step cx b) w ls w' \<and> w_stop w' = SD_returned None) \<and>
    (\<forall>i < length (w_conns w). tcp_writing (tc_phase (w_conns w ! i)) \<longrightarrow>
       (\<forall>ls w'. run (world_step cx b) w ls w' \<longrightarrow> Ev_conn i Wrote \<notin> set ls \<longrightarrow>
          0 < srv_wg (w_srv w') \<and> w_stop w' \<noteq> SD_returned None))"
proof -
  note ok = reachable_ok [OF assms(1,2)]
  have "length (filter is_tcp_event ls) \<le> tcp_work w" if "run (world_step cx b) w ls w'" for ls w'
    using work_run [OF that] overdue_run [OF that assms(3)] assms(3) by (simp add: overdue_def)
  moreover have "only_writers w'" if "run (world_step cx b) w ls w'"
      "\<forall>e w''. is_tcp_event e \<longrightarrow> \<not> write_returns e \<longrightarrow> \<not> world_step cx b w' e w''" for ls w'
    using overdue_progress [OF ok(1), of w' cx b] server.inv_run [OF that(1), of config] overdue_run [OF that(1) assms(3)] ok that(2)
    by blast
  moreover have "srv_wg (w_srv w') = 0"
    if "run (world_step cx b) w ls w'" "\<forall>e w''. is_tcp_event e \<longrightarrow> \<not> world_step cx b w' e w''" for ls w'
    using overdue_event [OF ok(1), of w' cx b] server.inv_run [OF that(1), of config] overdue_run [OF that(1) assms(3)] ok that(2)
    by blast
  moreover have "\<exists>ls w'. run (world_step cx b) w ls w' \<and> w_stop w' = SD_returned None"
  proof -
    obtain ls w' where r: "run (world_step cx b) w ls w'" and z: "srv_wg (w_srv w') = 0" "w_stop w' = SD_wait"
      using drain_exists [OF ok assms(3)] assms(4) by metis
    have "world_ok config w'" using server.inv_run [OF r, of config] ok by blast
    from w_step_stopped [OF world_ok_not_crashed [OF this] z(2,1)]
    have "run (world_step cx b) w (ls @ [Ev_shutdown_returns None]) (w'\<lparr>w_stop := SD_returned None\<rparr>)"
      using r run_one unfolding run_append by metis
    then show ?thesis by (intro exI conjI) auto
  qed
  ultimately show ?thesis using blocked_write [OF ok assms(4)] by blast
qed

subsection \<open>The read deadline\<close>

text \<open>The deadline of a connection that has started to read never moves.\<close>

fun tcp_reading :: "tcp_phase \<Rightarrow> bool" where
  "tcp_reading T_start = False"
| "tcp_reading T_admitted = False"
| "tcp_reading (T_open _) = False"
| "tcp_reading _ = True"

lemma tcp_go_deadline:
  assumes "tcp_go cx (now, s, c) a (now', s', c')" and "tcp_reading (tc_phase c)"
  shows "tcp_reading (tc_phase c') \<and> tc_deadline c' = tc_deadline c \<and> tc_closed c' = tc_closed c \<and>
    (tc_deadline c \<le> now \<longrightarrow> tc_reads c' = tc_reads c \<and> received (Ev_conn i a) = 0)"
  using assms(1) by cases (use assms(2) in auto)

fun conn_event :: "nat \<Rightarrow> event \<Rightarrow> bool" where
  "conn_event i (Ev_conn j _) \<longleftrightarrow> i = j"
| "conn_event _ _ \<longleftrightarrow> False"

lemma reading_step:
  assumes "world_step cx b w e w'" and "i < length (w_conns w)" and "tcp_reading (tc_phase (w_conns w ! i))"
  shows "i < length (w_conns w') \<and> w_now w \<le> w_now w' \<and> tcp_reading (tc_phase (w_conns w' ! i)) \<and>
    tc_deadline (w_conns w' ! i) = tc_deadline (w_conns w ! i) \<and> tc_closed (w_conns w' ! i) = tc_closed (w_conns w ! i) \<and>
    (tc_deadline (w_conns w ! i) \<le> w_now w \<longrightarrow> tc_reads (w_conns w' ! i) = tc_reads (w_conns w ! i) \<and>
       of_bool (conn_event i e) + tcp_weight (tc_phase (w_conns w' ! i)) \<le> tcp_weight (tc_phase (w_conns w ! i)))"
proof (cases "conn_event i e")
  case True
  then obtain a where e: "e = Ev_conn i a" by (cases e) auto
  obtain s where go: "tcp_go cx (w_now w, w_srv w, w_conns w ! i) a (w_now w', s, w_conns w' ! i)"
    using assms(1) unfolding e by cases auto
  from tcp_go_deadline [OF this assms(3), of i] tcp_go_weight [OF this, of i] world_step_conns [OF assms(1,2)]
  show ?thesis using True by auto
next
  case False
  then have "w_conns w' ! i = w_conns w ! i" using world_step_conns [OF assms(1,2)] by auto
  then show ?thesis using False world_step_conns [OF assms(1,2)] assms(3) by simp
qed

lemma reading_run:
  assumes "run (world_step cx b) w ls w'" and "i < length (w_conns w)" and "tcp_reading (tc_phase (w_conns w ! i))"
  shows "i < length (w_conns w') \<and> tcp_reading (tc_phase (w_conns w' ! i)) \<and>
    tc_deadline (w_conns w' ! i) = tc_deadline (w_conns w ! i) \<and> tc_closed (w_conns w' ! i) = tc_closed (w_conns w ! i) \<and>
    (tc_deadline (w_conns w ! i) \<le> w_now w \<longrightarrow> tc_reads (w_conns w' ! i) = tc_reads (w_conns w ! i) \<and>
       length (filter (conn_event i) ls) + tcp_weight (tc_phase (w_conns w' ! i)) \<le> tcp_weight (tc_phase (w_conns w ! i)))"
  using assms
proof (induction rule: run.induct)
  case (run_Cons w e w1 ls w2)
  note st = reading_step [OF run_Cons.hyps(1) run_Cons.prems]
  then have "i < length (w_conns w1)" "tcp_reading (tc_phase (w_conns w1 ! i))" by blast+
  from run_Cons.IH [OF this] st show ?case by (cases "conn_event i e") auto
qed simp

text \<open>C33: The read deadline is absolute: a connection is read for at most sixty seconds, busy or not.  The deadline is
  set once, when the handler starts to read (\<^verbatim>\<open>readIdleTimeout\<close> after that moment), and no read moves it.  From the
  deadline on no data is read, and the handler takes at most a constant number of steps and three per byte in its
  reader (how long they take depends on \<^verbatim>\<open>Write\<close>, which has no deadline).  The handler does not close the
  connection, neither then nor later.\<close>

theorem read_deadline_is_absolute:
  assumes "started config w0" and "run (world_step cx b) w0 ls0 w"
    and "world_step cx b w e w1" and "i < length (w_conns w)" and "tc_phase (w_conns w ! i) = T_open session"
    and "tc_phase (w_conns w1 ! i) = T_read buf reader session'"
    and "run (world_step cx b) w1 ls w2" and "w_now w1 + 60 * Second \<le> w_now w2" and "run (world_step cx b) w2 ls' w3"
  shows "tc_deadline (w_conns w2 ! i) = w_now w1 + 60 * Second \<and> tc_reads (w_conns w3 ! i) = tc_reads (w_conns w2 ! i) \<and>
    length (filter (conn_event i) ls') \<le> tcp_weight (tc_phase (w_conns w2 ! i)) \<and> \<not> tc_closed (w_conns w3 ! i)"
proof -
  have "conn_ok config (w_conns w ! i)" using reachable_ok(2) [OF assms(1,2)] assms(4) by (simp add: world_ok_def list_all_length)
  then have open_w: "\<not> tc_closed (w_conns w ! i)" using assms(5) by (auto simp: conn_ok_def)
  note st = world_step_conns [OF assms(3,4)]
  then obtain a s where "tcp_go cx (w_now w, w_srv w, w_conns w ! i) a (w_now w1, s, w_conns w1 ! i)"
    using assms(5,6) by auto
  then have d: "tc_deadline (w_conns w1 ! i) = w_now w1 + 60 * Second" "\<not> tc_closed (w_conns w1 ! i)"
    by (cases; use assms(5,6) open_w in \<open>auto simp: readIdleTimeout_def time_Add_def\<close>)+
  have keep: "i < length (w_conns w2) \<and> tcp_reading (tc_phase (w_conns w2 ! i)) \<and>
      tc_deadline (w_conns w2 ! i) = tc_deadline (w_conns w1 ! i) \<and> tc_closed (w_conns w2 ! i) = tc_closed (w_conns w1 ! i)"
    using reading_run [OF assms(7), of i] st assms(6) by simp
  show ?thesis using reading_run [OF assms(9), of i] keep d assms(8) by auto
qed

subsection \<open>Too early a shutdown\<close>

text \<open>
  A server whose \<^verbatim>\<open>Shutdown\<close> ran before the accept loop stored its listener, and one in which the loop has stored
  it since.
\<close>

definition missed :: "world \<Rightarrow> bool" where
  "missed w \<longleftrightarrow> w_stop w \<noteq> SD_idle \<and> w_stop w \<noteq> SD_returned None \<and>
     (w_tcp w = L_spawned \<or> w_tcp w = L_bound \<or> w_tcp w = L_accept \<and> srv_tcpListener (w_srv w) = Some Listening)"

definition listen_failed :: "world \<Rightarrow> bool" where
  "listen_failed w \<longleftrightarrow> w_tcp w = L_exit \<or> w_tcp w = L_gone"

lemma missed_live: "world_ok config w \<Longrightarrow> missed w \<Longrightarrow> 0 < srv_wg (w_srv w)"
  using live_positive(3) [of w] by (auto simp: world_ok_def missed_def)

lemma missed_step:
  assumes "world_step cx b w e w'" and "world_ok config w" and "usable config" and "missed w"
  shows "missed w' \<or> listen_failed w' \<and> w_tcp w = L_spawned"
  using assms(1)
proof cases
  case (w_step_tcp a l s)
  have "\<not> loop_crashed l" using world_ok_tcp [OF assms(2,3) w_step_tcp(4)] by (simp add: world_ok_def)
  with w_step_tcp(4) show ?thesis
    by cases (use w_step_tcp assms(4) in \<open>auto simp: missed_def listen_failed_def\<close>)
next
  case (w_step_quic a l s)
  then show ?thesis using startQUIC_listener [OF w_step_quic(4)] assms(4) by (simp add: missed_def)
next
  case (w_step_conn i a t s c)
  then show ?thesis using tcp_go_listener(1) [OF w_step_conn(5)] assms(4) by (simp add: missed_def)
next
  case (w_step_qconn i a t s c)
  then show ?thesis using quic_go_listener(1) [OF w_step_qconn(5)] assms(4) by (simp add: missed_def)
next
  case w_step_stopped
  then show ?thesis using missed_live [OF assms(2,4)] by simp
qed (use assms(4) in \<open>simp_all add: missed_def\<close>)

lemma listen_failed_step: "world_step cx b w e w' \<Longrightarrow> listen_failed w \<Longrightarrow> \<not> crashed w' \<Longrightarrow> listen_failed w'"
  by (erule world_step.cases) (auto simp: listen_failed_def crashed_def elim: startTCP.cases)

lemma missed_run:
  assumes "run (world_step cx b) w ls w'" and "usable config" and "world_ok config w"
  shows "world_ok config w' \<and> (listen_failed w \<longrightarrow> listen_failed w') \<and> (missed w \<longrightarrow> missed w' \<or> listen_failed w') \<and>
    (missed w \<longrightarrow> w_tcp w = L_accept \<longrightarrow> missed w' \<and> w_tcp w' = L_accept)"
  using assms
proof (induction rule: run.induct)
  case (run_Cons w e w1 ls w2)
  note ok = world_ok_step [OF run_Cons.prems(2,1) run_Cons.hyps(1)]
  have a: "w_tcp w1 = L_accept" if "missed w" "w_tcp w = L_accept"
    using run_Cons.hyps(1) by cases (use that in \<open>auto simp: missed_def elim: startTCP.cases\<close>)
  show ?case
    using run_Cons.IH [OF run_Cons.prems(1) ok] missed_step [OF run_Cons.hyps(1) run_Cons.prems(2,1)] a
      listen_failed_step [OF run_Cons.hyps(1) _ world_ok_not_crashed [OF ok]] by auto
qed simp

text \<open>C35: A \<^verbatim>\<open>Shutdown\<close> that runs before the accept loop has stored its listener is lost on the loop: the field is
  still nil, so nothing is closed.  Whenever \<^verbatim>\<open>Shutdown\<close> is called while the loop is about to listen or to store
  the listener, then whatever happens, the loop is later still before that store, or accepts, or has failed to
  listen and leaves.  Once it accepts, then from that moment on, for ever, the server
  accepts connections from every address, the wait group is not empty, and \<^verbatim>\<open>Shutdown\<close> can end only with the
  error of its context, never with nil.\<close>

theorem early_shutdown_is_lost:
  assumes "started config w0" and "run (world_step cx b) w0 ls0 w" and "w_tcp w = L_spawned \<or> w_tcp w = L_bound"
    and "world_step cx b w Ev_shutdown w1" and "run (world_step cx b) w1 ls w2"
  shows "(w_tcp w2 \<in> {L_spawned, L_bound, L_accept, L_exit, L_gone}) \<and>
    (w_tcp w2 = L_accept \<longrightarrow>
      (\<forall>ls' w3. run (world_step cx b) w2 ls' w3 \<longrightarrow> w_stop w3 \<noteq> SD_returned None \<and> 0 < srv_wg (w_srv w3) \<and>
         (\<forall>addr. \<exists>w4. world_step cx b w3 (Ev_tcp (L_conn addr)) w4)))"
proof -
  note ok = reachable_ok [OF assms(1,2)]
  have ok1: "world_ok config w1" by (rule world_ok_step [OF ok(2,1) assms(4)])
  have m1: "missed w1" using assms(4) by cases (use assms(3) in \<open>auto simp: missed_def\<close>)
  note m2 = missed_run [OF assms(5) ok(1) ok1]
  have "w_stop w3 \<noteq> SD_returned None \<and> 0 < srv_wg (w_srv w3) \<and> (\<forall>addr. \<exists>w4. world_step cx b w3 (Ev_tcp (L_conn addr)) w4)"
    if "w_tcp w2 = L_accept" "run (world_step cx b) w2 ls' w3" for ls' w3
  proof -
    have m3: "missed w3" "w_tcp w3 = L_accept" "world_ok config w3"
      using missed_run [OF that(2) ok(1)] m1 m2 that(1) by (auto simp: listen_failed_def)
    then have "srv_tcpListener (w_srv w3) = Some Listening" by (auto simp: missed_def)
    from step_tcpI [OF tcp_accept [OF this] world_ok_not_crashed [OF m3(3)] m3(2) refl refl]
    have "\<exists>w4. world_step cx b w3 (Ev_tcp (L_conn addr)) w4" for addr by blast
    then show ?thesis using m3 missed_live by (auto simp: missed_def)
  qed
  moreover have "w_tcp w2 \<in> {L_spawned, L_bound, L_accept, L_exit, L_gone}"
    using m1 m2 by (auto simp: missed_def listen_failed_def)
  ultimately show ?thesis by blast
qed

subsection \<open>Without certificates\<close>

text \<open>C36: A server whose configuration has no TLS configuration, as \<^verbatim>\<open>DefaultServerConfig\<close> and every configuration
  loaded from a file, crashes: \<^verbatim>\<open>Start\<close> returns nil, and the first step of whichever accept loop runs first
  panics in the type assertion, which ends the process.\<close>

theorem no_certificates_crash:
  assumes "NewServer (Inr ce) t0 t0' (Some config) = Inr s" and "launch now s = Inr w" and "TLSConfig config = Any_nil"
    and "world_step cx b w (Ev_tcp L_step) w' \<or> world_step cx b w (Ev_quic L_step) w'"
  shows "crashed w' \<and> (\<forall>e w''. \<not> world_step cx b w' e w'')"
proof -
  have c: "listen_config (w_srv w) = Panic ''interface conversion: interface {} is nil, not *tls.Config''"
    and l: "w_tcp w \<in> {L_off, L_spawned}" "w_quic w \<in> {L_off, L_spawned}"
    using assms(1-3) by (auto simp: launch_def Start_def NewServer_def listen_config_def Let_def split: if_split_asm)
  have "crashed w'" using assms(4)
  proof
    assume "world_step cx b w (Ev_tcp L_step) w'"
    then show ?thesis by cases (use c l in \<open>auto simp: crashed_def elim!: startTCP.cases\<close>)
  next
    assume "world_step cx b w (Ev_quic L_step) w'"
    then show ?thesis by cases (use c l in \<open>auto simp: crashed_def elim!: startQUIC.cases\<close>)
  qed
  moreover have "\<not> world_step cx b w' e w''" if "crashed w'" for e w'' using that by (auto elim: world_step.cases)
  ultimately show ?thesis by blast
qed

subsection \<open>Examples\<close>

text \<open>The example server, called upon to stop while it has no connection, and while it has one.\<close>

definition stopping_server :: "world \<Rightarrow> world" where
  "stopping_server w = w\<lparr>w_srv := snd (Shutdown None (w_srv w)), w_stop := SD_wait\<rparr>"

lemma stopping_step: "\<not> crashed w \<Longrightarrow> w_stop w = SD_idle \<Longrightarrow> world_step cx b w Ev_shutdown (stopping_server w)"
  unfolding stopping_server_def by (rule w_step_shutdown [where r = "fst (Shutdown None (w_srv w))"]) simp_all

lemma new_conn_fields [simp]:
  "tc_phase (new_conn a) = T_start" "tc_addr (new_conn a) = a" "tc_reads (new_conn a) = []" "tc_writes (new_conn a) = []"
  "tc_frames (new_conn a) = []" "tc_clocks (new_conn a) = []" "\<not> tc_closed (new_conn a)"
  by (simp_all add: new_conn_def)

lemma demo_crash [simp]: "\<not> crashed demo_accepting" "\<not> crashed demo_connected" "\<not> crashed demo_world"
  by (simp_all add: crashed_def demo_connected_def demo_accepting_def new_conn_def)

lemma demo_fields [simp]:
  "w_stop demo_accepting = SD_idle" "w_stop demo_connected = SD_idle" "w_tcp demo_connected = L_accept"
  "w_conns demo_connected = [new_conn ''peer'']" "w_now demo_connected = 0"
  by (simp_all add: demo_connected_def demo_accepting_def)


lemma demo_stopping: "run (world_step cx b) demo_world [Ev_tcp L_step, Ev_tcp L_step, Ev_shutdown] (stopping_server demo_accepting)"
  using run_snoc [OF demo_listen stopping_step [OF demo_crash(1)]] by simp

theorem shutdown_drains_witness:
  "\<exists>ls w'. run (world_step stored_codecs True) (stopping_server demo_accepting) ls w' \<and> w_stop w' = SD_returned None"
proof -
  have "overdue (stopping_server demo_accepting)"
    by (simp add: overdue_def no_more_tcp_def stopping_server_def Shutdown_def close_listeners_eq demo_accepting_def Let_def)
  moreover have "w_stop (stopping_server demo_accepting) = SD_wait" by (simp add: stopping_server_def)
  ultimately show ?thesis using shutdown_drains [OF demo_started demo_stopping] by blast
qed

lemma demo_early_shutdown:
  "\<exists>w1 w2. world_step cx b demo_world Ev_shutdown w1 \<and> run (world_step cx b) w1 [Ev_tcp L_step, Ev_tcp L_step] w2 \<and> w_tcp w2 = L_accept"
proof -
  let ?a = "stopping_server demo_world"
  have a: "w_tcp ?a = L_spawned" "\<not> crashed ?a" "listen_config (w_srv ?a) = assert_tls (TLSConfig demo_config)" "w_conns ?a = []"
    by (simp_all add: stopping_server_def crashed_def Shutdown_def close_listeners_eq listen_config_def Let_def)
  have 1: "world_step cx b demo_world Ev_shutdown ?a" by (rule stopping_step) simp_all
  let ?b = "?a\<lparr>w_tcp := L_bound, w_srv := w_srv ?a, w_conns := w_conns ?a @ spawn_tcp L_step\<rparr>"
  obtain tc where "listen_config (w_srv ?a) = Ret tc" using a(3) by (simp add: demo_config_def)
  from step_tcpI [OF tcp_listen [OF this] a(2,1) refl refl] have 2: "world_step cx b ?a (Ev_tcp L_step) ?b" .
  let ?c = "?b\<lparr>w_tcp := L_accept, w_srv := (w_srv ?b)\<lparr>srv_tcpListener := Some Listening\<rparr>, w_conns := []\<rparr>"
  have 3: "world_step cx b ?b (Ev_tcp L_step) ?c"
    by (rule step_tcpI [OF tcp_store]) (use a(2) in \<open>simp_all add: crashed_def stopping_server_def\<close>)
  have r: "run (world_step cx b) ?a [Ev_tcp L_step, Ev_tcp L_step] ?c"
    by (rule run_Cons [where step = "world_step cx b", OF 2 run_one [where step = "world_step cx b", OF 3]])
  have "w_tcp ?c = L_accept" by (cases ?a) simp
  from conjI [OF 1 conjI [OF r this]] show ?thesis by (intro exI)
qed

theorem early_shutdown_is_lost_witness:
  "\<exists>w1 w2. world_step stored_codecs True demo_world Ev_shutdown w1 \<and>
     run (world_step stored_codecs True) w1 [Ev_tcp L_step, Ev_tcp L_step] w2 \<and> 0 < srv_wg (w_srv w2) \<and>
     (\<exists>w4. world_step stored_codecs True w2 (Ev_tcp (L_conn ''late'')) w4)"
proof -
  let ?st = "world_step stored_codecs True"
  obtain w1 w2 where w: "?st demo_world Ev_shutdown w1" "run ?st w1 [Ev_tcp L_step, Ev_tcp L_step] w2" "w_tcp w2 = L_accept"
    using demo_early_shutdown by metis
  from early_shutdown_is_lost [OF demo_started run_Nil [where step = ?st] _ w(1,2)] w(3)
  have "\<forall>ls' w3. run ?st w2 ls' w3 \<longrightarrow> w_stop w3 \<noteq> SD_returned None \<and> 0 < srv_wg (w_srv w3) \<and>
     (\<forall>addr. \<exists>w4. ?st w3 (Ev_tcp (L_conn addr)) w4)" by simp
  from this [rule_format, OF run_Nil [where step = ?st]]
  have "0 < srv_wg (w_srv w2) \<and> (\<exists>w4. ?st w2 (Ev_tcp (L_conn ''late'')) w4)" by blast
  from conjI [OF w(1) conjI [OF w(2) this]] show ?thesis by (intro exI)
qed

lemma launch_both:
  assumes "srv_config s = Some config" and "QUICAddr config \<noteq> ''''" and "TCPAddr config \<noteq> ''''"
  obtains w where "launch now s = Inr w" and "w_tcp w = L_spawned" and "\<not> crashed w" and "srv_config (w_srv w) = Some config"
  using assms by (simp add: launch_def Start_def crashed_def Let_def)

theorem no_certificates_crash_witness:
  "\<exists>w w'. launch 0 demo_server = Inr w \<and> world_step stored_codecs True w (Ev_tcp L_step) w' \<and> crashed w'"
proof -
  have a: "QUICAddr DefaultServerConfig \<noteq> ''''" "TCPAddr DefaultServerConfig \<noteq> ''''" by (simp_all add: DefaultServerConfig_def)
  obtain w where w: "launch 0 demo_server = Inr w" "w_tcp w = L_spawned" "\<not> crashed w" "srv_config (w_srv w) = Some DefaultServerConfig"
    using launch_both [OF demo_server_fields(1) a, of 0] by metis
  have "listen_config (w_srv w) = Panic ''interface conversion: interface {} is nil, not *tls.Config''"
    using w(4) by (simp add: listen_config_def DefaultServerConfig_def)
  from step_tcpI [OF tcp_listen_panic [OF this] w(3,2) refl refl]
  obtain w' where s: "world_step stored_codecs True w (Ev_tcp L_step) w'" by blast
  have "NewServer (Inr toy_engine) 0 0 (Some DefaultServerConfig) = Inr demo_server" by (simp add: demo_server_def NewServer_def)
  from no_certificates_crash [OF this w(1) _ disjI1 [OF s]] have "crashed w'" by (simp add: DefaultServerConfig_def)
  with w(1) s show ?thesis by blast
qed

text \<open>A connection that has been admitted and starts to read at time zero.\<close>

lemma demo_reading:
  obtains u2 u3 x buf where "run (world_step cx b) demo_connected [Ev_conn 0 Step, Ev_conn 0 Step] u2"
    and "world_step cx b u2 (Ev_conn 0 Step) u3" and "length (w_conns u2) = 1" and "tc_phase (w_conns u2 ! 0) = T_open x"
    and "length (w_conns u3) = 1" and "tc_phase (w_conns u3 ! 0) = T_read buf (NewFrameReader (MaxFrameSize demo_config)) x"
    and "w_now u3 = 0" and "w_stop u3 = SD_idle" and "\<not> crashed u3"
proof -
  let ?st = "world_step cx b" and ?c = "new_conn ''peer''"
  obtain crl where al: "AllowConnection ''peer'' (srv_connLimiter (w_srv demo_connected)) = (True, crl)"
    by (simp add: AllowConnection_def conn_count_def NewConnectionRateLimiter_def demo_connected_def demo_accepting_def)
  define u1 where "u1 = demo_connected\<lparr>w_now := 0, w_srv := (w_srv demo_connected)\<lparr>srv_connLimiter := crl\<rparr>,
      w_conns := [?c\<lparr>tc_phase := T_admitted\<rparr>]\<rparr>"
  have 1: "?st demo_connected (Ev_conn 0 Step) u1"
    by (rule step_connI [OF go_admitted]) (simp_all add: u1_def al)
  obtain x s where cs: "createSession ''id'' 0 (w_srv u1) = (x, s)" by (metis surj_pair)
  define u2 where "u2 = u1\<lparr>w_now := 0, w_srv := s, w_conns := [?c\<lparr>tc_phase := T_open x\<rparr>]\<rparr>"
  have 2: "?st u1 (Ev_conn 0 Step) u2"
    by (rule step_connI [OF go_session [OF _ _ cs, where c = "?c\<lparr>tc_phase := T_admitted\<rparr>"]]) (simp_all add: u2_def u1_def crashed_def demo_connected_def demo_accepting_def)
  have sc: "srv_config s = Some demo_config"
    using createSession_fields [OF cs] by (simp add: u1_def demo_connected_def demo_accepting_def)
  obtain buf bp where bg: "bp_Get None (srv_bufferPool s) = (buf, bp)" by (metis surj_pair)
  define u3 where "u3 = u2\<lparr>w_now := 0, w_srv := s\<lparr>srv_bufferPool := bp\<rparr>,
      w_conns := [?c\<lparr>tc_phase := T_read buf (NewFrameReader (MaxFrameSize demo_config)) x, tc_deadline := time_Add 0 readIdleTimeout\<rparr>]\<rparr>"
  have 3: "?st u2 (Ev_conn 0 Step) u3"
    by (rule step_connI [OF go_setup [OF _ _ sc bg, where c = "?c\<lparr>tc_phase := T_open x\<rparr>"]]) (simp_all add: u3_def u2_def u1_def crashed_def demo_connected_def demo_accepting_def)
  show thesis
    by (rule that [OF run_Cons [where step = ?st, OF 1 run_one [where step = ?st, OF 2]] 3])
      (simp_all add: u3_def u2_def u1_def crashed_def demo_connected_def demo_accepting_def)
qed

theorem read_deadline_is_absolute_witness:
  "\<exists>w1 w2. run (world_step stored_codecs True) demo_connected [Ev_conn 0 Step, Ev_conn 0 Step, Ev_conn 0 Step] w1 \<and>
     run (world_step stored_codecs True) w1 [Ev_clock (60 * Second)] w2 \<and> tc_deadline (w_conns w2 ! 0) = 60 * Second \<and>
     \<not> tc_closed (w_conns w2 ! 0)"
proof -
  let ?st = "world_step stored_codecs True"
  obtain u2 u3 x buf where r: "run ?st demo_connected [Ev_conn 0 Step, Ev_conn 0 Step] u2" "?st u2 (Ev_conn 0 Step) u3"
      "length (w_conns u2) = 1" "tc_phase (w_conns u2 ! 0) = T_open x"
      "tc_phase (w_conns u3 ! 0) = T_read buf (NewFrameReader (MaxFrameSize demo_config)) x" "w_now u3 = 0" "\<not> crashed u3"
    by (rule demo_reading)
  have 4: "run ?st u3 [Ev_clock (60 * Second)] (u3\<lparr>w_now := 60 * Second\<rparr>)"
    by (rule run_one [where step = ?st, OF w_step_clock]) (simp_all add: r time_defs)
  have d: "tc_deadline (w_conns (u3\<lparr>w_now := 60 * Second\<rparr>) ! 0) = 60 * Second \<and> \<not> tc_closed (w_conns (u3\<lparr>w_now := 60 * Second\<rparr>) ! 0)"
    using read_deadline_is_absolute [OF demo_started run_trans [OF demo_connect r(1)] r(2) _ r(4,5) 4 _ run_Nil] r(3,6) by simp
  have 3: "run ?st demo_connected [Ev_conn 0 Step, Ev_conn 0 Step, Ev_conn 0 Step] u3" using run_snoc [OF r(1,2)] by simp
  show ?thesis by (rule exI [of _ u3], rule exI, rule conjI [OF 3 conjI [OF 4 d]])
qed

end
