(* ===== verification/WB_Isolation.thy ===== *)
theory WB_Isolation
  imports WB_Shutdown
begin

text \<open>
  Connections that run side by side do not influence each other's answers: what a connection writes in any
  interleaving is what the sequential handler of \<open>WB_Server\<close> writes when it runs alone.
\<close>

subsection \<open>One address of the rate limiter\<close>

text \<open>Two limiters that will answer every later request of an address in the same way.\<close>

definition same_bucket :: "time \<Rightarrow> string \<Rightarrow> RateLimiter \<Rightarrow> RateLimiter \<Rightarrow> bool" where
  "same_bucket T ip rl rl' \<longleftrightarrow> maxTokens rl = maxTokens rl' \<and> refillRate rl = refillRate rl' \<and>
     (\<forall>t1 t2. T \<le> t1 \<longrightarrow> t1 \<le> t2 \<longrightarrow> ip_level t1 t2 ip rl = ip_level t1 t2 ip rl')"

lemma same_bucket_refl [simp]: "same_bucket T ip rl rl"
  by (simp add: same_bucket_def)

lemma same_bucket_later: "same_bucket T ip rl rl' \<Longrightarrow> T \<le> T' \<Longrightarrow> same_bucket T' ip rl rl'"
  by (simp add: same_bucket_def)

lemma same_bucket_ask:
  assumes "same_bucket T ip rl rl'" and "T \<le> t1" and "t1 \<le> t2" and "rl_AllowIP t1 t2 t3 ip rl' = (b, r')"
  shows "\<exists>r. rl_AllowIP t1 t2 t3 ip rl = (b, r) \<and> same_bucket T' ip r r'"
proof -
  have l: "ip_level t1 t2 ip rl = ip_level t1 t2 ip rl'" and p: "maxTokens rl = maxTokens rl'" "refillRate rl = refillRate rl'"
    using assms(1-3) by (auto simp: same_bucket_def)
  have "ip_level u1 u2 ip (snd (rl_AllowIP t1 t2 t3 ip rl)) = ip_level u1 u2 ip (snd (rl_AllowIP t1 t2 t3 ip rl'))" for u1 u2
    using l p by (simp add: rl_AllowIP_level Let_def ip_level_def [of u1] ip_bucket_def [of u1])
  moreover have "fst (rl_AllowIP t1 t2 t3 ip rl) = b" using l assms(4) by (auto simp: rl_AllowIP_level Let_def)
  ultimately show ?thesis
    using assms(4) p rl_AllowIP_others(1,2) [of t1 t2 t3 ip rl] rl_AllowIP_others(1,2) [of t1 t2 t3 ip rl']
    by (intro exI [of _ "snd (rl_AllowIP t1 t2 t3 ip rl)"]) (simp add: same_bucket_def prod_eq_iff)
qed

lemma same_bucket_other:
  assumes "same_bucket T ip rl rl'" and "ip \<noteq> other" and "rl_AllowIP t1 t2 t3 other rl' = (b, r')"
  shows "same_bucket T ip rl r'"
  using assms(1,2) ip_level_other [of other ip _ _ t1 t2 t3 rl'] rl_AllowIP_others(1,2) [of t1 t2 t3 other rl'] assms(3)
  by (simp add: same_bucket_def)

lemma same_bucket_cleanup:
  assumes "same_bucket now ip rl rl'" and "rl_ok now rl'" and "maxTokens rl' = 1000" and "refillRate rl' = 100"
    and "iteration_order (perIPLimiters rl') ord"
  shows "same_bucket now ip rl (rl_cleanup now ord rl')"
  using assms(1) ip_level_cleanup [OF assms(2-5)] by (simp add: same_bucket_def) (simp add: rl_cleanup_def)

subsection \<open>A connection and its sequential handler\<close>

definition then_frames :: "Frame list \<Rightarrow> Frame list \<times> FrameReader \<times> error go option \<Rightarrow> Frame list \<times> FrameReader \<times> error go option" where
  "then_frames fs r = (case r of (gs, r', e) \<Rightarrow> (fs @ gs, r', e))"

text \<open>The reader has delivered \<open>fs\<close> and waits for data; it has delivered \<open>fs\<close> and is in the inner loop.\<close>

definition read_to :: "FrameReader \<Rightarrow> bytes list \<Rightarrow> Frame list \<Rightarrow> FrameReader \<Rightarrow> bool" where
  "read_to r0 cs fs r \<longleftrightarrow> (\<forall>more. feed_read r0 (cs @ more) = then_frames fs (feed_read r more))"

definition parse_to :: "FrameReader \<Rightarrow> bytes list \<Rightarrow> Frame list \<Rightarrow> FrameReader \<Rightarrow> bool" where
  "parse_to r0 cs fs r \<longleftrightarrow> (\<forall>more. feed_read r0 (cs @ more) = then_frames fs
     (case read_loop r of (gs, r', Some e) \<Rightarrow> (gs, r', Some e) | (gs, r', None) \<Rightarrow> then_frames gs (feed_read r' more)))"

lemma read_to_parse: "read_to r0 cs fs r \<Longrightarrow> parse_to r0 (cs @ [c]) fs (Feed r c)"
  by (simp add: read_to_def parse_to_def) (simp add: then_frames_def cong: option.case_cong)

lemma then_frames_Nil [simp]: "then_frames [] r = r"
  by (simp add: then_frames_def split: prod.split)

lemma then_frames_append: "then_frames fs (then_frames gs r) = then_frames (fs @ gs) r"
  by (simp add: then_frames_def split: prod.split)

lemma parse_to_read:
  assumes "parse_to r0 cs fs r" and "ReadFrame r = Ret (Inr None, r')"
  shows "read_to r0 cs fs r'"
  using assms by (simp add: read_to_def parse_to_def read_loop.simps [of r])

lemma parse_to_frame:
  assumes "parse_to r0 cs fs r" and "ReadFrame r = Ret (Inr (Some f), r')"
  shows "parse_to r0 cs (fs @ [f]) r'"
proof -
  have "then_frames fs (case read_loop r of (gs, r', Some e) \<Rightarrow> (gs, r', Some e) | (gs, r', None) \<Rightarrow> then_frames gs (feed_read r' more)) =
     then_frames (fs @ [f]) (case read_loop r' of (gs, r', Some e) \<Rightarrow> (gs, r', Some e) | (gs, r', None) \<Rightarrow> then_frames gs (feed_read r' more))" for more
    using assms(2) by (simp add: read_loop.simps [of r] then_frames_def split: prod.split option.split)
  with assms(1) show ?thesis by (simp add: parse_to_def)
qed

lemma parse_to_bad:
  assumes "parse_to r0 cs fs r" and "ReadFrame r = Ret (Inl err, r')"
  shows "feed_read r0 cs = (fs, r', Some (Ret err))"
  using assms(1) [unfolded parse_to_def, rule_format, of "[]"] assms(2) by (simp add: read_loop.simps [of r] then_frames_def)

lemma read_to_end: "read_to r0 cs fs r \<Longrightarrow> feed_read r0 cs = (fs, r, None)"
  using spec [of "\<lambda>more. feed_read r0 (cs @ more) = then_frames fs (feed_read r more)" "[]"]
  by (simp add: read_to_def then_frames_def)

lemma handle_frames_clock:
  "(\<And>j. j < length fs \<Longrightarrow> clk (k + j) = clk' (k + j)) \<Longrightarrow>
     handle_frames clk ce cx ip k fs rl x = handle_frames clk' ce cx ip k fs rl x"
proof (induction fs arbitrary: k rl x)
  case (Cons f fs)
  have "clk k = clk' k" using Cons.prems [of 0] by simp
  moreover have "handle_frames clk ce cx ip (Suc k) fs rl' x' = handle_frames clk' ce cx ip (Suc k) fs rl' x'" for rl' x'
    using Cons.prems [of "Suc j" for j] by (intro Cons.IH) simp
  ultimately show ?case by (simp split: prod.split bool.split)
qed simp

subsection \<open>The simulation\<close>

text \<open>
  The relation between a connection in the middle of its run and the sequential handler that starts with the
  limiter \<open>rl0\<close>: the frames so far are those of the chunks so far, the answers so far are those of
  \<open>handle_frames\<close>, and the shared limiter treats the address like the handler's own.
\<close>

definition new_session :: "Session \<Rightarrow> bool" where
  "new_session x \<longleftrightarrow> (\<exists>sid t s. x = fst (createSession sid t s))"

abbreviation clock_of :: "tcp_conn \<Rightarrow> clock" where
  "clock_of c \<equiv> (\<lambda>k. tc_clocks c ! k)"

definition handled :: "codecs \<Rightarrow> CryptoEngine \<Rightarrow> RateLimiter \<Rightarrow> tcp_conn \<Rightarrow> Frame list \<Rightarrow> RateLimiter \<Rightarrow> Session \<Rightarrow> bool" where
  "handled cx ce rl0 c fs rl x \<longleftrightarrow> (\<exists>x0. new_session x0 \<and>
     handle_frames (clock_of c) ce cx (tc_addr c) 0 fs rl0 x0 = (tc_writes c, length fs, rl, x))"

definition ended :: "codecs \<Rightarrow> CryptoEngine \<Rightarrow> FrameReader \<Rightarrow> RateLimiter \<Rightarrow> tcp_conn \<Rightarrow> bool" where
  "ended cx ce r0 rl0 c \<longleftrightarrow> (\<exists>r e rl x. feed_read r0 (tc_reads c) = (tc_frames c, r, e) \<and> handled cx ce rl0 c (tc_frames c) rl x)"

fun sim_phase :: "codecs \<Rightarrow> CryptoEngine \<Rightarrow> FrameReader \<Rightarrow> RateLimiter \<Rightarrow> time \<Rightarrow> RateLimiter \<Rightarrow> tcp_conn \<Rightarrow> tcp_phase \<Rightarrow> bool" where
  "sim_phase cx ce r0 rl0 now rl c (T_read _ r x) =
     (read_to r0 (tc_reads c) (tc_frames c) r \<and> length (tc_clocks c) = length (tc_frames c) \<and>
      (\<exists>rl'. handled cx ce rl0 c (tc_frames c) rl' x \<and> same_bucket now (tc_addr c) rl' rl))"
| "sim_phase cx ce r0 rl0 now rl c (T_parse _ r x) =
     (parse_to r0 (tc_reads c) (tc_frames c) r \<and> length (tc_clocks c) = length (tc_frames c) \<and>
      (\<exists>rl'. handled cx ce rl0 c (tc_frames c) rl' x \<and> same_bucket now (tc_addr c) rl' rl))"
| "sim_phase cx ce r0 rl0 now rl c (T_limit _ r x f) =
     (parse_to r0 (tc_reads c) (tc_frames c @ [f]) r \<and> length (tc_clocks c) = length (tc_frames c) \<and>
      (\<exists>rl'. handled cx ce rl0 c (tc_frames c) rl' x \<and> same_bucket now (tc_addr c) rl' rl))"
| "sim_phase cx ce r0 rl0 now rl c (T_handle _ r x f) =
     (parse_to r0 (tc_reads c) (tc_frames c) r \<and> length (tc_clocks c) = length (tc_frames c) \<and>
      (\<exists>fs rl1 rl' t1 t2 t3. tc_frames c = fs @ [f] \<and> handled cx ce rl0 c fs rl1 x \<and>
         tc_clocks c ! length fs = (t1, t2, t3) \<and> rl_AllowIP t1 t2 t3 (tc_addr c) rl1 = (True, rl') \<and>
         same_bucket now (tc_addr c) rl' rl))"
| "sim_phase cx ce r0 rl0 now rl c (T_write _ r x) =
     (parse_to r0 (tc_reads c) (tc_frames c) r \<and> length (tc_clocks c) = length (tc_frames c) \<and>
      (\<exists>rl'. handled cx ce rl0 c (tc_frames c) rl' x \<and> same_bucket now (tc_addr c) rl' rl))"
| "sim_phase cx ce r0 rl0 now rl c (T_panic _) = False"
| "sim_phase cx ce r0 rl0 now rl c p =
     (if p = T_start \<or> p = T_admitted \<or> (\<exists>x. p = T_open x \<and> new_session x)
      then tc_reads c = [] \<and> tc_frames c = [] \<and> tc_clocks c = [] \<and> tc_writes c = [] \<and> same_bucket now (tc_addr c) rl0 rl
      else (\<forall>x. p \<noteq> T_open x) \<and> ended cx ce r0 rl0 c)"

definition conn_sim :: "codecs \<Rightarrow> CryptoEngine \<Rightarrow> FrameReader \<Rightarrow> RateLimiter \<Rightarrow> time \<Rightarrow> RateLimiter \<Rightarrow> tcp_conn \<Rightarrow> bool" where
  "conn_sim cx ce r0 rl0 now rl c = sim_phase cx ce r0 rl0 now rl c (tc_phase c)"

lemma handled_Nil: "new_session x \<Longrightarrow> tc_writes c = [] \<Longrightarrow> handled cx ce rl0 c [] rl0 x"
  by (auto simp: handled_def)

lemma read_to_Nil: "read_to r0 [] [] r0"
  by (simp add: read_to_def)

text \<open>Fields that the predicates do not read may change.\<close>

lemma handled_phase [simp]:
  "handled cx ce rl0 (c\<lparr>tc_phase := p\<rparr>) = handled cx ce rl0 c"
  "handled cx ce rl0 (c\<lparr>tc_phase := p, tc_deadline := d\<rparr>) = handled cx ce rl0 c"
  "handled cx ce rl0 (c\<lparr>tc_phase := p, tc_reads := cs\<rparr>) = handled cx ce rl0 c"
  by (simp_all add: handled_def fun_eq_iff)

lemma ended_phase [simp]: "ended cx ce r0 rl0 (c\<lparr>tc_phase := p\<rparr>) = ended cx ce r0 rl0 c"
  by (simp add: ended_def)

text \<open>One more clock reading does not change what was handled before.\<close>

lemma handled_clock:
  assumes "handled cx ce rl0 c fs rl x" and "length fs \<le> length (tc_clocks c)"
    and "tc_addr c' = tc_addr c" and "tc_writes c' = tc_writes c" and "tc_clocks c' = tc_clocks c @ ts"
  shows "handled cx ce rl0 c' fs rl x"
proof -
  have "handle_frames (clock_of c') ce cx (tc_addr c) 0 fs rl0 x0 = handle_frames (clock_of c) ce cx (tc_addr c) 0 fs rl0 x0" for x0
    using assms(2,5) by (intro handle_frames_clock) (simp add: nth_append)
  with assms(1,3,4) show ?thesis by (simp add: handled_def)
qed

text \<open>A frame that the limiter drops, and one that is answered.\<close>

lemma handled_drop:
  assumes "handled cx ce rl0 c fs rl x" and "tc_clocks c ! length fs = (t1, t2, t3)"
    and "rl_AllowIP t1 t2 t3 (tc_addr c) rl = (False, rl')"
  shows "handled cx ce rl0 c (fs @ [f]) rl' x"
  using assms by (auto simp: handled_def handle_frames_append)

lemma handled_answer:
  assumes "handled cx ce rl0 c fs rl x" and "tc_clocks c ! length fs = (t1, t2, t3)"
    and "rl_AllowIP t1 t2 t3 (tc_addr c) rl = (True, rl')" and "handleFrame ce cx x f Conn_writer = (x', out)"
    and "tc_addr c' = tc_addr c" and "tc_writes c' = tc_writes c @ out" and "tc_clocks c' = tc_clocks c"
  shows "handled cx ce rl0 c' (fs @ [f]) rl' x'"
  using assms by (auto simp: handled_def handle_frames_append)

lemma tcp_go_sim:
  assumes "tcp_go cx (now, s, c) a (now', s', c')" and "conn_sim cx ce (NewFrameReader (MaxFrameSize config)) rl0 now (srv_rateLimiter s) c"
    and "srv_config s = Some config" and "srv_crypto s = ce" and "srv_ok config now s" and "conn_ok config c"
    and "frame_limit_ok config" and "tcp_live (tc_phase c) \<longrightarrow> 0 < srv_wg s"
  shows "conn_sim cx ce (NewFrameReader (MaxFrameSize config)) rl0 now' (srv_rateLimiter s') c'"
proof -
  note ok = tcp_go_ok [OF assms(1,5-8)]
  note sim = assms(2) [unfolded conn_sim_def]
  note conn_sim_def [simp]
  from assms(1) show ?thesis
  proof cases
    case (go_refused crl)
    obtain x where "new_session x" by (auto simp: new_session_def)
    then have "handled cx ce rl0 c' [] rl0 x" using sim go_refused by (intro handled_Nil) simp_all
    then have "ended cx ce (NewFrameReader (MaxFrameSize config)) rl0 c'" using sim go_refused by (auto simp: ended_def)
    then show ?thesis using go_refused by simp
  next
    case (go_session sid session)
    then show ?thesis using sim ok(3) by (auto simp: createSession_def new_session_def Let_def intro: same_bucket_later)
  next
    case (go_setup session config' choice buf bp)
    then show ?thesis using sim assms(3) by (auto simp: read_to_Nil intro: handled_Nil same_bucket_later split: if_split_asm)
  next
    case (go_read buf reader session data)
    then show ?thesis using sim by (auto simp: read_to_parse intro: same_bucket_later)
  next
    case (go_read_timeout buf reader session)
    then show ?thesis using sim read_to_end by (fastforce simp: ended_def)
  next
    case (go_read_ended buf reader session)
    then show ?thesis using sim read_to_end by (fastforce simp: ended_def)
  next
    case (go_no_frame buf reader session reader')
    then show ?thesis using sim parse_to_read by auto
  next
    case (go_bad_frame buf reader session err reader')
    then show ?thesis using sim parse_to_bad by (fastforce simp: ended_def)
  next
    case (go_frame buf reader session frame reader')
    then show ?thesis using sim parse_to_frame by auto
  next
    case (go_limited buf reader session frame t1 t2 rl)
    then obtain rl' where h: "handled cx ce rl0 c (tc_frames c) rl' session" "same_bucket now (tc_addr c) rl' (srv_rateLimiter s)"
      and p: "parse_to (NewFrameReader (MaxFrameSize config)) (tc_reads c) (tc_frames c @ [frame]) reader"
        "length (tc_clocks c) = length (tc_frames c)"
      using sim by auto
    obtain r where r: "rl_AllowIP t1 t2 now' (tc_addr c) rl' = (False, r)" "same_bucket now' (tc_addr c) r rl"
      using same_bucket_ask [OF h(2) go_limited(5,6,8)] by blast
    have "handled cx ce rl0 c' (tc_frames c) rl' session"
      by (rule handled_clock [OF h(1)]) (use go_limited p in simp_all)
    from handled_drop [OF this _ ] r(1) have "handled cx ce rl0 c' (tc_frames c @ [frame]) r session"
      using go_limited p(2) by (simp add: nth_append)
    then show ?thesis using go_limited r(2) p by auto
  next
    case (go_allowed buf reader session frame t1 t2 rl)
    then obtain rl' where h: "handled cx ce rl0 c (tc_frames c) rl' session" "same_bucket now (tc_addr c) rl' (srv_rateLimiter s)"
      and p: "parse_to (NewFrameReader (MaxFrameSize config)) (tc_reads c) (tc_frames c @ [frame]) reader"
        "length (tc_clocks c) = length (tc_frames c)"
      using sim by auto
    obtain r where r: "rl_AllowIP t1 t2 now' (tc_addr c) rl' = (True, r)" "same_bucket now' (tc_addr c) r rl"
      using same_bucket_ask [OF h(2) go_allowed(5,6,8)] by blast
    have "handled cx ce rl0 c' (tc_frames c) rl' session"
      by (rule handled_clock [OF h(1)]) (use go_allowed p in simp_all)
    then show ?thesis using go_allowed r p by (auto simp: nth_append)
  next
    case (go_handle buf reader session frame session' out)
    then obtain fs rl1 rl' t1 t2 t3 where h: "tc_frames c = fs @ [frame]" "handled cx ce rl0 c fs rl1 session"
        "tc_clocks c ! length fs = (t1, t2, t3)" "rl_AllowIP t1 t2 t3 (tc_addr c) rl1 = (True, rl')"
        "same_bucket now (tc_addr c) rl' (srv_rateLimiter s)"
      using sim by auto
    have "handled cx ce rl0 c' (fs @ [frame]) rl' session'"
      by (rule handled_answer [OF h(2-4)]) (use go_handle assms(4) in simp_all)
    then show ?thesis using go_handle sim h(1,5) by auto
  qed (use sim ok(2) in \<open>auto simp: conn_ok_def dest!: createSession_fields simp: closeSession_def wg_Done_def Let_def split: if_split_asm\<close>)
qed

subsection \<open>The connection among the others\<close>

text \<open>
  The connection \<open>i\<close>, from the start of the server: before it is accepted nobody asks the limiter about its
  address, afterwards only itself.
\<close>

definition alone :: "codecs \<Rightarrow> CryptoEngine \<Rightarrow> ServerConfig \<Rightarrow> RateLimiter \<Rightarrow> nat \<Rightarrow> string \<Rightarrow> world \<Rightarrow> bool" where
  "alone cx ce config rl0 i addr w \<longleftrightarrow> srv_crypto (w_srv w) = ce \<and>
     (if i < length (w_conns w)
      then tc_addr (w_conns w ! i) = addr \<and>
           conn_sim cx ce (NewFrameReader (MaxFrameSize config)) rl0 (w_now w) (srv_rateLimiter (w_srv w)) (w_conns w ! i)
      else same_bucket (w_now w) addr rl0 (srv_rateLimiter (w_srv w)))"

lemma conn_sim_shared:
  assumes "conn_sim cx ce r0 rl0 now rl c" and "now \<le> t"
    and "\<And>rl'. same_bucket now (tc_addr c) rl' rl \<Longrightarrow> same_bucket t (tc_addr c) rl' rl2"
  shows "conn_sim cx ce r0 rl0 t rl2 c"
  using assms(1) unfolding conn_sim_def by (cases "tc_phase c") (auto dest: assms(3) split: if_split_asm, blast dest: assms(3))

lemma alone_shared:
  assumes "alone cx ce config rl0 i addr w" and "w_conns w' = w_conns w" and "w_now w \<le> w_now w'"
    and "srv_crypto (w_srv w') = srv_crypto (w_srv w)"
    and "\<And>rl'. same_bucket (w_now w) addr rl' (srv_rateLimiter (w_srv w)) \<Longrightarrow> same_bucket (w_now w') addr rl' (srv_rateLimiter (w_srv w'))"
  shows "alone cx ce config rl0 i addr w'"
  using assms conn_sim_shared [OF _ assms(3), where ?rl2.0 = "srv_rateLimiter (w_srv w')" and c = "w_conns w ! i"]
  by (auto simp: alone_def)

text \<open>The addresses of the connections of a world: later ones come at the end.\<close>

definition addrs :: "world \<Rightarrow> string list" where
  "addrs w = map tc_addr (w_conns w)"

lemma addrs_step: "world_step cx b w e w' \<Longrightarrow> \<exists>more. addrs w' = addrs w @ more"
proof (erule world_step.cases, goal_cases)
  case (3 w i a t s c)
  then have "tc_addr c = tc_addr (w_conns w ! i)" by (auto elim: tcp_go.cases)
  with 3 show ?case by (intro exI [of _ "[]"]) (simp add: addrs_def map_update list_update_same_conv)
qed (auto simp: addrs_def)

lemma addrs_run: "run (world_step cx b) w ls w' \<Longrightarrow> \<exists>more. addrs w' = addrs w @ more"
proof (induction rule: run.induct)
  case (run_Cons w e w1 ls w2)
  then show ?case using addrs_step by (metis append.assoc)
qed simp

definition lone_address :: "nat \<Rightarrow> string \<Rightarrow> world \<Rightarrow> bool" where
  "lone_address i addr w \<longleftrightarrow> (\<forall>j < length (addrs w). addrs w ! j = addr \<longleftrightarrow> j = i)"

lemma lone_address_before:
  assumes "run (world_step cx b) w ls w'" and "lone_address i addr w'"
  shows "lone_address i addr w"
proof -
  obtain more where "addrs w' = addrs w @ more" using addrs_run [OF assms(1)] by blast
  with assms(2) show ?thesis by (auto simp: lone_address_def nth_append) (metis trans_less_add1)+
qed

lemma tcp_go_bucket:
  assumes "tcp_go cx (now, s, c) a (now', s', c')" and "tc_addr c \<noteq> addr" and "same_bucket now addr rl (srv_rateLimiter s)"
  shows "same_bucket now' addr rl (srv_rateLimiter s')"
proof -
  note le = tcp_go_listener(2) [OF assms(1)]
  have s: "same_bucket now' addr rl (srv_rateLimiter s)" by (rule same_bucket_later [OF assms(3) le])
  from assms(1) show ?thesis
  proof cases
    case (go_limited buf reader session frame t1 t2 rl)
    then show ?thesis using same_bucket_other [OF s _ go_limited(8)] assms(2) by simp
  next
    case (go_allowed buf reader session frame t1 t2 rl)
    then show ?thesis using same_bucket_other [OF s _ go_allowed(8)] assms(2) by simp
  qed (use s in \<open>auto dest!: createSession_fields simp: closeSession_def wg_Done_def Let_def split: if_split_asm\<close>)
qed

lemma alone_conn:
  assumes "alone cx ce config rl0 i addr w" and "world_ok config w" and "usable config" and "lone_address i addr w"
    and "j < length (w_conns w)" and "tcp_go cx (w_now w, w_srv w, w_conns w ! j) a (t, s, c)"
  shows "alone cx ce config rl0 i addr (w\<lparr>w_now := t, w_srv := s, w_conns := (w_conns w)[j := c]\<rparr>)"
proof -
  have ok: "srv_ok config (w_now w) (w_srv w)" "conn_ok config (w_conns w ! j)" "frame_limit_ok config"
      "tcp_live (tc_phase (w_conns w ! j)) \<longrightarrow> 0 < srv_wg (w_srv w)" "srv_config (w_srv w) = Some config"
    using assms(2,3,5) live_positive(1) [of "w_conns w ! j" w]
    by (auto simp: world_ok_def usable_def srv_ok_def list_all_length)
  note step = tcp_go_ok [OF assms(6) ok(1-4)]
  have ce: "srv_crypto s = ce" using step(4) assms(1) by (simp add: srv_frame_def alone_def)
  show ?thesis
  proof (cases "j = i")
    case True
    then have "conn_sim cx ce (NewFrameReader (MaxFrameSize config)) rl0 t (srv_rateLimiter s) c"
      using assms(1,5) by (intro tcp_go_sim [OF assms(6) _ ok(5) _ ok(1-4)]) (auto simp: alone_def)
    then show ?thesis using True ce assms(1,5) step(5) by (simp add: alone_def)
  next
    case False
    have "tc_addr (w_conns w ! j) \<noteq> addr" using assms(4,5) False by (auto simp: lone_address_def addrs_def)
    note b = tcp_go_bucket [OF assms(6) this]
    have "alone cx ce config rl0 i addr (w\<lparr>w_now := t, w_srv := s\<rparr>)"
      by (rule alone_shared [OF assms(1)]) (use step(3) ce assms(1) b in \<open>simp_all add: alone_def\<close>)
    then show ?thesis using False by (simp add: alone_def split: if_split_asm)
  qed
qed

lemma alone_step:
  assumes "world_step cx b w e w'" and "alone cx ce config rl0 i addr w" and "world_ok config w" and "usable config"
    and "lone_address i addr w'"
  shows "alone cx ce config rl0 i addr w'"
proof -
  have lone: "lone_address i addr w" by (rule lone_address_before [OF run_one [where step = "world_step cx b", OF assms(1)] assms(5)])
  from assms(1) show ?thesis
  proof cases
    case (w_step_tcp a l s)
    have s: "srv_rateLimiter s = srv_rateLimiter (w_srv w)" "srv_crypto s = srv_crypto (w_srv w)"
      using w_step_tcp(4) by (auto elim!: startTCP.cases simp: wg_Done_def split: if_split_asm)
    have new: "tc_addr (w_conns w' ! i) = addr" if "i < length (w_conns w')"
      using assms(5) that by (simp add: lone_address_def addrs_def)
    have "conn_sim cx ce (NewFrameReader (MaxFrameSize config)) rl0 (w_now w) (srv_rateLimiter s) (new_conn addr)"
      if "\<not> i < length (w_conns w)" using assms(2) that s by (simp add: alone_def conn_sim_def)
    then show ?thesis using assms(2) s new w_step_tcp
      by (cases a) (auto simp: alone_def nth_append less_Suc_eq)
  next
    case (w_step_quic a l s)
    have "srv_rateLimiter s = srv_rateLimiter (w_srv w)" "srv_crypto s = srv_crypto (w_srv w)"
      using w_step_quic(4) by (auto elim!: startQUIC.cases simp: wg_Done_def split: if_split_asm)
    then show ?thesis using w_step_quic by (intro alone_shared [OF assms(2)]) simp_all
  next
    case (w_step_conn j a t s c)
    then show ?thesis using alone_conn [OF assms(2-4) lone] by simp
  next
    case (w_step_qconn j a t s c)
    have ok: "srv_ok config (w_now w) (w_srv w)" "qconn_ok config (w_qconns w ! j)" "frame_limit_ok config"
        "quic_live (qc_phase (w_qconns w ! j)) \<longrightarrow> 0 < srv_wg (w_srv w)"
      using assms(3,4) w_step_qconn(4) live_positive(2) [of "w_qconns w ! j" w]
      by (auto simp: world_ok_def usable_def list_all_length)
    from quic_go_ok [OF w_step_qconn(5) this] show ?thesis
      using w_step_qconn by (intro alone_shared [OF assms(2)]) (auto simp: srv_frame_def intro: same_bucket_later)
  next
    case (w_step_clock t)
    then show ?thesis by (intro alone_shared [OF assms(2)]) (auto intro: same_bucket_later)
  next
    case (w_step_cleanup ord)
    then show ?thesis using assms(3)
      by (intro alone_shared [OF assms(2)]) (auto intro!: same_bucket_cleanup simp: world_ok_def srv_ok_def)
  next
    case (w_step_shutdown r s)
    then have "srv_rateLimiter s = srv_rateLimiter (w_srv w)" "srv_crypto s = srv_crypto (w_srv w)"
      by (auto simp: Shutdown_def close_listeners_eq Let_def split: if_split_asm)
    then show ?thesis using w_step_shutdown by (intro alone_shared [OF assms(2)]) simp_all
  qed (use alone_shared [OF assms(2)] in simp_all)
qed

lemma alone_run:
  assumes "run (world_step cx b) w ls w'" and "alone cx ce config rl0 i addr w" and "world_ok config w" and "usable config"
    and "lone_address i addr w'"
  shows "alone cx ce config rl0 i addr w'"
  using assms
proof (induction rule: run.induct)
  case (run_Cons w e w1 ls w2)
  have "lone_address i addr w1" by (rule lone_address_before [OF run_Cons.hyps(2) run_Cons.prems(4)])
  then show ?case
    using run_Cons alone_step [OF run_Cons.hyps(1)] world_ok_step [OF _ _ run_Cons.hyps(1)] by blast
qed

text \<open>C2: Connections do not influence each other's answers.  Take any interleaving of the goroutines of a server, with
  any number of TCP and QUIC connections, clean-ups of the limiter and a shutdown: if no other TCP connection
  has the remote address (which includes the port) of a connection, then what that connection has written
  when its handler ends is exactly what \<^verbatim>\<open>handleTCPConnection\<close>, run alone on the new server with the same
  reads and the same readings of the clock, writes.\<close>

theorem connections_do_not_interfere:
  assumes "started config w0" and "run (world_step cx b) w0 ls w" and "i < length (w_conns w)" and "c = w_conns w ! i"
    and "tc_phase c = T_gone" and "lone_address i (tc_addr c) w"
  shows "\<exists>sid t session s. handleTCPConnection sid t (\<lambda>k. tc_clocks c ! k) None cx (tc_addr c) (tc_reads c) (w_srv w0) =
    Ret (tc_writes c, False, Some session, s)"
proof -
  note ok = started_ok [OF assms(1)]
  have w0: "w_conns w0 = []" "srv_config (w_srv w0) = Some config" "srv_connLimiter (w_srv w0) = NewConnectionRateLimiter 10"
    by (rule started_cases [OF assms(1)]; auto simp: NewServer_def)+
  let ?ce = "srv_crypto (w_srv w0)" and ?rl = "srv_rateLimiter (w_srv w0)" and ?r0 = "NewFrameReader (MaxFrameSize config)"
  have "alone cx ?ce config ?rl i (tc_addr c) w0" by (simp add: alone_def w0)
  from alone_run [OF assms(2) this _ _ assms(6)] ok
  have "conn_sim cx ?ce ?r0 ?rl (w_now w) (srv_rateLimiter (w_srv w)) c" using assms(3,4) by (simp add: alone_def)
  then obtain r e rl x x0 where f: "feed_read ?r0 (tc_reads c) = (tc_frames c, r, e)"
    and h: "handle_frames (clock_of c) ?ce cx (tc_addr c) 0 (tc_frames c) ?rl x0 = (tc_writes c, length (tc_frames c), rl, x)"
    using assms(5) by (auto simp: conn_sim_def ended_def handled_def)
  have "fst (AllowConnection (tc_addr c) (NewConnectionRateLimiter 10))"
    by (simp add: AllowConnection_def conn_count_def NewConnectionRateLimiter_def)
  then obtain crl where al: "AllowConnection (tc_addr c) (srv_connLimiter (w_srv w0)) = (True, crl)"
    unfolding w0 by (cases "AllowConnection (tc_addr c) (NewConnectionRateLimiter 10)") auto
  have "frame_limit_ok config" using ok by (simp add: usable_def)
  from handleTCPConnection_accepted [OF al w0(2) f feed_read_no_panic [OF this f], of _ _ "clock_of c" None cx]
    handle_frames_out [of "clock_of c" ?ce cx "tc_addr c" 0 "tc_frames c" ?rl x0] h
  show ?thesis by fastforce
qed

subsection \<open>An example\<close>

text \<open>A handler can always run to its end, when the peer hangs up and its writes return, and then has read what it had read.\<close>

lemma conn_can_finish:
  assumes "usable config" and "world_ok config w" and "i < length (w_conns w)"
  shows "\<exists>ls w'. run (world_step cx b) w ls w' \<and> i < length (w_conns w') \<and> tc_phase (w_conns w' ! i) = T_gone \<and>
    tc_reads (w_conns w' ! i) = tc_reads (w_conns w ! i) \<and> addrs w' = addrs w"
  using assms(2,3)
proof (induction "tcp_weight (tc_phase (w_conns w ! i))" arbitrary: w rule: less_induct)
  case less
  show ?case
  proof (cases "tcp_live (tc_phase (w_conns w ! i))")
    case False
    then have "tc_phase (w_conns w ! i) = T_gone" by (cases "tc_phase (w_conns w ! i)") simp_all
    with less.prems(2) show ?thesis by (intro exI [of _ "[]"] exI [of _ w]) (simp add: run_Nil)
  next
    case True
    have "conn_ok config (w_conns w ! i)" "srv_config (w_srv w) = Some config" "frame_limit_ok config" "0 < srv_wg (w_srv w)"
      using less.prems assms(1) True live_positive(1) [of "w_conns w ! i" w]
      by (auto simp: world_ok_def srv_ok_def usable_def list_all_length)
    from tcp_go_progress [OF this True] tcp_go_answered [of "w_now w" "w_conns w ! i" cx "w_srv w"]
    obtain a t s c where go: "tcp_go cx (w_now w, w_srv w, w_conns w ! i) a (t, s, c)" and a: "received (Ev_conn i a) = 0"
      by (cases "tcp_waiting (w_now w) (w_conns w ! i)") force+
    let ?w1 = "w\<lparr>w_now := t, w_srv := s, w_conns := (w_conns w)[i := c]\<rparr>"
    have st: "world_step cx b w (Ev_conn i a) ?w1"
      by (rule w_step_conn [OF world_ok_not_crashed [OF less.prems(1)] less.prems(2) go])
    have c: "tcp_weight (tc_phase c) < tcp_weight (tc_phase (w_conns w ! i))" using tcp_go_weight [OF go, of i] a by simp
    have same: "tc_reads c = tc_reads (w_conns w ! i)" "tc_addr c = tc_addr (w_conns w ! i)" using go a by (auto elim: tcp_go.cases)
    from less.hyps [of ?w1] c world_ok_step [OF less.prems(1) assms(1) st] less.prems(2)
    obtain ls w' where r: "run (world_step cx b) ?w1 ls w'" and rest: "i < length (w_conns w')" "tc_phase (w_conns w' ! i) = T_gone"
        "tc_reads (w_conns w' ! i) = tc_reads c" "addrs w' = addrs ?w1"
      by auto
    have "addrs ?w1 = addrs w" using same(2) less.prems(2) by (simp add: addrs_def map_update list_update_same_conv)
    with rest same show ?thesis
      by (intro exI [of _ "Ev_conn i a # ls"] exI [of _ w'] conjI run_Cons [where step = "world_step cx b", OF st r]) simp_all
  qed
qed

theorem connections_do_not_interfere_witness:
  "\<exists>ls w sid t session s. run (world_step stored_codecs True) demo_world ls w \<and> tc_phase (w_conns w ! 0) = T_gone \<and>
     handleTCPConnection sid t (\<lambda>k. tc_clocks (w_conns w ! 0) ! k) None stored_codecs ''peer'' (tc_reads (w_conns w ! 0)) (w_srv demo_world) =
       Ret (tc_writes (w_conns w ! 0), False, Some session, s)"
proof -
  let ?st = "world_step stored_codecs True"
  have "0 < length (w_conns demo_connected)" by simp
  from conn_can_finish [OF reachable_ok [OF demo_started demo_connect] this, of stored_codecs True]
  obtain ls w where r: "run ?st demo_connected ls w" and w: "0 < length (w_conns w)" "tc_phase (w_conns w ! 0) = T_gone"
      "addrs w = addrs demo_connected"
    by blast
  from conjI [OF demo_connect r] have r0: "run ?st demo_world ([Ev_tcp L_step, Ev_tcp L_step, Ev_tcp (L_conn ''peer'')] @ ls) w"
    unfolding run_append by (rule exI)
  have a: "addrs w = [''peer'']" using w(3) by (simp add: addrs_def)
  then have "tc_addr (w_conns w ! 0) = ''peer''" using w(1) by (metis addrs_def nth_Cons_0 nth_map)
  moreover from this have "lone_address 0 (tc_addr (w_conns w ! 0)) w" using a by (simp add: lone_address_def)
  ultimately have "\<exists>sid t session s. handleTCPConnection sid t (\<lambda>k. tc_clocks (w_conns w ! 0) ! k) None stored_codecs ''peer''
      (tc_reads (w_conns w ! 0)) (w_srv demo_world) = Ret (tc_writes (w_conns w ! 0), False, Some session, s)"
    using connections_do_not_interfere [OF demo_started r0 w(1) refl w(2)] by simp
  then show ?thesis by (elim exE) (rule exI, rule exI [of _ w], intro exI conjI, rule r0, rule w(2))
qed

end
