(* ===== verification/WB_CommandLine.thy ===== *)
theory WB_CommandLine
  imports WB_Config
begin

text \<open>
  The flags of \<^verbatim>\<open>main_webbou.go\<close>, with what they use of Go's \<^verbatim>\<open>flag\<close> and \<^verbatim>\<open>strconv\<close>: the forms
  \<^verbatim>\<open>-name value\<close>, \<^verbatim>\<open>--name value\<close>, \<^verbatim>\<open>-name=value\<close>, the end of the flags, and integers in every base that
  \<^verbatim>\<open>ParseInt\<close> accepts with base zero.  A bad command line ends the process with status two, a request for
  help with status zero.
\<close>

subsection \<open>Integers\<close>

definition lower :: "char \<Rightarrow> nat" where
  "lower c = of_char c OR 32"

definition digit_of :: "char \<Rightarrow> nat option" where
  "digit_of c =
     (if is_decimal c then Some (of_char c - 48)
      else if 97 \<le> lower c \<and> lower c \<le> 122 then Some (lower c - 97 + 10) else None)"

text \<open>The loop of \<^verbatim>\<open>ParseUint\<close>; the value is checked against its range at the end, since it never shrinks.\<close>

fun uint_loop :: "nat \<Rightarrow> nat \<Rightarrow> string \<Rightarrow> nat option" where
  "uint_loop base n [] = Some n"
| "uint_loop base n (c # cs) =
     (if c = CHR ''_'' then uint_loop base n cs
      else (case digit_of c of
              None \<Rightarrow> None
            | Some d \<Rightarrow> if base \<le> d then None else uint_loop base (n * base + d) cs))"

definition base_prefix :: "string \<Rightarrow> nat \<times> string" where
  "base_prefix s =
     (if s ! 0 \<noteq> CHR ''0'' then (10, s)
      else if 3 \<le> length s \<and> lower (s ! 1) = 98 then (2, drop 2 s)
      else if 3 \<le> length s \<and> lower (s ! 1) = 111 then (8, drop 2 s)
      else if 3 \<le> length s \<and> lower (s ! 1) = 120 then (16, drop 2 s)
      else (8, drop 1 s))"

text \<open>\<^verbatim>\<open>underscoreOK\<close>: an underscore stands between digits; \<open>saw\<close> is the kind of the last character.\<close>

fun underscore_loop :: "bool \<Rightarrow> char \<Rightarrow> string \<Rightarrow> bool" where
  "underscore_loop hex saw [] \<longleftrightarrow> saw \<noteq> CHR ''_''"
| "underscore_loop hex saw (c # cs) \<longleftrightarrow>
     (if is_decimal c \<or> hex \<and> 97 \<le> lower c \<and> lower c \<le> 102 then underscore_loop hex (CHR ''0'') cs
      else if c = CHR ''_'' then saw = CHR ''0'' \<and> underscore_loop hex (CHR ''_'') cs
      else saw \<noteq> CHR ''_'' \<and> underscore_loop hex (CHR ''!'') cs)"

definition underscoreOK :: "string \<Rightarrow> bool" where
  "underscoreOK s =
     (if 2 \<le> length s \<and> s ! 0 = CHR ''0'' \<and> lower (s ! 1) \<in> {98, 111, 120}
      then underscore_loop (lower (s ! 1) = 120) (CHR ''0'') (drop 2 s)
      else underscore_loop False (CHR ''^'') s)"

text \<open>\<^verbatim>\<open>ParseInt(s, 0, 64)\<close>: \<open>None\<close> for a syntax error and for a value out of range.\<close>

definition ParseInt :: "string \<Rightarrow> int option" where
  "ParseInt s =
     (if s = [] then None
      else
        let neg = (hd s = CHR ''-''); s = (if hd s = CHR ''+'' \<or> neg then tl s else s)
        in if s = [] then None
           else case base_prefix s of (base, ds) \<Rightarrow>
             (case uint_loop base 0 ds of
                None \<Rightarrow> None
              | Some n \<Rightarrow>
                  if CHR ''_'' \<in> set ds \<and> \<not> underscoreOK s then None
                  else if neg then (if n \<le> 2 ^ 63 then Some (- int n) else None)
                  else if n < 2 ^ 63 then Some (int n) else None))"

subsection \<open>Flags\<close>

record flags =
  certFile :: string
  keyFile :: string
  tcpAddr :: string
  quicAddr :: string
  maxFrameSize :: int

definition default_flags :: flags where
  "default_flags = \<lparr>certFile = ''cert.pem'', keyFile = ''key.pem'', tcpAddr = ''0.0.0.0:8443'', quicAddr = '''', maxFrameSize = 65536\<rparr>"

definition flag_names :: "string list" where
  "flag_names = [''cert'', ''key'', ''tcp'', ''quic'', ''max-frame'']"

definition set_flag :: "string \<Rightarrow> string \<Rightarrow> flags \<Rightarrow> flags option" where
  "set_flag name value fl =
     (if name = ''cert'' then Some (fl\<lparr>certFile := value\<rparr>)
      else if name = ''key'' then Some (fl\<lparr>keyFile := value\<rparr>)
      else if name = ''tcp'' then Some (fl\<lparr>tcpAddr := value\<rparr>)
      else if name = ''quic'' then Some (fl\<lparr>quicAddr := value\<rparr>)
      else if name = ''max-frame'' then map_option (\<lambda>n. fl\<lparr>maxFrameSize := n\<rparr>) (ParseInt value)
      else None)"

definition split_value :: "string \<Rightarrow> string \<times> string option" where
  "split_value s =
     (let name = takeWhile (\<lambda>c. c \<noteq> CHR ''='') s; rest = dropWhile (\<lambda>c. c \<noteq> CHR ''='') s
      in (name, if rest = [] then None else Some (tl rest)))"

text \<open>\<^verbatim>\<open>flag.Parse\<close>: \<open>Inl\<close> the status with which the process exits.  What follows the flags is ignored.\<close>

fun flag_Parse :: "string list \<Rightarrow> flags \<Rightarrow> nat + flags" where
  "flag_Parse [] fl = Inr fl"
| "flag_Parse (s # args) fl =
     (if length s < 2 \<or> s ! 0 \<noteq> CHR ''-'' \<or> s = ''--'' then Inr fl
      else
        let name = (if s ! 1 = CHR ''-'' then drop 2 s else drop 1 s)
        in if name = [] \<or> hd name = CHR ''-'' \<or> hd name = CHR ''='' then Inl 2
           else case split_value name of (name, value) \<Rightarrow>
             (if name \<notin> set flag_names then (if name = ''help'' \<or> name = ''h'' then Inl 0 else Inl 2)
              else case value of
                Some v \<Rightarrow> (case set_flag name v fl of None \<Rightarrow> Inl 2 | Some fl' \<Rightarrow> flag_Parse args fl')
              | None \<Rightarrow>
                  (case args of
                     [] \<Rightarrow> Inl 2
                   | v # args' \<Rightarrow> (case set_flag name v fl of None \<Rightarrow> Inl 2 | Some fl' \<Rightarrow> flag_Parse args' fl'))))"

subsection \<open>Decimal numbers are read back\<close>

lemma digit_of_decimal: "d < 10 \<Longrightarrow> digit_of (char_of (48 + d)) = Some d"
  by (simp add: is_decimal_def digit_of_def)

lemma decimal_not_underscore: "is_decimal c \<Longrightarrow> c \<noteq> CHR ''_''"
  by (auto simp: is_decimal_def)

lemma uint_loop_append: "uint_loop b n (xs @ ys) = (case uint_loop b n xs of None \<Rightarrow> None | Some m \<Rightarrow> uint_loop b m ys)"
  by (induction b n xs rule: uint_loop.induct) (auto split: option.split)

lemma uint_loop_digits: "uint_loop 10 0 (digits n) = Some n"
proof (induction n rule: digits.induct)
  case (1 n)
  have one: "uint_loop 10 m [char_of (48 + d)] = Some (m * 10 + d)" if "d < 10" for m d :: nat
    using digit_of_decimal [OF that] decimal_not_underscore [OF is_decimal_digit [OF that]] that by simp
  show ?case
  proof (cases "n < 10")
    case True
    then show ?thesis using one [of n 0] by (subst digits.simps) simp
  next
    case False
    have "n div 10 * 10 + n mod 10 = n" by simp
    with 1 False one [of "n mod 10" "n div 10"] show ?thesis by (subst digits.simps) (simp add: uint_loop_append)
  qed
qed

lemma base_prefix_digits: "\<exists>base ds. base_prefix (digits n) = (base, ds) \<and> uint_loop base 0 ds = Some n \<and> CHR ''_'' \<notin> set ds"
proof (cases "n = 0")
  case True
  then show ?thesis by (simp add: base_prefix_def digits_0)
next
  case False
  then have "base_prefix (digits n) = (10, digits n)" using digits_lead by (simp add: base_prefix_def)
  moreover have "CHR ''_'' \<notin> set (digits n)" using digits_decimal decimal_not_underscore by blast
  ultimately show ?thesis using uint_loop_digits by blast
qed

lemma digits_sign: "hd (digits n) \<noteq> CHR ''-''" "hd (digits n) \<noteq> CHR ''+''"
  using digits_decimal [of "hd (digits n)" n] by (auto simp: is_decimal_def)

lemma ParseInt_fmt_d:
  assumes "in_i64 n"
  shows "ParseInt (fmt_d n) = Some n"
proof (cases "n < 0")
  case True
  obtain base ds where "base_prefix (digits (nat (- n))) = (base, ds)" "uint_loop base 0 ds = Some (nat (- n))" "CHR ''_'' \<notin> set ds"
    using base_prefix_digits by blast
  then show ?thesis using True assms by (simp add: ParseInt_def fmt_d_def Let_def in_i64_def)
next
  case False
  obtain base ds where "base_prefix (digits (nat n)) = (base, ds)" "uint_loop base 0 ds = Some (nat n)" "CHR ''_'' \<notin> set ds"
    using base_prefix_digits by blast
  then show ?thesis using False assms digits_sign [of "nat n"] by (simp add: ParseInt_def fmt_d_def Let_def in_i64_def)
qed

subsection \<open>Command lines are read back\<close>

datatype form = Spaced | Joined

text \<open>A flag as the caller writes it, with one or two dashes.\<close>

fun written :: "form \<times> bool \<Rightarrow> string \<times> string \<Rightarrow> string list" where
  "written (Spaced, two) (name, value) = [(if two then ''--'' else ''-'') @ name, value]"
| "written (Joined, two) (name, value) = [(if two then ''--'' else ''-'') @ name @ ''='' @ value]"

definition settings :: "flags \<Rightarrow> (string \<times> string) list" where
  "settings fl = [(''cert'', certFile fl), (''key'', keyFile fl), (''tcp'', tcpAddr fl), (''quic'', quicAddr fl),
     (''max-frame'', fmt_d (maxFrameSize fl))]"

lemma split_value_name:
  assumes "name \<in> set flag_names"
  shows "split_value name = (name, None)" "split_value (name @ CHR ''='' # v) = (name, Some v)"
  using assms by (auto simp: split_value_def flag_names_def)

lemma flag_Parse_written:
  assumes "name \<in> set flag_names" and "set_flag name v fl = Some fl'"
  shows "flag_Parse (written f (name, v) @ args) fl = flag_Parse args fl'"
proof -
  have n: "name \<noteq> []" "hd name \<noteq> CHR ''-''" "hd name \<noteq> CHR ''=''" "name ! 0 \<noteq> CHR ''-''" "name \<noteq> ''-''"
      "name @ CHR ''='' # v \<noteq> ''-''"
    using assms(1) by (auto simp: flag_names_def)
  obtain g two where f: "f = (g, two)" by (cases f)
  show ?thesis
    using n assms split_value_name [OF assms(1)]
    by (cases g; cases two) (simp_all add: f nth_append Let_def hd_append)
qed

text \<open>The flags with the fields of some names taken from others.\<close>

definition overlay :: "string set \<Rightarrow> flags \<Rightarrow> flags \<Rightarrow> flags" where
  "overlay names fl fl0 =
     \<lparr>certFile = certFile (if ''cert'' \<in> names then fl else fl0), keyFile = keyFile (if ''key'' \<in> names then fl else fl0),
      tcpAddr = tcpAddr (if ''tcp'' \<in> names then fl else fl0), quicAddr = quicAddr (if ''quic'' \<in> names then fl else fl0),
      maxFrameSize = maxFrameSize (if ''max-frame'' \<in> names then fl else fl0)\<rparr>"

lemma set_flag_setting:
  assumes "x \<in> set (settings fl)" and "in_i64 (maxFrameSize fl)"
  shows "fst x \<in> set flag_names \<and> set_flag (fst x) (snd x) (overlay N fl fl0) = Some (overlay (insert (fst x) N) fl fl0)"
  using assms(1) ParseInt_fmt_d [OF assms(2)]
  by (auto simp: settings_def flag_names_def set_flag_def overlay_def)

lemma flag_Parse_settings:
  assumes "set xs \<subseteq> set (settings fl)" and "in_i64 (maxFrameSize fl)" and "length fs = length xs"
  shows "flag_Parse (concat (map2 written fs xs) @ args) (overlay N fl fl0) = flag_Parse args (overlay (fst ` set xs \<union> N) fl fl0)"
  using assms(3,1)
proof (induction fs xs arbitrary: N rule: list_induct2)
  case (Cons f fs x xs)
  have "x \<in> set (settings fl)" using Cons.prems by simp
  note st = set_flag_setting [OF this assms(2), of N fl0]
  have "flag_Parse (concat (map2 written (f # fs) (x # xs)) @ args) (overlay N fl fl0) =
      flag_Parse (concat (map2 written fs xs) @ args) (overlay (insert (fst x) N) fl fl0)"
    using flag_Parse_written [of "fst x" "snd x" "overlay N fl fl0" _ f "concat (map2 written fs xs) @ args"] st by simp
  then show ?case using Cons by simp
qed simp

text \<open>C30: The command line is read back: whatever flags are wanted, if each is written at least once (in any order, with
  one or two dashes, with a space or an equals sign, the frame limit in decimal), the server gets exactly these
  flags; arguments after the flags are ignored.\<close>

theorem command_line_roundtrip:
  assumes "set xs = set (settings fl)" and "in_i64 (maxFrameSize fl)" and "length fs = length xs"
    and "args = [] \<or> hd args = ''--'' \<or> length (hd args) < 2 \<or> hd args ! 0 \<noteq> CHR ''-''"
  shows "flag_Parse (concat (map2 written fs xs) @ args) default_flags = Inr fl"
proof -
  have o: "overlay {} fl default_flags = default_flags" "overlay (fst ` set (settings fl)) fl default_flags = fl"
    by (simp_all add: overlay_def settings_def)
  have "flag_Parse (concat (map2 written fs xs) @ args) default_flags = flag_Parse args fl"
    using flag_Parse_settings [OF _ assms(2,3), of args "{}" default_flags] assms(1) o by simp
  also have "\<dots> = Inr fl" using assms(4) by (cases args) auto
  finally show ?thesis .
qed

theorem command_line_roundtrip_witness:
  "flag_Parse [''-cert'', ''c'', ''--tcp=:1'', ''-key=k'', ''--quic'', '''', ''-max-frame=10'', ''rest''] default_flags =
     Inr \<lparr>certFile = ''c'', keyFile = ''k'', tcpAddr = '':1'', quicAddr = '''', maxFrameSize = 10\<rparr>"
proof -
  let ?fl = "\<lparr>certFile = ''c'', keyFile = ''k'', tcpAddr = '':1'', quicAddr = '''', maxFrameSize = 10\<rparr>"
  have "fmt_d 10 = ''10''" by code_simp
  then have "set [(''cert'', ''c''), (''tcp'', '':1''), (''key'', ''k''), (''quic'', ''''), (''max-frame'', ''10'')] = set (settings ?fl)"
    by (auto simp: settings_def)
  from command_line_roundtrip [OF this, of "[(Spaced, False), (Joined, True), (Joined, False), (Spaced, True), (Joined, False)]" "[''rest'']"]
  show ?thesis by (simp add: in_i64_def)
qed

end
