(* ===== verification/WB_Main.thy ===== *)
theory WB_Main
  imports WB_Shutdown WB_CommandLine
begin

text \<open>
  \<^verbatim>\<open>main_webbou.go\<close>: the process, from the command line to its exit status.  The main goroutine waits for a
  signal and then for \<^verbatim>\<open>Shutdown\<close> with a context of thirty seconds; the goroutines of the server run beside it
  until it exits.  A call of \<^verbatim>\<open>log.Fatalf\<close> exits with status one, a panic of a goroutine with status two.
\<close>

definition main_config :: "flags \<Rightarrow> bytes \<Rightarrow> ServerConfig" where
  "main_config fl cert =
     \<lparr>QUICAddr = quicAddr fl, TCPAddr = tcpAddr fl, MaxStreams = 1000, MaxFrameSize = maxFrameSize fl,
      TLSConfig = Any_tls \<lparr>Certificates = [cert], ClientAuth = NoClientCert, MinVersion = VersionTLS13, CipherSuites = []\<rparr>\<rparr>"

text \<open>Up to the wait for a signal: \<open>Inl\<close> the status of an early exit.  \<open>load\<close> is \<^verbatim>\<open>tls.LoadX509KeyPair\<close>.\<close>

definition main_start ::
    "string list \<Rightarrow> (string \<Rightarrow> string \<Rightarrow> error + bytes) \<Rightarrow> error + CryptoEngine \<Rightarrow> time \<Rightarrow> time \<Rightarrow> time \<Rightarrow> nat + world" where
  "main_start args load engine now1 now2 now =
     (case flag_Parse args default_flags of
        Inl status \<Rightarrow> Inl status
      | Inr fl \<Rightarrow>
          (case load (certFile fl) (keyFile fl) of
             Inl err \<Rightarrow> Inl 1
           | Inr cert \<Rightarrow>
               (case NewServer engine now1 now2 (Some (main_config fl cert)) of
                  Inl err \<Rightarrow> Inl 1
                | Inr server \<Rightarrow> (case launch now server of Inl err \<Rightarrow> Inl 1 | Inr w \<Rightarrow> Inr w))))"

datatype main_phase = M_wait | M_stop time | M_exit nat

fun is_shutdown_event :: "event \<Rightarrow> bool" where
  "is_shutdown_event Ev_shutdown = True"
| "is_shutdown_event (Ev_shutdown_returns _) = True"
| "is_shutdown_event _ = False"

text \<open>From the wait for a signal on.  The signal is the event \<open>Ev_shutdown\<close>.\<close>

inductive main_step :: "codecs \<Rightarrow> bool \<Rightarrow> main_phase \<times> world \<Rightarrow> event \<Rightarrow> main_phase \<times> world \<Rightarrow> bool" for cx b where
  main_goroutine: "\<forall>st. p \<noteq> M_exit st \<Longrightarrow> \<not> is_shutdown_event e \<Longrightarrow> world_step cx b w e w' \<Longrightarrow> \<not> crashed w' \<Longrightarrow>
    main_step cx b (p, w) e (p, w')"
| main_panic: "\<forall>st. p \<noteq> M_exit st \<Longrightarrow> \<not> is_shutdown_event e \<Longrightarrow> world_step cx b w e w' \<Longrightarrow> crashed w' \<Longrightarrow>
    main_step cx b (p, w) e (M_exit 2, w')"
| main_signal: "world_step cx b w Ev_shutdown w' \<Longrightarrow>
    main_step cx b (M_wait, w) Ev_shutdown (M_stop (time_Add (w_now w) (30 * Second)), w')"
| main_clean: "world_step cx b w (Ev_shutdown_returns None) w' \<Longrightarrow>
    main_step cx b (M_stop d, w) (Ev_shutdown_returns None) (M_exit 0, w')"
| main_timeout: "d \<le> w_now w \<Longrightarrow> world_step cx b w (Ev_shutdown_returns (Some ''context deadline exceeded'')) w' \<Longrightarrow>
    main_step cx b (M_stop d, w) (Ev_shutdown_returns (Some ''context deadline exceeded'')) (M_exit 1, w')"

inductive_cases main_stepE: "main_step cx b (p, w) e (p', w')"

subsection \<open>The process starts a server\<close>

lemma main_started:
  assumes "main_start args load engine now1 now2 now = Inr w" and "now1 \<le> now" and "flag_Parse args default_flags = Inr fl"
    and "maxFrameSize fl mod 2 ^ 32 < 2 ^ 32 - 16"
  obtains cert where "started (main_config fl cert) w"
proof -
  obtain ce cert s where l: "engine = Inr ce" "NewServer (Inr ce) now1 now2 (Some (main_config fl cert)) = Inr s" "launch now s = Inr w"
    using assms(1,3) by (auto simp: main_start_def NewServer_def split: sum.split_asm)
  have "unat (of_int (maxFrameSize fl) :: u32) < 2 ^ 32 - 16"
    using assms(4) by (simp only: unat_eq_nat_uint unsigned_of_int take_bit_eq_mod) (simp add: nat_less_iff)
  then have "usable (main_config fl cert)"
    by (simp add: usable_def main_config_def frame_limit_ok_def NewFrameReader_maxLength)
  with l assms(2) have "started (main_config fl cert) w" unfolding started_def by blast
  then show thesis by (rule that)
qed

text \<open>A run of the process is a run of the server.\<close>

lemma main_step_world: "main_step cx b pw e pw' \<Longrightarrow> world_step cx b (snd pw) e (snd pw')"
  by (erule main_step.cases) simp_all

lemma main_run_world:
  assumes "run (main_step cx b) pw ls pw'"
  shows "run (world_step cx b) (snd pw) ls (snd pw')"
  using assms
proof (induction rule: run.induct)
  case (run_Nil pw)
  show ?case by (rule run.run_Nil)
next
  case (run_Cons pw e pw1 ls pw2)
  show ?case by (rule run.run_Cons [where step = "world_step cx b", OF main_step_world [OF run_Cons.hyps(1)] run_Cons.IH])
qed

text \<open>What the program point of the main goroutine says about the server.\<close>

fun main_inv :: "main_phase \<times> world \<Rightarrow> bool" where
  "main_inv (M_wait, w) \<longleftrightarrow> w_stop w = SD_idle"
| "main_inv (M_stop d, w) \<longleftrightarrow> w_stop w = SD_wait"
| "main_inv (M_exit st, w) \<longleftrightarrow> (st = 0 \<longrightarrow> srv_wg (w_srv w) = 0) \<and> (st = 2 \<longrightarrow> crashed w) \<and> st \<le> 2"

lemma world_step_stop: "world_step cx b w e w' \<Longrightarrow> \<not> is_shutdown_event e \<Longrightarrow> w_stop w' = w_stop w"
  by (erule world_step.cases) auto

lemma stopped_step: "world_step cx b w (Ev_shutdown_returns None) w' \<Longrightarrow> srv_wg (w_srv w') = 0"
  by (erule world_step.cases) auto

lemma shutdown_step: "world_step cx b w Ev_shutdown w' \<Longrightarrow> w_stop w' = SD_wait"
  by (erule world_step.cases) auto

lemma main_inv_step:
  assumes "main_inv pw" and "main_step cx b pw e pw'"
  shows "main_inv pw'"
  using assms(2,1)
proof cases
  case (main_goroutine p w w')
  then show ?thesis using assms(1) world_step_stop [of cx b w e w'] by (cases p) auto
next
  case (main_clean w w' d)
  then show ?thesis using stopped_step by auto
next
  case (main_signal w w')
  then show ?thesis using shutdown_step by auto
qed auto

interpretation process: invariant_system "main_step cx b" main_inv for cx b
  by unfold_locales (rule main_inv_step)

lemma started_idle: "started config w \<Longrightarrow> w_stop w = SD_idle"
  by (erule started_cases)

lemma clock_step: "world_step cx b w e w' \<Longrightarrow> w_now w \<le> w_now w'"
  by (erule world_step.cases) (auto dest: tcp_go_listener(2) quic_go_listener(2))

text \<open>Only a deadline that has passed ends the process with status one.\<close>

lemma stopping_exit:
  assumes "run (main_step cx b) pw ls pw'" and "fst pw = M_stop d" and "fst pw' = M_exit 1"
  shows "d \<le> w_now (snd pw')"
  using assms
proof (induction rule: run.induct)
  case (run_Cons pw e pw1 ls pw2)
  show ?case
  proof (cases "fst pw1 = M_stop d")
    case True
    then show ?thesis using run_Cons by blast
  next
    case False
    from run_Cons.hyps(1) have st: "\<exists>st. fst pw1 = M_exit st \<and> (st = 1 \<longrightarrow> d \<le> w_now (snd pw1))"
      by cases (use run_Cons.prems(1) False in \<open>auto dest: clock_step\<close>)
    moreover have "ls = [] \<and> pw2 = pw1"
      using run_Cons.hyps(2) st by cases (auto elim: main_step.cases)
    ultimately show ?thesis using run_Cons.prems(2) by auto
  qed
qed simp

lemma exit_after_signal:
  assumes "run (main_step cx b) pw ls pw'" and "fst pw = M_wait" and "fst pw' = M_exit st" and "\<not> crashed (snd pw')"
  shows "\<exists>ls1 ls2 w1. ls = ls1 @ Ev_shutdown # ls2 \<and> run (main_step cx b) pw ls1 (M_wait, w1) \<and>
    (st = 1 \<longrightarrow> time_Add (w_now w1) (30 * Second) \<le> w_now (snd pw'))"
  using assms
proof (induction rule: run.induct)
  case (run_Cons pw e pw1 ls pw2)
  from run_Cons.hyps(1) show ?case
  proof cases
    case (main_goroutine p w w')
    then obtain ls1 ls2 w1 where i: "ls = ls1 @ Ev_shutdown # ls2" "run (main_step cx b) pw1 ls1 (M_wait, w1)"
        "st = 1 \<longrightarrow> time_Add (w_now w1) (30 * Second) \<le> w_now (snd pw2)"
      using run_Cons by auto
    show ?thesis
      by (rule exI [of _ "e # ls1"], rule exI [of _ ls2], rule exI [of _ w1])
        (use i run.run_Cons [where step = "main_step cx b", OF run_Cons.hyps(1) i(2)] in simp)
  next
    case (main_panic p w w')
    have "ls = [] \<and> pw2 = pw1" using run_Cons.hyps(2) main_panic by cases (auto elim: main_step.cases)
    then show ?thesis using run_Cons.prems(3) main_panic by simp
  next
    case (main_signal w w')
    have "st = 1 \<longrightarrow> time_Add (w_now w) (30 * Second) \<le> w_now (snd pw2)"
      using stopping_exit [OF run_Cons.hyps(2)] run_Cons.prems(2) main_signal by simp
    then show ?thesis
      by (intro exI [of _ "[]"] exI [of _ ls] exI [of _ w]) (simp add: main_signal run.run_Nil)
  qed (use run_Cons.prems(1) in auto)
qed simp

text \<open>C11: What the exit status of the process means.  Started with a frame limit away from the wrap-around, it never
  panics; it exits only after a signal; status zero means that every goroutine of the wait group has returned, the
  handler of every TCP connection among them, and that no session and no slot of the limiter is left; status one means that thirty seconds have
  passed since the signal.\<close>

theorem exit_status_meaning:
  assumes "main_start args load engine now1 now2 now = Inr w0" and "now1 \<le> now" and "flag_Parse args default_flags = Inr fl"
    and "maxFrameSize fl mod 2 ^ 32 < 2 ^ 32 - 16" and "run (main_step cx b) (M_wait, w0) ls (M_exit st, w)"
  shows "st \<in> {0, 1} \<and>
    (st = 0 \<longrightarrow> srv_wg (w_srv w) = 0 \<and> list_all (\<lambda>c. tc_phase c = T_gone) (w_conns w) \<and>
       srv_sessions (w_srv w) = {} \<and> connections (srv_connLimiter (w_srv w)) = Map.empty) \<and>
    (\<exists>ls1 ls2 w1. ls = ls1 @ Ev_shutdown # ls2 \<and> run (main_step cx b) (M_wait, w0) ls1 (M_wait, w1) \<and>
       (st = 1 \<longrightarrow> w_now w1 + 30 * Second \<le> w_now w))"
proof -
  obtain cert where st: "started (main_config fl cert) w0" by (rule main_started [OF assms(1-4)])
  have "run (world_step cx b) w0 ls w" using main_run_world [OF assms(5)] by simp
  note ok = reachable_ok(2) [OF st this]
  have nc: "\<not> crashed w" by (rule world_ok_not_crashed [OF ok])
  have "main_inv (M_exit st, w)"
    using process.inv_run [OF assms(5)] started_idle [OF st] by simp
  with nc have "st \<in> {0, 1}" "st = 0 \<longrightarrow> srv_wg (w_srv w) = 0" by (auto simp: le_Suc_eq numeral_2_eq_2)
  moreover have "\<exists>ls1 ls2 w1. ls = ls1 @ Ev_shutdown # ls2 \<and> run (main_step cx b) (M_wait, w0) ls1 (M_wait, w1) \<and>
       (st = 1 \<longrightarrow> w_now w1 + 30 * Second \<le> w_now w)"
    using exit_after_signal [OF assms(5)] nc by (simp add: time_Add_def)
  ultimately show ?thesis using books_closed [OF ok] by (intro conjI impI) simp_all
qed

subsection \<open>A peer that stays connected\<close>

text \<open>A handler that reads stays where it is until data comes, the peer hangs up, or the deadline passes.\<close>

lemma tcp_go_idle:
  assumes "tcp_go cx (now, s, c) a (now', s', c')" and "tc_phase c = T_read buf reader session" and "now < tc_deadline c"
  shows "a = Hup \<or> (\<exists>data. a = Got data)"
  using assms(1) by cases (use assms(2,3) in auto)

lemma clock_run: "run (world_step cx b) w ls w' \<Longrightarrow> w_now w \<le> w_now w'"
proof (induction rule: run.induct)
  case (run_Cons w e w1 ls w2)
  then show ?case using clock_step [OF run_Cons.hyps(1)] by simp
qed simp

lemma idle_run:
  assumes "run (world_step cx b) w ls w'" and "i < length (w_conns w)" and "tc_phase (w_conns w ! i) = T_read buf reader session"
    and "w_now w' < tc_deadline (w_conns w ! i)" and "\<forall>data. Ev_conn i (Got data) \<notin> set ls" and "Ev_conn i Hup \<notin> set ls"
  shows "i < length (w_conns w') \<and> w_conns w' ! i = w_conns w ! i"
  using assms
proof (induction rule: run.induct)
  case (run_Cons w e w1 ls w2)
  note st = world_step_conns [OF run_Cons.hyps(1) run_Cons.prems(1)]
  have "w_now w1 < tc_deadline (w_conns w ! i)" using clock_run [OF run_Cons.hyps(2)] run_Cons.prems(3) by simp
  then have "w_now w < tc_deadline (w_conns w ! i)" using st by simp
  note idle = tcp_go_idle [OF _ run_Cons.prems(2) this]
  have same: "w_conns w1 ! i = w_conns w ! i"
  proof (rule ccontr)
    assume "w_conns w1 ! i \<noteq> w_conns w ! i"
    then obtain a s where a: "e = Ev_conn i a" "tcp_go cx (w_now w, w_srv w, w_conns w ! i) a (w_now w1, s, w_conns w1 ! i)"
      using st by blast
    from idle [OF a(2)] a(1) run_Cons.prems(4,5) show False by auto
  qed
  then show ?case using run_Cons.IH st run_Cons.prems by simp
qed simp

text \<open>C34: A single idle peer makes a graceful stop fail: \<^verbatim>\<open>Shutdown\<close> closes the listeners and leaves the open connections
  alone.  Let a handler be reading while \<^verbatim>\<open>Shutdown\<close> waits, and its peer neither send nor close from then on.  Any exit
  of the process before the read deadline of that connection (sixty seconds after the handler started to
  read) has status one and comes no earlier than thirty seconds after the signal; and an exit with status one
  as soon as the thirty seconds have passed, without a step of that handler, is possible.\<close>

theorem idle_peer_fails_shutdown:
  assumes "main_start args load engine now1 now2 now = Inr w0" and "now1 \<le> now" and "flag_Parse args default_flags = Inr fl"
    and "maxFrameSize fl mod 2 ^ 32 < 2 ^ 32 - 16" and "run (main_step cx b) (M_wait, w0) ls1 (M_stop d, w1)"
    and "i < length (w_conns w1)" and "tc_phase (w_conns w1 ! i) = T_read buf reader session"
  shows "(\<forall>ls st w. run (main_step cx b) (M_stop d, w1) ls (M_exit st, w) \<longrightarrow> (\<forall>data. Ev_conn i (Got data) \<notin> set ls) \<longrightarrow>
        Ev_conn i Hup \<notin> set ls \<longrightarrow> w_now w < tc_deadline (w_conns w1 ! i) \<longrightarrow> st = 1 \<and> d \<le> w_now w) \<and>
    (\<exists>ls w. run (main_step cx b) (M_stop d, w1) ls (M_exit 1, w) \<and> (\<forall>a. Ev_conn i a \<notin> set ls) \<and> w_now w = max d (w_now w1))"
proof -
  obtain cert where st: "started (main_config fl cert) w0" by (rule main_started [OF assms(1-4)])
  note r1 = main_run_world [OF assms(5), simplified]
  note ok1 = reachable_ok [OF st r1]
  have inv1: "main_inv (M_stop d, w1)" using process.inv_run [OF assms(5)] started_idle [OF st] by simp
  have "st = 1 \<and> d \<le> w_now w" if "run (main_step cx b) (M_stop d, w1) ls (M_exit st, w)"
      "\<forall>data. Ev_conn i (Got data) \<notin> set ls" "Ev_conn i Hup \<notin> set ls" "w_now w < tc_deadline (w_conns w1 ! i)" for ls st w
  proof -
    note r = main_run_world [OF that(1), simplified]
    have ok: "world_ok (main_config fl cert) w" using server.inv_run [OF r, of "main_config fl cert"] ok1 by blast
    have "i < length (w_conns w)" "tc_phase (w_conns w ! i) = T_read buf reader session"
      using idle_run [OF r assms(6,7) that(4,2,3)] assms(7) by auto
    then have "srv_wg (w_srv w) = 0 \<Longrightarrow> False" using books_closed [OF ok] by (simp add: list_all_length)
    moreover have "main_inv (M_exit st, w)" using process.inv_run [OF that(1)] inv1 by simp
    ultimately have "st = 1" using world_ok_not_crashed [OF ok] by (auto simp: le_Suc_eq numeral_2_eq_2)
    then show ?thesis using stopping_exit [OF that(1)] by simp
  qed
  moreover have "\<exists>ls w. run (main_step cx b) (M_stop d, w1) ls (M_exit 1, w) \<and> (\<forall>a. Ev_conn i a \<notin> set ls) \<and> w_now w = max d (w_now w1)"
  proof -
    let ?w2 = "w1\<lparr>w_now := max d (w_now w1)\<rparr>"
    have nc: "\<not> crashed w1" "\<not> crashed ?w2" using world_ok_not_crashed [OF ok1(2)] by (simp_all add: crashed_def)
    have 1: "main_step cx b (M_stop d, w1) (Ev_clock (max d (w_now w1))) (M_stop d, ?w2)"
      by (rule main_goroutine) (use nc w_step_clock [OF nc(1), of "max d (w_now w1)" cx b] in simp_all)
    have 2: "main_step cx b (M_stop d, ?w2) (Ev_shutdown_returns (Some ''context deadline exceeded''))
        (M_exit 1, ?w2\<lparr>w_stop := SD_returned (Some ''context deadline exceeded'')\<rparr>)"
      by (rule main_timeout) (use inv1 nc in \<open>auto intro!: w_step_timeout\<close>)
    from run_Cons [where step = "main_step cx b", OF 1 run_one [where step = "main_step cx b", OF 2]]
    show ?thesis by (intro exI conjI) (assumption, simp_all)
  qed
  ultimately show ?thesis by blast
qed

subsection \<open>Examples\<close>

text \<open>Without flags the process starts the server of the earlier examples.\<close>

lemma demo_process:
  "main_start [] (\<lambda>_ _. Inr []) (Inr toy_engine) 0 0 0 = Inr demo_world"
  "flag_Parse [] default_flags = Inr default_flags" "maxFrameSize default_flags mod 2 ^ 32 < 2 ^ 32 - 16"
proof -
  have "main_config default_flags [] = demo_config" by (simp add: main_config_def default_flags_def demo_config_def)
  then show "main_start [] (\<lambda>_ _. Inr []) (Inr toy_engine) 0 0 0 = Inr demo_world"
    using demo_launch by (simp add: main_start_def NewServer_def)
qed (simp_all add: default_flags_def)

lemma main_run_lift:
  assumes "run (world_step cx b) w ls w'" and "world_ok config w" and "usable config"
    and "list_all (\<lambda>e. \<not> is_shutdown_event e) ls" and "\<forall>st. p \<noteq> M_exit st"
  shows "run (main_step cx b) (p, w) ls (p, w')"
  using assms(1,2,4)
proof (induction rule: run.induct)
  case (run_Nil w)
  show ?case by (rule run.run_Nil)
next
  case (run_Cons w e w1 ls w2)
  note ok = world_ok_step [OF run_Cons.prems(1) assms(3) run_Cons.hyps(1)]
  have "main_step cx b (p, w) e (p, w1)"
    by (rule main_goroutine [OF assms(5) _ run_Cons.hyps(1) world_ok_not_crashed [OF ok]]) (use run_Cons.prems(2) in simp)
  from run.run_Cons [where step = "main_step cx b", OF this] show ?case using run_Cons ok by simp
qed

text \<open>The listener fails, the loop returns, and a signal then stops the process at once.\<close>

theorem exit_status_meaning_witness:
  "\<exists>w. run (main_step stored_codecs True) (M_wait, demo_world)
         [Ev_tcp L_step, Ev_tcp L_step, Ev_shutdown, Ev_shutdown_returns None] (M_exit 0, w) \<and> srv_sessions (w_srv w) = {}"
proof -
  let ?st = "main_step stored_codecs True" and ?ws = "world_step stored_codecs True"
  define u1 where "u1 = demo_world\<lparr>w_tcp := L_exit, w_srv := w_srv demo_world, w_conns := []\<rparr>"
  have "listen_config (w_srv demo_world) = assert_tls (TLSConfig demo_config)" by (simp add: listen_config_def)
  then have 1: "?ws demo_world (Ev_tcp L_step) u1"
    by (intro step_tcpI [OF tcp_listen_failed], simp_all add: u1_def demo_config_def) (cases demo_world, simp)
  define u2 where "u2 = u1\<lparr>w_tcp := L_gone, w_srv := (w_srv u1)\<lparr>srv_wg := 0\<rparr>, w_conns := []\<rparr>"
  have "wg_Done (w_srv u1) = Ret ((w_srv u1)\<lparr>srv_wg := 0\<rparr>)" by (simp add: wg_Done_def u1_def)
  then have 2: "?ws u1 (Ev_tcp L_step) u2"
    by (rule step_tcpI [OF tcp_loop_done]) (simp_all add: u2_def u1_def crashed_def)
  have 12: "run ?st (M_wait, demo_world) [Ev_tcp L_step, Ev_tcp L_step] (M_wait, u2)"
    by (rule main_run_lift [OF run_Cons [where step = ?ws, OF 1 run_one [where step = ?ws, OF 2]], where config = demo_config])
      (use started_ok [OF demo_started] in simp_all)
  have nc: "\<not> crashed u2" "\<not> crashed (stopping_server u2)" by (simp_all add: u2_def u1_def stopping_server_def crashed_def)
  have "?ws u2 Ev_shutdown (stopping_server u2)" by (rule stopping_step [OF nc(1)]) (simp add: u2_def u1_def)
  note 3 = main_signal [OF this]
  have "srv_wg (w_srv (stopping_server u2)) = 0"
    by (simp add: stopping_server_def Shutdown_def close_listeners_eq u2_def Let_def)
  then have "?ws (stopping_server u2) (Ev_shutdown_returns None) ((stopping_server u2)\<lparr>w_stop := SD_returned None\<rparr>)"
    using w_step_stopped [OF nc(2)] by (simp add: stopping_server_def)
  note r = run_snoc [OF run_snoc [OF 12 3] main_clean [OF this]]
  from exit_status_meaning [OF demo_process(1) order_refl demo_process(2,3) r]
  have "srv_sessions (w_srv ((stopping_server u2)\<lparr>w_stop := SD_returned None\<rparr>)) = {}" by simp
  with r show ?thesis by (intro exI [of _ "(stopping_server u2)\<lparr>w_stop := SD_returned None\<rparr>"]) simp
qed

text \<open>A connection that is being read when the signal comes.\<close>

theorem idle_peer_fails_shutdown_witness:
  "\<exists>ls w. run (main_step stored_codecs True) (M_wait, demo_world) ls (M_exit 1, w) \<and> w_now w = 30 * Second"
proof -
  let ?st = "main_step stored_codecs True" and ?ws = "world_step stored_codecs True"
  obtain u2 u3 x buf where u: "run ?ws demo_connected [Ev_conn 0 Step, Ev_conn 0 Step] u2" "?ws u2 (Ev_conn 0 Step) u3"
      "length (w_conns u3) = 1" "tc_phase (w_conns u3 ! 0) = T_read buf (NewFrameReader (MaxFrameSize demo_config)) x"
      "w_now u3 = 0" "w_stop u3 = SD_idle" "\<not> crashed u3"
    by (rule demo_reading)
  have "run ?ws demo_world ([Ev_tcp L_step, Ev_tcp L_step, Ev_tcp (L_conn ''peer'')] @ [Ev_conn 0 Step, Ev_conn 0 Step] @ [Ev_conn 0 Step]) u3"
    unfolding run_append by (intro exI conjI, rule demo_connect, rule u(1), rule run_one [where step = ?ws, OF u(2)])
  then have "run ?st (M_wait, demo_world) ([Ev_tcp L_step, Ev_tcp L_step, Ev_tcp (L_conn ''peer'')] @ [Ev_conn 0 Step, Ev_conn 0 Step] @ [Ev_conn 0 Step]) (M_wait, u3)"
    by (rule main_run_lift [where config = demo_config]) (use started_ok [OF demo_started] in simp_all)
  note r = run_snoc [OF this main_signal [OF stopping_step [OF u(7,6)]]]
  have s: "w_conns (stopping_server u3) = w_conns u3" "w_now (stopping_server u3) = 0" by (simp_all add: stopping_server_def u)
  from idle_peer_fails_shutdown [OF demo_process(1) order_refl demo_process(2,3) r, of 0] u(3,4)
  obtain ls w where e: "run ?st (M_stop (time_Add (w_now u3) (30 * Second)), stopping_server u3) ls (M_exit 1, w)"
    "w_now w = max (time_Add (w_now u3) (30 * Second)) (w_now (stopping_server u3))" by (metis s(1) zero_less_one)
  have "w_now w = 30 * Second" using e(2) by (simp add: u s time_Add_def time_defs)
  from conjI [OF run_trans [OF r e(1)] this] show ?thesis by (intro exI)
qed

end
