(* ===== verification/WB_Batch.thy ===== *)
theory WB_Batch
  imports WB_Protocol "HOL-Library.Multiset"
begin

text \<open>
  \<^verbatim>\<open>batch.go\<close>: the frame batcher.  \<^verbatim>\<open>flush\<close> takes the pending frames under the mutex and calls
  \<^verbatim>\<open>onFlush\<close> after releasing it, so that two goroutines may be between the two: the model has the two
  halves as steps of their own and lets them interleave with \<^verbatim>\<open>Add\<close>.
\<close>

record FrameBatcher =
  fb_frames :: "Frame list"
  fb_maxFrames :: int
  fb_maxDelay :: duration
  fb_flushChan :: bool
  fb_onFlush :: bool

text \<open>\<^verbatim>\<open>make\<close> panics on a negative capacity, \<^verbatim>\<open>time.NewTicker\<close> (in the flush loop) on a delay that is not positive.\<close>

definition NewFrameBatcher :: "int \<Rightarrow> duration \<Rightarrow> bool \<Rightarrow> FrameBatcher go" where
  "NewFrameBatcher maxFrames maxDelay onFlush =
     (if maxFrames < 0 then Panic ''makeslice: cap out of range''
      else if maxDelay \<le> 0 then Panic ''non-positive interval for NewTicker''
      else Ret \<lparr>fb_frames = [], fb_maxFrames = maxFrames, fb_maxDelay = maxDelay, fb_flushChan = False,
                fb_onFlush = onFlush\<rparr>)"

text \<open>The channel has room for one signal; a second one is dropped.\<close>

definition triggerFlush :: "FrameBatcher \<Rightarrow> FrameBatcher" where
  "triggerFlush fb = (if \<not> fb_flushChan fb then fb\<lparr>fb_flushChan := True\<rparr> else fb)"

definition fb_Add :: "Frame \<Rightarrow> FrameBatcher \<Rightarrow> FrameBatcher" where
  "fb_Add frame fb =
     (let fb = fb\<lparr>fb_frames := fb_frames fb @ [frame]\<rparr>
      in if int (length (fb_frames fb)) \<ge> fb_maxFrames fb then triggerFlush fb else fb)"

text \<open>The half of \<^verbatim>\<open>flush\<close> under the mutex: the batch to deliver, if there is one.\<close>

definition flush_take :: "FrameBatcher \<Rightarrow> Frame list option \<times> FrameBatcher" where
  "flush_take fb =
     (if length (fb_frames fb) = 0 then (None, fb) else (Some (fb_frames fb), fb\<lparr>fb_frames := []\<rparr>))"

text \<open>The other half: the batches that \<^verbatim>\<open>onFlush\<close> is called with.\<close>

definition flush_deliver :: "FrameBatcher \<Rightarrow> Frame list option \<Rightarrow> Frame list list" where
  "flush_deliver fb batch = (case batch of None \<Rightarrow> [] | Some frames \<Rightarrow> if fb_onFlush fb then [frames] else [])"

definition flush :: "FrameBatcher \<Rightarrow> Frame list list \<times> FrameBatcher" where
  "flush fb = (case flush_take fb of (batch, fb) \<Rightarrow> (flush_deliver fb batch, fb))"

definition fb_Flush :: "FrameBatcher \<Rightarrow> Frame list list \<times> FrameBatcher" where
  "fb_Flush fb = flush fb"

text \<open>A turn of \<^verbatim>\<open>flushLoop\<close>: by the ticker, or by a signal, which it takes from the channel.\<close>

definition flushLoop_turn :: "bool \<Rightarrow> FrameBatcher \<Rightarrow> Frame list list \<times> FrameBatcher" where
  "flushLoop_turn tick fb = (if tick then flush fb else flush (fb\<lparr>fb_flushChan := False\<rparr>))"

subsection \<open>Interleavings\<close>

text \<open>
  The state with what the interleaving adds: per goroutine the batch it has taken and not yet
  delivered, and the frames delivered so far.
\<close>

record batch_state =
  bs_fb :: FrameBatcher
  bs_held :: "nat \<Rightarrow> Frame list"
  bs_out :: "Frame list"
  bs_added :: "Frame list"

datatype batch_op = BAdd Frame | BTake nat | BDeliver nat

inductive batch_step :: "batch_state \<Rightarrow> batch_op \<Rightarrow> batch_state \<Rightarrow> bool" where
  batch_add: "batch_step s (BAdd f) (s\<lparr>bs_fb := fb_Add f (bs_fb s), bs_added := bs_added s @ [f]\<rparr>)"
| batch_take: "bs_held s g = [] \<Longrightarrow> flush_take (bs_fb s) = (Some fs, fb') \<Longrightarrow>
    batch_step s (BTake g) (s\<lparr>bs_fb := fb', bs_held := (bs_held s)(g := fs)\<rparr>)"
| batch_deliver: "flush_deliver (bs_fb s) (Some (bs_held s g)) = [fs] \<Longrightarrow>
    batch_step s (BDeliver g) (s\<lparr>bs_held := (bs_held s)(g := []), bs_out := bs_out s @ fs\<rparr>)"

definition batch_init :: "FrameBatcher \<Rightarrow> batch_state" where
  "batch_init fb = \<lparr>bs_fb = fb, bs_held = (\<lambda>_. []), bs_out = [], bs_added = []\<rparr>"

lemma fb_Add_frames: "fb_frames (fb_Add f fb) = fb_frames fb @ [f]"
  by (simp add: fb_Add_def triggerFlush_def Let_def)

text \<open>The goroutines that hold a batch are finitely many; nothing is lost and nothing doubled.\<close>

definition held_mset :: "nat \<Rightarrow> (nat \<Rightarrow> Frame list) \<Rightarrow> Frame multiset" where
  "held_mset n h = (\<Sum>g < n. mset (h g))"

lemma held_mset_update: "g < n \<Longrightarrow> h g = [] \<Longrightarrow> held_mset n (h(g := fs)) = held_mset n h + mset fs"
  by (induction n) (auto simp: held_mset_def less_Suc_eq)

lemma held_mset_drop: "g < n \<Longrightarrow> held_mset n h = held_mset n (h(g := [])) + mset (h g)"
  using held_mset_update [of g n "h(g := [])" "h g"] by (simp add: fun_upd_upd)

definition op_ok :: "nat \<Rightarrow> batch_op \<Rightarrow> bool" where
  "op_ok n l = (case l of BAdd _ \<Rightarrow> True | BTake g \<Rightarrow> g < n | BDeliver g \<Rightarrow> g < n)"

definition batch_inv :: "nat \<Rightarrow> batch_state \<Rightarrow> bool" where
  "batch_inv n s \<longleftrightarrow> mset (bs_added s) = mset (bs_out s) + held_mset n (bs_held s) + mset (fb_frames (bs_fb s)) \<and>
     (n = 1 \<longrightarrow> bs_added s = bs_out s @ bs_held s 0 @ fb_frames (bs_fb s))"

lemma flush_take_Some: "flush_take fb = (Some fs, fb') \<longleftrightarrow> fb_frames fb \<noteq> [] \<and> fs = fb_frames fb \<and> fb' = fb\<lparr>fb_frames := []\<rparr>"
  by (auto simp: flush_take_def)

interpretation batch: invariant_system "\<lambda>s l t. op_ok n l \<and> batch_step s l t" "batch_inv n" for n
proof
  fix s l t
  assume i: "batch_inv n s" and "op_ok n l \<and> batch_step s l t"
  then have ok: "op_ok n l" and "batch_step s l t" by simp_all
  from this(2) show "batch_inv n t"
  proof cases
    case (batch_add f)
    then show ?thesis using i by (simp add: batch_inv_def fb_Add_frames)
  next
    case (batch_take g fs fb')
    then have g: "g < n" and f: "fs = fb_frames (bs_fb s)" "fb_frames fb' = []"
      using ok by (auto simp: op_ok_def flush_take_Some)
    from batch_take i f held_mset_update [where h = "bs_held s" and g = g and n = n and fs = fs] g show ?thesis
      by (auto simp: batch_inv_def)
  next
    case (batch_deliver g fs)
    then have g: "g < n" and f: "fs = bs_held s g" using ok by (auto simp: op_ok_def flush_deliver_def split: if_split_asm)
    from batch_deliver i held_mset_drop [OF g, of "bs_held s"] g f show ?thesis
      by (auto simp: batch_inv_def ac_simps)
  qed
qed

text \<open>C25: The batcher loses nothing and doubles nothing: however additions and the two halves of the flushes
  of any number of goroutines interleave, the frames added are exactly those delivered, those on their
  way in some flush, and those pending, each as often as it was added.  With a single flushing goroutine
  they are delivered in the order of the additions.\<close>

theorem batcher_conserves_frames:
  assumes "NewFrameBatcher maxFrames maxDelay True = Ret fb"
    and "run (\<lambda>s l t. op_ok n l \<and> batch_step s l t) (batch_init fb) ls s"
  shows "mset (bs_added s) = mset (bs_out s) + held_mset n (bs_held s) + mset (fb_frames (bs_fb s)) \<and>
    (n = 1 \<longrightarrow> bs_added s = bs_out s @ bs_held s 0 @ fb_frames (bs_fb s))"
proof -
  have "batch_inv n (batch_init fb)"
    using assms(1) by (auto simp: NewFrameBatcher_def batch_inv_def batch_init_def held_mset_def split: if_split_asm)
  from batch.inv_run [OF assms(2) this] show ?thesis by (simp add: batch_inv_def)
qed

definition demo_batcher :: FrameBatcher where
  "demo_batcher = \<lparr>fb_frames = [], fb_maxFrames = 2, fb_maxDelay = 5, fb_flushChan = False, fb_onFlush = True\<rparr>"

theorem batcher_conserves_frames_witness:
  "\<exists>s. run (\<lambda>s l t. op_ok 1 l \<and> batch_step s l t) (batch_init demo_batcher) [BAdd (NewFrame FramePing 1 [])] s \<and>
     bs_added s = bs_out s @ bs_held s 0 @ fb_frames (bs_fb s)"
proof -
  let ?s = "batch_init demo_batcher" and ?f = "NewFrame FramePing 1 []"
  let ?t = "?s\<lparr>bs_fb := fb_Add ?f (bs_fb ?s), bs_added := bs_added ?s @ [?f]\<rparr>"
  have n: "NewFrameBatcher 2 5 True = Ret demo_batcher" by (simp add: NewFrameBatcher_def demo_batcher_def)
  have "op_ok 1 (BAdd ?f) \<and> batch_step ?s (BAdd ?f) ?t" by (simp add: op_ok_def batch_add)
  from run_Cons [where step = "\<lambda>s l t. op_ok 1 l \<and> batch_step s l t", OF this run_Nil]
  have r: "run (\<lambda>s l t. op_ok 1 l \<and> batch_step s l t) ?s [BAdd ?f] ?t" .
  have "bs_added ?t = bs_out ?t @ bs_held ?t 0 @ fb_frames (bs_fb ?t)"
    using batcher_conserves_frames [OF n r] by blast
  with r show ?thesis by (intro exI conjI)
qed

text \<open>With two flushing goroutines (the loop and a caller of \<^verbatim>\<open>Flush\<close>) the order is not kept: there is
  an interleaving that delivers the frame that was added second first.\<close>

theorem batcher_may_reorder:
  "\<exists>ls s. run (\<lambda>s l t. op_ok 2 l \<and> batch_step s l t) (batch_init demo_batcher) ls s \<and>
     bs_added s = [NewFrame FramePing 1 [], NewFrame FramePing 2 []] \<and>
     bs_out s = [NewFrame FramePing 2 [], NewFrame FramePing 1 []]"
proof -
  let ?step = "\<lambda>s l t. op_ok 2 l \<and> batch_step s l t" and ?f = "NewFrame FramePing 1 []" and ?g = "NewFrame FramePing 2 []"
  define st where "st fs h out added = \<lparr>bs_fb = demo_batcher\<lparr>fb_frames := fs\<rparr>, bs_held = h, bs_out = out, bs_added = added\<rparr>"
    for fs h out added
  have add: "?step (st [] h out added) (BAdd f) (st [f] h out (added @ [f]))" for h out added f
    using batch_add [of "st [] h out added" f] by (simp add: op_ok_def st_def fb_Add_def demo_batcher_def)
  have tk: "?step (st [f] h out added) (BTake i) (st [] (h(i := [f])) out added)" if "h i = []" "i < 2" for h out added f i
    using batch_take [of "st [f] h out added" i "[f]"] that by (simp add: op_ok_def st_def flush_take_def)
  have dl: "?step (st fs h out added) (BDeliver i) (st fs (h(i := [])) (out @ h i) added)" if "i < 2" for fs h out added i
    using batch_deliver [of "st fs h out added" i "h i"] that
    by (simp add: op_ok_def st_def flush_deliver_def demo_batcher_def)
  have "run ?step (st [] (\<lambda>_. []) [] []) [BAdd ?f, BTake 0, BAdd ?g, BTake 1, BDeliver 1, BDeliver 0]
      (st [] ((((\<lambda>_. [])(0 := [?f]))(1 := [?g]))(1 := [], 0 := [])) ([] @ [?g] @ [?f]) [?f, ?g])"
    apply (rule run_Cons [where step = ?step], rule add)
    apply (rule run_Cons [where step = ?step], rule tk, simp, simp)
    apply (rule run_Cons [where step = ?step], rule add)
    apply (rule run_Cons [where step = ?step], rule tk, simp, simp)
    apply (rule run_Cons [where step = ?step], rule dl, simp)
    apply (rule run_Cons [where step = ?step], rule dl, simp)
    apply (simp, rule run_Nil)
    done
  moreover have "st [] (\<lambda>_. []) [] [] = batch_init demo_batcher"
    by (simp add: st_def batch_init_def demo_batcher_def)
  ultimately show ?thesis by (intro exI conjI) (assumption | simp add: st_def)+
qed

end
