(* ===== verification/WB_Metrics.thy ===== *)
theory WB_Metrics
  imports WB_Format
begin

text \<open>
  \<^verbatim>\<open>metrics.go\<close>: counters, gauges and histograms by name, the page in the text format of Prometheus, and the middleware
  that counts requests.  A pointer to a counter, gauge or histogram is its name: the registry never replaces
  an entry.  The HTTP server is its address.
\<close>

record Histogram =
  h_count :: u64
  h_sum :: rat
  h_min :: rat
  h_max :: rat

record Metrics =
  m_counters :: "string \<rightharpoonup> u64"
  m_gauges :: "string \<rightharpoonup> rat"
  m_histograms :: "string \<rightharpoonup> Histogram"
  m_startTime :: time
  m_prometheusServer :: "string option"

definition NewMetrics :: "time \<Rightarrow> Metrics" where
  "NewMetrics now = \<lparr>m_counters = Map.empty, m_gauges = Map.empty, m_histograms = Map.empty, m_startTime = now,
     m_prometheusServer = None\<rparr>"

definition new_histogram :: Histogram where
  "new_histogram = \<lparr>h_count = 0, h_sum = 0, h_min = f64 (of_int (uint (drop_bit 1 (NOT (0 :: u64))))), h_max = 0\<rparr>"

text \<open>\<^verbatim>\<open>Counter\<close>, \<^verbatim>\<open>Gauge\<close> and \<^verbatim>\<open>Histogram\<close>: look the name up, and register it if it is new.\<close>

definition Metrics_Counter :: "string \<Rightarrow> Metrics \<Rightarrow> Metrics" where
  "Metrics_Counter name m = (case m_counters m name of Some c \<Rightarrow> m | None \<Rightarrow> m\<lparr>m_counters := (m_counters m)(name \<mapsto> 0)\<rparr>)"

definition Metrics_Gauge :: "string \<Rightarrow> Metrics \<Rightarrow> Metrics" where
  "Metrics_Gauge name m = (case m_gauges m name of Some c \<Rightarrow> m | None \<Rightarrow> m\<lparr>m_gauges := (m_gauges m)(name \<mapsto> 0)\<rparr>)"

definition Metrics_Histogram :: "string \<Rightarrow> Metrics \<Rightarrow> Metrics" where
  "Metrics_Histogram name m =
     (case m_histograms m name of Some c \<Rightarrow> m | None \<Rightarrow> m\<lparr>m_histograms := (m_histograms m)(name \<mapsto> new_histogram)\<rparr>)"

definition Counter_Add :: "u64 \<Rightarrow> u64 \<Rightarrow> u64" where
  "Counter_Add n c = c + n"

definition Counter_Inc :: "u64 \<Rightarrow> u64" where
  "Counter_Inc c = c + 1"

definition Counter_Value :: "u64 \<Rightarrow> u64" where
  "Counter_Value c = c"

definition Gauge_Set :: "rat \<Rightarrow> rat \<Rightarrow> rat" where
  "Gauge_Set v g = v"

text \<open>\<^verbatim>\<open>Gauge.Add\<close> loads the value and stores the sum, in two steps.\<close>

definition Gauge_load :: "rat \<Rightarrow> rat" where
  "Gauge_load g = g"

definition Gauge_Add :: "rat \<Rightarrow> rat \<Rightarrow> rat" where
  "Gauge_Add v g = (let old = Gauge_load g in f_add old v)"

definition Gauge_Value :: "rat \<Rightarrow> rat" where
  "Gauge_Value g = g"

definition Observe :: "rat \<Rightarrow> Histogram \<Rightarrow> Histogram" where
  "Observe v h =
     (let h = h\<lparr>h_count := h_count h + 1, h_sum := f_add (h_sum h) v\<rparr>;
          h = (if v < h_min h then h\<lparr>h_min := v\<rparr> else h);
          h = (if v > h_max h then h\<lparr>h_max := v\<rparr> else h)
      in h)"

definition Histogram_Stats :: "Histogram \<Rightarrow> u64 \<times> rat \<times> rat \<times> rat" where
  "Histogram_Stats h = (h_count h, h_sum h, h_min h, h_max h)"

definition on_counter :: "string \<Rightarrow> (u64 \<Rightarrow> u64) \<Rightarrow> Metrics \<Rightarrow> Metrics" where
  "on_counter name f m =
     (let m = Metrics_Counter name m in m\<lparr>m_counters := (m_counters m)(name := map_option f (m_counters m name))\<rparr>)"

definition on_histogram :: "string \<Rightarrow> (Histogram \<Rightarrow> Histogram) \<Rightarrow> Metrics \<Rightarrow> Metrics" where
  "on_histogram name f m =
     (let m = Metrics_Histogram name m in m\<lparr>m_histograms := (m_histograms m)(name := map_option f (m_histograms m name))\<rparr>)"

definition on_gauge :: "string \<Rightarrow> (rat \<Rightarrow> rat) \<Rightarrow> Metrics \<Rightarrow> Metrics" where
  "on_gauge name f m =
     (let m = Metrics_Gauge name m in m\<lparr>m_gauges := (m_gauges m)(name := map_option f (m_gauges m name))\<rparr>)"

text \<open>The package variables, with the entries that the package registers when it is loaded.\<close>

record metrics_globals =
  globalMetrics :: Metrics
  metricsEnabled :: bool

definition init_metrics :: "time \<Rightarrow> metrics_globals" where
  "init_metrics now =
     \<lparr>globalMetrics =
        Metrics_Gauge ''bandwidth_mbps'' (Metrics_Histogram ''latency'' (Metrics_Counter ''errors''
          (Metrics_Counter ''bytes_recv'' (Metrics_Counter ''bytes_sent'' (Metrics_Counter ''frames_recv''
            (Metrics_Counter ''frames_sent'' (Metrics_Counter ''connections'' (NewMetrics now)))))))),
      metricsEnabled = False\<rparr>"

definition GetMetrics :: "metrics_globals \<Rightarrow> Metrics" where
  "GetMetrics g = globalMetrics g"

definition EnableMetrics :: "bool \<Rightarrow> metrics_globals \<Rightarrow> metrics_globals" where
  "EnableMetrics enabled g = g\<lparr>metricsEnabled := enabled\<rparr>"

definition StartPrometheus :: "string \<Rightarrow> Metrics \<Rightarrow> error option \<times> Metrics" where
  "StartPrometheus addr m = (None, m\<lparr>m_prometheusServer := Some addr\<rparr>)"

text \<open>
  The page of \<^verbatim>\<open>Handler\<close>; \<open>cs\<close>, \<open>gs\<close> and \<open>hs\<close> are the orders in which the three maps are iterated.
  \<open>line\<close> is a text with its newline.
\<close>

definition line :: "string \<Rightarrow> string" where
  "line s = s @ [CHR 0x0A]"

definition help_type :: "string \<Rightarrow> string \<Rightarrow> string \<Rightarrow> string" where
  "help_type metric help kind = line (''# HELP '' @ metric @ '' '' @ help) @ line (''# TYPE '' @ metric @ '' '' @ kind)"

definition print_counter :: "Metrics \<Rightarrow> string \<Rightarrow> string" where
  "print_counter m name =
     (case m_counters m name of
        None \<Rightarrow> []
      | Some c \<Rightarrow>
          help_type (''webbou_'' @ name @ ''_total'') (''Total '' @ name) ''counter'' @
          line (''webbou_'' @ name @ ''_total '' @ fmt_d (uint (Counter_Value c))) @ line [])"

definition print_gauge :: "Metrics \<Rightarrow> string \<Rightarrow> string" where
  "print_gauge m name =
     (case m_gauges m name of
        None \<Rightarrow> []
      | Some g \<Rightarrow>
          help_type (''webbou_'' @ name) (''Current '' @ name) ''gauge'' @
          line (''webbou_'' @ name @ '' '' @ fmt_f 2 (Gauge_Value g)) @ line [])"

definition print_histogram :: "Metrics \<Rightarrow> string \<Rightarrow> string" where
  "print_histogram m name =
     (case m_histograms m name of
        None \<Rightarrow> []
      | Some h \<Rightarrow>
          (case Histogram_Stats h of (cnt, sm, mn, mx) \<Rightarrow>
             help_type (''webbou_'' @ name @ ''_seconds'') (''Histogram '' @ name) ''histogram'' @
             line (''webbou_'' @ name @ ''_seconds_count '' @ fmt_d (uint cnt)) @
             line (''webbou_'' @ name @ ''_seconds_sum '' @ fmt_f 6 sm) @
             line (''webbou_'' @ name @ ''_seconds_min '' @ fmt_f 6 mn) @
             line (''webbou_'' @ name @ ''_seconds_max '' @ fmt_f 6 mx) @ line []))"

definition Handler_page :: "time \<Rightarrow> string list \<Rightarrow> string list \<Rightarrow> string list \<Rightarrow> Metrics \<Rightarrow> string" where
  "Handler_page now cs gs hs m =
     (let uptime = Seconds (time_Sub now (m_startTime m))
      in help_type ''webbou_uptime_seconds'' ''Server uptime in seconds'' ''gauge'' @
         line (''webbou_uptime_seconds '' @ fmt_f 2 uptime) @ line [] @
         concat (map (print_counter m) cs) @ concat (map (print_gauge m) gs) @ concat (map (print_histogram m) hs))"

text \<open>
  A response: the headers that are set, and the headers that went out with the first byte of the body.
  Writing sends the headers; a header set afterwards stays here.
\<close>

record response =
  rw_header :: "(string \<times> string) list"
  rw_sent :: "(string \<times> string) list option"
  rw_body :: string

definition rw_Add :: "string \<Rightarrow> string \<Rightarrow> response \<Rightarrow> response" where
  "rw_Add k v w = w\<lparr>rw_header := rw_header w @ [(k, v)]\<rparr>"

definition rw_Set :: "string \<Rightarrow> string \<Rightarrow> response \<Rightarrow> response" where
  "rw_Set k v w = w\<lparr>rw_header := filter (\<lambda>(k', _). k' \<noteq> k) (rw_header w) @ [(k, v)]\<rparr>"

definition rw_Write :: "string \<Rightarrow> response \<Rightarrow> response" where
  "rw_Write text w =
     w\<lparr>rw_sent := (case rw_sent w of None \<Rightarrow> Some (rw_header w) | Some hs \<Rightarrow> Some hs), rw_body := rw_body w @ text\<rparr>"

text \<open>At the end of a request headers that were not sent go out.\<close>

definition sent_headers :: "response \<Rightarrow> (string \<times> string) list" where
  "sent_headers w = (case rw_sent w of None \<Rightarrow> rw_header w | Some hs \<Rightarrow> hs)"

definition new_response :: response where
  "new_response = \<lparr>rw_header = [], rw_sent = None, rw_body = []\<rparr>"

definition Metrics_Handler :: "time \<Rightarrow> string list \<Rightarrow> string list \<Rightarrow> string list \<Rightarrow> Metrics \<Rightarrow> response \<Rightarrow> response" where
  "Metrics_Handler now cs gs hs m w =
     rw_Write (Handler_page now cs gs hs m) (rw_Set ''Content-Type'' ''text/plain; version=0.0.4'' w)"

text \<open>The middleware holds the registry of the package.\<close>

definition NewMetricsMiddleware :: "metrics_globals \<Rightarrow> Metrics" where
  "NewMetricsMiddleware g = GetMetrics g"

text \<open>
  \<^verbatim>\<open>Wrap\<close>: the wrapped handler is a parameter that may use the registry and writes the response; \<open>start\<close> and
  \<open>stop\<close> are the clock readings before and after it.
\<close>

definition Wrap ::
    "(Metrics \<times> response \<Rightarrow> Metrics \<times> response) \<Rightarrow> time \<Rightarrow> time \<Rightarrow> Metrics \<times> response \<Rightarrow> Metrics \<times> response" where
  "Wrap next_handler start stop mw =
     (let m = on_counter ''requests'' Counter_Inc (fst mw);
          (m, w) = next_handler (m, snd mw);
          duration = Seconds (time_Sub stop start);
          m = on_histogram ''request_duration'' (Observe duration) m
      in (m, rw_Add ''X-WebBou-Metrics'' ''true'' w))"

subsection \<open>Histograms\<close>

text \<open>The initial minimum is \<open>2\<^sup>6\<^sup>3 - 1\<close> rounded to a double.\<close>

lemma new_histogram_min: "h_min new_histogram = 2 ^ 63"
proof -
  have "uint (drop_bit 1 (NOT (0 :: u64))) = 2 ^ 63 - 1"
    by code_simp
  moreover have "f64 (of_int (2 ^ 63 - 1)) = 2 ^ 63" by code_simp
  ultimately show ?thesis by (simp only: new_histogram_def Histogram.simps)
qed

lemma Observe_fields:
  "h_count (Observe v h) = h_count h + 1" "h_min (Observe v h) = min v (h_min h)" "h_max (Observe v h) = max v (h_max h)"
  by (simp_all add: Observe_def Let_def min_def max_def)

lemma Observe_count: "h_count (fold Observe vs h) = h_count h + of_nat (length vs)"
  by (induction vs arbitrary: h) (simp_all add: Observe_fields)

lemma Observe_min: "h_min (fold Observe vs h) = Min (set (h_min h # vs))"
proof -
  have "h_min (fold Observe vs h) = fold min vs (h_min h)"
    by (induction vs arbitrary: h) (simp_all add: Observe_fields)
  then show ?thesis by (simp only: Min.set_eq_fold)
qed

lemma Observe_max: "h_max (fold Observe vs h) = Max (set (h_max h # vs))"
proof -
  have "h_max (fold Observe vs h) = fold max vs (h_max h)"
    by (induction vs arbitrary: h) (simp_all add: Observe_fields)
  then show ?thesis by (simp only: Max.set_eq_fold)
qed

text \<open>A histogram counts its observations modulo \<open>2\<^sup>6\<^sup>4\<close> and reports their least and greatest value,
  when the values lie between zero and \<open>2\<^sup>6\<^sup>3\<close>, whatever their order.  Its maximum starts at zero, so a
  histogram of negative values only reports zero, which was never observed.\<close>

theorem histogram_extremes:
  assumes "vs \<noteq> []" and "\<forall>v \<in> set vs. v \<le> 2 ^ 63"
  shows "h_count (fold Observe vs new_histogram) = of_nat (length vs) \<and>
    h_min (fold Observe vs new_histogram) = Min (set vs) \<and>
    h_max (fold Observe vs new_histogram) = (if \<exists>v \<in> set vs. 0 \<le> v then Max (set vs) else 0)"
proof -
  have "Min (set vs) \<le> 2 ^ 63" using assms by (auto simp: Min_le_iff)
  then have mn: "Min (set (2 ^ 63 # vs)) = Min (set vs)" using assms(1) by (simp add: min_absorb2)
  have mx: "Max (set (0 # vs)) = (if \<exists>v \<in> set vs. 0 \<le> v then Max (set vs) else 0)"
  proof (cases "\<exists>v \<in> set vs. 0 \<le> v")
    case True
    then have "0 \<le> Max (set vs)" using assms(1) by (auto simp: Max_ge_iff)
    with True show ?thesis using assms(1) by simp
  next
    case False
    then have "Max (set vs) \<le> 0" using assms(1) by (auto simp: not_le less_imp_le)
    with False show ?thesis using assms(1) by (simp add: max_absorb1)
  qed
  have z: "h_max new_histogram = 0" "h_count new_histogram = 0" by (simp_all add: new_histogram_def)
  show ?thesis
    unfolding Observe_count Observe_min Observe_max new_histogram_min z mn mx by simp
qed

theorem histogram_extremes_witness:
  "h_min (fold Observe [3, 1, 2] new_histogram) = 1 \<and> h_max (fold Observe [3, 1, 2] new_histogram) = 3"
  using histogram_extremes [of "[3, 1, 2]"] by simp

subsection \<open>The middleware\<close>

definition counter_value :: "string \<Rightarrow> Metrics \<Rightarrow> u64" where
  "counter_value name m = (case m_counters m name of None \<Rightarrow> 0 | Some c \<Rightarrow> c)"

definition histogram_of :: "string \<Rightarrow> Metrics \<Rightarrow> Histogram" where
  "histogram_of name m = (case m_histograms m name of None \<Rightarrow> new_histogram | Some h \<Rightarrow> h)"

lemma on_counter_value:
  "counter_value name (on_counter name' f m) = (if name = name' then f (counter_value name m) else counter_value name m)"
  by (auto simp: on_counter_def Metrics_Counter_def counter_value_def Let_def split: option.split)

lemma on_histogram_of:
  "histogram_of name (on_histogram name' f m) = (if name = name' then f (histogram_of name m) else histogram_of name m)"
  by (auto simp: on_histogram_def Metrics_Histogram_def histogram_of_def Let_def split: option.split)

lemma on_others [simp]:
  "counter_value name (on_histogram name' f m) = counter_value name m"
  "histogram_of name (on_counter name' g m) = histogram_of name m"
  by (simp_all add: on_histogram_def on_counter_def Metrics_Histogram_def Metrics_Counter_def counter_value_def
      histogram_of_def Let_def split: option.split)

text \<open>The middleware counts every request once and times it once: after requests whose handlers leave
  the two entries alone, the counter has grown by their number and the histogram has observed exactly
  their durations, in order.\<close>

definition serve :: "(Metrics \<times> response \<Rightarrow> Metrics \<times> response) \<times> time \<times> time \<Rightarrow> Metrics \<Rightarrow> Metrics" where
  "serve r m = (case r of (f, t, u) \<Rightarrow> fst (Wrap f t u (m, new_response)))"

theorem middleware_counts:
  assumes "\<forall>(next_handler, start, stop) \<in> set reqs. \<forall>m w. counter_value ''requests'' (fst (next_handler (m, w))) = counter_value ''requests'' m \<and>
      histogram_of ''request_duration'' (fst (next_handler (m, w))) = histogram_of ''request_duration'' m"
  shows "counter_value ''requests'' (fold serve reqs m) = counter_value ''requests'' m + of_nat (length reqs) \<and>
    histogram_of ''request_duration'' (fold serve reqs m) =
      fold Observe (map (\<lambda>(f, t, u). Seconds (time_Sub u t)) reqs) (histogram_of ''request_duration'' m)"
  using assms
proof (induction reqs arbitrary: m)
  case (Cons r reqs)
  obtain f t u where r: "r = (f, t, u)" by (cases r)
  have "counter_value ''requests'' (serve r m) = counter_value ''requests'' m + 1"
      "histogram_of ''request_duration'' (serve r m) = Observe (Seconds (time_Sub u t)) (histogram_of ''request_duration'' m)"
    using Cons.prems by (simp_all add: r serve_def Wrap_def Let_def case_prod_beta on_counter_value on_histogram_of Counter_Inc_def)
  with Cons show ?case by (simp add: r)
qed simp

theorem middleware_counts_witness:
  "counter_value ''requests'' (fold serve [(id, 0, 5), (id, 7, 9)] (NewMetrics 0)) = 2"
  using middleware_counts [of "[(id, 0, 5), (id, 7, 9)]" "NewMetrics 0"]
  by (simp add: counter_value_def NewMetrics_def)

text \<open>The header that the middleware adds comes too late: a client never sees it once the wrapped handler has
  written a byte.\<close>

theorem middleware_header_lost:
  assumes "next_handler (on_counter ''requests'' Counter_Inc m, w) = (m', w')" and "rw_sent w' = Some hs"
  shows "sent_headers (snd (Wrap next_handler start stop (m, w))) = hs"
  using assms by (simp add: Wrap_def Let_def rw_Add_def sent_headers_def)

theorem middleware_header_lost_witness:
  "sent_headers (snd (Wrap (\<lambda>(m, w). (m, rw_Write ''ok'' w)) 0 1 (NewMetrics 0, new_response))) = []"
  using middleware_header_lost [of "\<lambda>(m, w). (m, rw_Write ''ok'' w)" "NewMetrics 0" new_response _ _ "[]"]
  by (simp add: rw_Write_def new_response_def)

text \<open>Adding to a gauge is not atomic: when two goroutines load the same value, one of the two additions is lost.\<close>

theorem gauge_addition_lost:
  "(let old1 = Gauge_load g; old2 = Gauge_load g; g1 = Gauge_Set (f_add old1 v) g; g2 = Gauge_Set (f_add old2 v') g1 in g2) =
   Gauge_Add v' g"
  by (simp add: Gauge_load_def Gauge_Set_def Gauge_Add_def)

subsection \<open>The page is read back\<close>

text \<open>
  How the text format is read, as far as pages without labels and timestamps go: line by line, without empty lines
  and comments, a name up to the first space and a number after it.
\<close>

function lines_of :: "string \<Rightarrow> string list" where
  "lines_of s =
     (if CHR 0x0A \<in> set s then takeWhile (\<lambda>c. c \<noteq> CHR 0x0A) s # lines_of (tl (dropWhile (\<lambda>c. c \<noteq> CHR 0x0A) s))
      else if s = [] then [] else [s])"
  by auto
termination
proof (relation "measure length")
  fix s :: string
  assume "CHR 0x0A \<in> set s"
  then have "0 < length s" by (cases s) auto
  moreover have "length (dropWhile (\<lambda>c. c \<noteq> CHR 0x0A) s) \<le> length s" by (rule length_dropWhile_le)
  ultimately show "(tl (dropWhile (\<lambda>c. c \<noteq> CHR 0x0A) s), s) \<in> measure length"
    by (simp only: in_measure length_tl)
qed simp

declare lines_of.simps [simp del]

text \<open>
  The names and the numbers of the format, and the metric names in its comments; the type in a \<^verbatim>\<open>TYPE\<close> comment is
  one of five words.
\<close>

definition metric_char :: "char \<Rightarrow> bool" where
  "metric_char c \<longleftrightarrow> is_decimal c \<or> 65 \<le> (of_char c :: nat) \<and> (of_char c :: nat) \<le> 90 \<or>
     97 \<le> (of_char c :: nat) \<and> (of_char c :: nat) \<le> 122 \<or> c = CHR ''_'' \<or> c = CHR '':''"

definition metric_name :: "string \<Rightarrow> bool" where
  "metric_name s \<longleftrightarrow> s \<noteq> [] \<and> \<not> is_decimal (hd s) \<and> list_all metric_char s"

definition number_text :: "string \<Rightarrow> bool" where
  "number_text s \<longleftrightarrow>
     (let s = (if s \<noteq> [] \<and> hd s = CHR ''-'' then tl s else s);
          whole = takeWhile (\<lambda>c. c \<noteq> CHR ''.'') s; rest = dropWhile (\<lambda>c. c \<noteq> CHR ''.'') s
      in whole \<noteq> [] \<and> list_all is_decimal whole \<and> (rest = [] \<or> tl rest \<noteq> [] \<and> list_all is_decimal (tl rest)))"

definition word_of :: "string \<Rightarrow> string" where
  "word_of s = takeWhile (\<lambda>c. c \<noteq> CHR '' '') s"

definition after_word :: "string \<Rightarrow> string" where
  "after_word s = tl (dropWhile (\<lambda>c. c \<noteq> CHR '' '') s)"

definition comment_ok :: "string \<Rightarrow> bool" where
  "comment_ok s \<longleftrightarrow>
     (if take 7 s = ''# HELP '' then metric_name (word_of (drop 7 s))
      else if take 7 s = ''# TYPE '' then metric_name (word_of (drop 7 s)) \<and>
        after_word (drop 7 s) \<in> {''counter'', ''gauge'', ''histogram'', ''summary'', ''untyped''}
      else True)"

text \<open>A line gives at most one sample; a page with one bad line is refused as a whole.\<close>

definition read_line :: "string \<Rightarrow> (string \<times> rat) list option" where
  "read_line s =
     (if s = [] then Some []
      else if hd s = CHR ''#'' then (if comment_ok s then Some [] else None)
      else if metric_name (word_of s) \<and> number_text (after_word s) then Some [(word_of s, decimal_value (after_word s))]
      else None)"

definition scrape :: "string \<Rightarrow> (string \<times> rat) list option" where
  "scrape s = map_option concat (those (map read_line (lines_of s)))"

lemma scrape_nil: "scrape [] = Some []"
  by (simp add: scrape_def lines_of.simps)

lemma scrape_line:
  assumes "CHR 0x0A \<notin> set a" and "read_line a = Some xs"
  shows "scrape (line a @ rest) = map_option ((@) xs) (scrape rest)"
proof -
  have "takeWhile (\<lambda>c. c \<noteq> CHR 0x0A) (line a @ rest) = a" "tl (dropWhile (\<lambda>c. c \<noteq> CHR 0x0A) (line a @ rest)) = rest"
    using assms(1) by (auto simp: line_def takeWhile_append dropWhile_append)
  then have "lines_of (line a @ rest) = a # lines_of rest"
    by (subst lines_of.simps) (simp add: line_def)
  then show ?thesis using assms(2) by (simp add: scrape_def option.map_comp comp_def)
qed

lemma metric_char_plain: "metric_char c \<Longrightarrow> c \<noteq> CHR '' '' \<and> c \<noteq> CHR 0x0A"
  by (auto simp: metric_char_def is_decimal_def)

lemma word_metric: "list_all metric_char metric \<Longrightarrow> word_of (metric @ CHR '' '' # v) = metric \<and> after_word (metric @ CHR '' '' # v) = v"
  using metric_char_plain by (auto simp: word_of_def after_word_def takeWhile_append dropWhile_append list_all_iff)

lemma digits_whole:
  "takeWhile (\<lambda>c. c \<noteq> CHR ''.'') (digits n) = digits n" "dropWhile (\<lambda>c. c \<noteq> CHR ''.'') (digits n) = []"
  unfolding takeWhile_eq_all_conv dropWhile_eq_Nil_conv using digits_no_point(1) [of n] by blast+

lemma number_text_digits:
  "number_text (digits n)" "0 < p \<Longrightarrow> number_text (fmt_f p x)"
proof -
  have w: "list_all is_decimal (digits k)" for k using digits_decimal by (auto simp: list_all_iff)
  have np: "takeWhile (\<lambda>c. c \<noteq> CHR ''.'') (digits k @ r) = digits k @ takeWhile (\<lambda>c. c \<noteq> CHR ''.'') r"
      "dropWhile (\<lambda>c. c \<noteq> CHR ''.'') (digits k @ r) = dropWhile (\<lambda>c. c \<noteq> CHR ''.'') r" for k r
    using digits_no_point(1) [of k] by (auto simp: takeWhile_append dropWhile_append)
  show "number_text (digits n)"
    using w [of n] digits_no_point [of n] by (auto simp: number_text_def digits_whole Let_def)
  have z: "list_all is_decimal (zero_padded p k)" "zero_padded p k \<noteq> []" for k
    using w [of k] by (auto simp: zero_padded_def list_all_iff is_decimal_def)
  let ?n = "nat (round_even (\<bar>x\<bar> * 10 ^ p))"
  let ?b = "digits (?n div 10 ^ p) @ ''.'' @ zero_padded p (?n mod 10 ^ p)"
  have b: "hd ?b \<noteq> CHR ''-''" using digits_no_point(2) by simp
  have f: "fmt_f p x = (if x < 0 then CHR ''-'' # ?b else ?b)" by (simp add: fmt_f_def Let_def)
  show "number_text (fmt_f p x)"
    unfolding f by (cases "x < 0") (use b w z in \<open>simp_all add: number_text_def np\<close>)
qed

lemma decimal_value_digits: "decimal_value (digits n) = of_nat n"
proof -
  have z: "number_value [] = 0" by (simp add: number_value_def)
  show ?thesis using digits_no_point(2) [of n] by (simp add: decimal_value_def number_value_digits digits_whole z Let_def)
qed

lemma fmt_d_word: "number_text (fmt_d (uint c))" "decimal_value (fmt_d (uint c)) = of_int (uint c)"
  using uint_nonnegative [of c] by (simp_all add: fmt_d_def number_text_digits decimal_value_digits not_less)

text \<open>The lines of the page.\<close>

definition name_part :: "string \<Rightarrow> bool" where
  "name_part n \<longleftrightarrow> list_all metric_char n"

lemma webbou_name: "name_part n \<Longrightarrow> metric_name (''webbou_'' @ n)"
  by (simp add: metric_name_def name_part_def metric_char_def is_decimal_def)

lemma name_part_append [simp]: "name_part (a @ b) \<longleftrightarrow> name_part a \<and> name_part b"
  by (simp add: name_part_def)

lemma suffix_parts [simp]:
  "name_part ''_total''" "name_part ''_seconds''" "name_part ''_seconds_count''" "name_part ''_seconds_sum''"
  "name_part ''_seconds_min''" "name_part ''_seconds_max''" "name_part ''uptime_seconds''"
  by (simp_all add: name_part_def metric_char_def is_decimal_def)

lemma name_part_no_newline: "name_part n \<Longrightarrow> CHR 0x0A \<notin> set n"
  using metric_char_plain by (auto simp: name_part_def list_all_iff)

lemma scrape_metric:
  assumes "name_part n" and "number_text v" and "\<forall>c \<in> set v. numeric c"
  shows "scrape (line (''webbou_'' @ n @ CHR '' '' # v) @ rest) = map_option ((#) (''webbou_'' @ n, decimal_value v)) (scrape rest)"
proof -
  have m: "metric_name (''webbou_'' @ n)" by (rule webbou_name [OF assms(1)])
  then have "list_all metric_char (''webbou_'' @ n)" by (simp add: metric_name_def)
  from word_metric [OF this, of v] m assms(2)
  have r: "read_line (''webbou_'' @ n @ CHR '' '' # v) = Some [(''webbou_'' @ n, decimal_value v)]"
    by (simp add: read_line_def)
  have "CHR 0x0A \<notin> set (''webbou_'' @ n @ CHR '' '' # v)"
    using assms(1,3) numeric_not_space name_part_no_newline by auto
  from scrape_line [OF this r] show ?thesis by (simp add: fun_eq_iff cong: option.map_cong)
qed

lemma map_option_nothing: "map_option ((@) []) x = x"
  by (cases x) simp_all

lemma scrape_help_type:
  assumes "name_part n" and "CHR 0x0A \<notin> set about" and "kind \<in> {''counter'', ''gauge'', ''histogram''}"
  shows "scrape (help_type (''webbou_'' @ n) about kind @ rest) = scrape rest"
proof -
  have m: "metric_name (''webbou_'' @ n)" by (rule webbou_name [OF assms(1)])
  then have w: "word_of (''webbou_'' @ n @ CHR '' '' # v) = ''webbou_'' @ n" "after_word (''webbou_'' @ n @ CHR '' '' # v) = v" for v
    using word_metric [of "''webbou_'' @ n" v] by (simp_all add: metric_name_def)
  have "read_line (''# HELP '' @ ''webbou_'' @ n @ CHR '' '' # about) = Some []"
      "read_line (''# TYPE '' @ ''webbou_'' @ n @ CHR '' '' # kind) = Some []"
    using m w [of about] w [of kind] assms(3) by (auto simp: read_line_def comment_ok_def)
  moreover have "CHR 0x0A \<notin> set (''# HELP '' @ ''webbou_'' @ n @ CHR '' '' # about)"
      "CHR 0x0A \<notin> set (''# TYPE '' @ ''webbou_'' @ n @ CHR '' '' # kind)"
    using name_part_no_newline [OF assms(1)] assms(2,3) by auto
  ultimately show ?thesis
    using scrape_line [of "''# HELP '' @ ''webbou_'' @ n @ CHR '' '' # about" "[]" "line (''# TYPE '' @ ''webbou_'' @ n @ CHR '' '' # kind) @ rest"]
      scrape_line [of "''# TYPE '' @ ''webbou_'' @ n @ CHR '' '' # kind" "[]" rest]
    unfolding help_type_def by (simp add: map_option_nothing)
qed

lemma scrape_blank: "scrape (line [] @ rest) = scrape rest"
  using scrape_line [of "[]" "[]" rest] by (simp add: read_line_def map_option_nothing)

text \<open>
  A part of a page that gives samples with the expected names, each with a value within a tolerance of the
  expected one.
\<close>

type_synonym expected = "(string \<times> rat \<times> rat) list"

definition reads_as :: "(string \<times> rat) list \<Rightarrow> expected \<Rightarrow> bool" where
  "reads_as xs es \<longleftrightarrow> list_all2 (\<lambda>(n, v) (n', x, e). n = n' \<and> \<bar>v - x\<bar> \<le> e) xs es"

definition block :: "string \<Rightarrow> expected \<Rightarrow> bool" where
  "block p es \<longleftrightarrow> (\<exists>xs. reads_as xs es \<and> (\<forall>rest. scrape (p @ rest) = map_option ((@) xs) (scrape rest)))"

lemma block_empty: "block [] []" "block (line []) []"
  by (auto simp: block_def reads_as_def map_option_nothing scrape_blank)

lemma block_append: "block p es \<Longrightarrow> block q fs \<Longrightarrow> block (p @ q) (es @ fs)"
proof -
  assume "block p es" and "block q fs"
  then obtain xs ys where x: "reads_as xs es" "\<And>rest. scrape (p @ rest) = map_option ((@) xs) (scrape rest)"
      "reads_as ys fs" "\<And>rest. scrape (q @ rest) = map_option ((@) ys) (scrape rest)"
    by (auto simp: block_def)
  have "scrape ((p @ q) @ rest) = map_option ((@) (xs @ ys)) (scrape rest)" for rest
    using x(2) [of "q @ rest"] x(4) [of rest] by (cases "scrape rest") simp_all
  moreover have "reads_as (xs @ ys) (es @ fs)" using x(1,3) by (simp add: reads_as_def list_all2_appendI)
  ultimately show ?thesis unfolding block_def by blast
qed

lemma block_concat: "(\<And>n. n \<in> set ns \<Longrightarrow> block (p n) (q n)) \<Longrightarrow> block (concat (map p ns)) (concat (map q ns))"
  by (induction ns) (simp_all add: block_empty block_append)

lemma block_help:
  assumes "name_part n" and "CHR 0x0A \<notin> set about" and "kind \<in> {''counter'', ''gauge'', ''histogram''}"
  shows "block (help_type (''webbou_'' @ n) about kind) []"
proof -
  have "scrape (help_type (''webbou_'' @ n) about kind @ rest) = map_option ((@) []) (scrape rest)" for rest
    unfolding map_option_nothing by (rule scrape_help_type [OF assms])
  moreover have "reads_as [] []" by (simp add: reads_as_def)
  ultimately show ?thesis unfolding block_def by blast
qed

lemma block_metric:
  assumes "name_part n" and "number_text v" and "\<forall>c \<in> set v. numeric c" and "\<bar>decimal_value v - x\<bar> \<le> e"
  shows "block (line (''webbou_'' @ n @ CHR '' '' # v)) [(''webbou_'' @ n, x, e)]"
proof -
  have "scrape (line (''webbou_'' @ n @ CHR '' '' # v) @ rest) = map_option ((@) [(''webbou_'' @ n, decimal_value v)]) (scrape rest)" for rest
    unfolding scrape_metric [OF assms(1-3)] by (cases "scrape rest") simp_all
  moreover have "reads_as [(''webbou_'' @ n, decimal_value v)] [(''webbou_'' @ n, x, e)]" using assms(4) by (simp add: reads_as_def)
  ultimately show ?thesis unfolding block_def by blast
qed

lemma block_count: "name_part n \<Longrightarrow> block (line (''webbou_'' @ n @ CHR '' '' # fmt_d (uint c))) [(''webbou_'' @ n, of_int (uint c), 0)]"
  by (rule block_metric) (simp_all add: fmt_d_word fmt_d_numeric)

lemma block_float:
  "name_part n \<Longrightarrow> 0 < p \<Longrightarrow> block (line (''webbou_'' @ n @ CHR '' '' # fmt_f p x)) [(''webbou_'' @ n, x, 1 / (2 * 10 ^ p))]"
  by (rule block_metric) (use fmt_f_near [of p x] in \<open>simp_all add: number_text_digits fmt_f_numeric\<close>)

subsection \<open>What the registry holds\<close>

definition counter_expected :: "Metrics \<Rightarrow> string \<Rightarrow> expected" where
  "counter_expected m n = (case m_counters m n of None \<Rightarrow> [] | Some c \<Rightarrow> [(''webbou_'' @ n @ ''_total'', of_int (uint c), 0)])"

definition gauge_expected :: "Metrics \<Rightarrow> string \<Rightarrow> expected" where
  "gauge_expected m n = (case m_gauges m n of None \<Rightarrow> [] | Some g \<Rightarrow> [(''webbou_'' @ n, g, 1 / 200)])"

definition histogram_expected :: "Metrics \<Rightarrow> string \<Rightarrow> expected" where
  "histogram_expected m n =
     (case m_histograms m n of
        None \<Rightarrow> []
      | Some h \<Rightarrow>
          [(''webbou_'' @ n @ ''_seconds_count'', of_int (uint (h_count h)), 0),
           (''webbou_'' @ n @ ''_seconds_sum'', h_sum h, 1 / 2000000),
           (''webbou_'' @ n @ ''_seconds_min'', h_min h, 1 / 2000000),
           (''webbou_'' @ n @ ''_seconds_max'', h_max h, 1 / 2000000)])"

definition page_expected :: "time \<Rightarrow> string list \<Rightarrow> string list \<Rightarrow> string list \<Rightarrow> Metrics \<Rightarrow> expected" where
  "page_expected now cs gs hs m =
     (''webbou_uptime_seconds'', Seconds (time_Sub now (m_startTime m)), 1 / 200) #
     concat (map (counter_expected m) cs) @ concat (map (gauge_expected m) gs) @ concat (map (histogram_expected m) hs)"

lemma block_counter:
  assumes "name_part n"
  shows "block (print_counter m n) (counter_expected m n)"
proof (cases "m_counters m n")
  case (Some c)
  have "block (help_type (''webbou_'' @ n @ ''_total'') (''Total '' @ n) ''counter'') []"
    using block_help [of "n @ ''_total''" "''Total '' @ n" "''counter''"] assms name_part_no_newline by simp
  from block_append [OF this block_append [OF block_count [of "n @ ''_total''" c] block_empty(2)]]
  show ?thesis using assms by (simp add: print_counter_def counter_expected_def Counter_Value_def Some)
qed (simp add: print_counter_def counter_expected_def block_empty)

lemma block_gauge:
  assumes "name_part n"
  shows "block (print_gauge m n) (gauge_expected m n)"
proof (cases "m_gauges m n")
  case (Some g)
  have "block (help_type (''webbou_'' @ n) (''Current '' @ n) ''gauge'') []"
    using block_help [of n "''Current '' @ n" "''gauge''"] assms name_part_no_newline by simp
  from block_append [OF this block_append [OF block_float [OF assms, of 2 g] block_empty(2)]]
  show ?thesis by (simp add: print_gauge_def gauge_expected_def Gauge_Value_def Some)
qed (simp add: print_gauge_def gauge_expected_def block_empty)

lemma block_histogram:
  assumes "name_part n"
  shows "block (print_histogram m n) (histogram_expected m n)"
proof (cases "m_histograms m n")
  case (Some h)
  have "block (help_type (''webbou_'' @ n @ ''_seconds'') (''Histogram '' @ n) ''histogram'') []"
    using block_help [of "n @ ''_seconds''" "''Histogram '' @ n" "''histogram''"] assms name_part_no_newline by simp
  note b = block_append [OF this block_append [OF block_count [of "n @ ''_seconds_count''" "h_count h"]
        block_append [OF block_float [of "n @ ''_seconds_sum''" 6 "h_sum h"] block_append [OF block_float [of "n @ ''_seconds_min''" 6 "h_min h"]
            block_append [OF block_float [of "n @ ''_seconds_max''" 6 "h_max h"] block_empty(2)]]]]]
  from b show ?thesis using assms by (simp add: print_histogram_def histogram_expected_def Histogram_Stats_def Some)
qed (simp add: print_histogram_def histogram_expected_def block_empty)

text \<open>C32: The page is read back as the registry.  If every registered name consists of letters, digits, underscores and
  colons, as the text format asks for, then a strict reader of the format (one malformed line spoils the page)
  accepts the page, and gets, in the order of the iterations, the uptime, one sample per counter, one per gauge
  and four per histogram, under their names.  Counters and the numbers of observations are read back
  exactly; every printed float differs from its value by at most half a unit of the last digit printed: 0.005
  for the uptime and the gauges, 0.0000005 for the sum, minimum and maximum of a histogram.\<close>

theorem metrics_page_read_back:
  assumes "\<forall>n \<in> set (cs @ gs @ hs). name_part n"
  shows "\<exists>xs. scrape (Handler_page now cs gs hs m) = Some xs \<and> reads_as xs (page_expected now cs gs hs m)"
proof -
  let ?u = "Seconds (time_Sub now (m_startTime m))"
  have h: "block (help_type (''webbou_'' @ ''uptime_seconds'') ''Server uptime in seconds'' ''gauge'') []"
    by (rule block_help) simp_all
  have u: "block (line (''webbou_'' @ ''uptime_seconds'' @ CHR '' '' # fmt_f 2 ?u)) [(''webbou_'' @ ''uptime_seconds'', ?u, 1 / (2 * 10 ^ 2))]"
    by (rule block_float) simp_all
  have c: "block (concat (map (print_counter m) cs)) (concat (map (counter_expected m) cs))"
      "block (concat (map (print_gauge m) gs)) (concat (map (gauge_expected m) gs))"
      "block (concat (map (print_histogram m) hs)) (concat (map (histogram_expected m) hs))"
    using assms by (auto intro!: block_concat block_counter block_gauge block_histogram)
  from block_append [OF h block_append [OF u block_append [OF block_empty(2) block_append [OF c(1) block_append [OF c(2,3)]]]]]
  have "block (Handler_page now cs gs hs m) (page_expected now cs gs hs m)"
    by (simp add: Handler_page_def page_expected_def Let_def)
  then obtain xs where "reads_as xs (page_expected now cs gs hs m)" "scrape (Handler_page now cs gs hs m @ []) = map_option ((@) xs) (scrape [])"
    unfolding block_def by blast
  then show ?thesis by (auto simp: scrape_nil)
qed

theorem metrics_page_read_back_witness:
  "\<exists>x. scrape (Handler_page 0 [''connections''] [] [] (globalMetrics (init_metrics 0))) =
     Some [(''webbou_uptime_seconds'', x), (''webbou_connections_total'', 0)] \<and> \<bar>x\<bar> \<le> 1 / 200"
proof -
  have "m_counters (globalMetrics (init_metrics 0)) ''connections'' = Some 0" "m_startTime (globalMetrics (init_metrics 0)) = 0"
    by (simp_all add: init_metrics_def Metrics_Counter_def Metrics_Gauge_def Metrics_Histogram_def NewMetrics_def)
  then have e: "page_expected 0 [''connections''] [] [] (globalMetrics (init_metrics 0)) =
      [(''webbou_uptime_seconds'', 0, 1 / 200), (''webbou_connections_total'', 0, 0)]"
    by (simp add: page_expected_def counter_expected_def)
  have "\<forall>n \<in> set ([''connections''] @ [] @ []). name_part n" by (simp add: name_part_def metric_char_def is_decimal_def)
  from metrics_page_read_back [OF this, of 0 "globalMetrics (init_metrics 0)"] show ?thesis
    unfolding e reads_as_def by (auto simp: list_all2_Cons2)
qed

end
