(* ===== verification/WB_Logging.thy ===== *)
theory WB_Logging
  imports WB_Prelude "HOL-Library.Char_ord" "HOL-Library.List_Lexorder"
begin

text \<open>
  \<^verbatim>\<open>logging.go\<close>: the levelled logger, the entries it makes and the bytes it writes, as JSON with the string
  escapes of \<^verbatim>\<open>encoding/json\<close> or as a plain line.  Values of type \<^verbatim>\<open>interface{}\<close> are strings or something
  else, which \<^verbatim>\<open>json.Marshal\<close> renders by a parameter or fails to render.
\<close>

definition DEBUG :: int where "DEBUG = 0"
definition INFO :: int where "INFO = 1"
definition WARN :: int where "WARN = 2"
definition ERROR :: int where "ERROR = 3"
definition FATAL :: int where "FATAL = 4"

lemmas level_defs = DEBUG_def INFO_def WARN_def ERROR_def FATAL_def

definition LogLevel_String :: "int \<Rightarrow> string" where
  "LogLevel_String l =
     (if l = DEBUG then ''DEBUG'' else if l = INFO then ''INFO'' else if l = WARN then ''WARN''
      else if l = ERROR then ''ERROR'' else if l = FATAL then ''FATAL'' else ''UNKNOWN'')"

datatype 'a dyn = Str string | Val 'a

record 'a LogEntry =
  log_Timestamp :: string
  log_Level :: string
  log_Message :: string
  log_Component :: string
  log_Fields :: "string \<rightharpoonup> 'a dyn"
  log_StackTrace :: string

record Logger =
  lg_level :: int
  lg_formatter :: string
  lg_component :: string
  lg_jsonOutput :: bool

definition NewLogger :: "string \<Rightarrow> int \<Rightarrow> bool \<Rightarrow> Logger" where
  "NewLogger component level jsonOutput =
     \<lparr>lg_level = level, lg_formatter = ''json'', lg_component = component, lg_jsonOutput = jsonOutput\<rparr>"

definition defaultLogger :: Logger where
  "defaultLogger = \<lparr>lg_level = INFO, lg_formatter = ''json'', lg_component = '''', lg_jsonOutput = True\<rparr>"

text \<open>The package variable is the state of these functions.\<close>

definition GetLogger :: "Logger \<Rightarrow> Logger" where
  "GetLogger current = current"

definition SetLogger :: "Logger \<Rightarrow> Logger \<Rightarrow> Logger" where
  "SetLogger l current = l"

definition SetLogLevel :: "int \<Rightarrow> Logger \<Rightarrow> Logger" where
  "SetLogLevel level current = current\<lparr>lg_level := level\<rparr>"

text \<open>The loop over the pairs, with the index two ahead at each turn.\<close>

fun pairs_loop :: "'a dyn list \<Rightarrow> (string \<rightharpoonup> 'a dyn) \<Rightarrow> (string \<rightharpoonup> 'a dyn)" where
  "pairs_loop (k # v # ps) result =
     pairs_loop ps (case k of Str key \<Rightarrow> result(key \<mapsto> v) | Val _ \<Rightarrow> result)"
| "pairs_loop _ result = result"

definition pairsToMap :: "'a dyn list \<Rightarrow> (string \<rightharpoonup> 'a dyn)" where
  "pairsToMap pairs =
     (let pairs = (if length pairs mod 2 \<noteq> 0 then take (length pairs - 1) pairs else pairs)
      in pairs_loop pairs Map.empty)"

definition logger_log ::
    "('a LogEntry \<Rightarrow> bool) \<Rightarrow> string \<Rightarrow> int \<Rightarrow> string \<Rightarrow> (string \<rightharpoonup> 'a dyn) \<Rightarrow> Logger \<Rightarrow> 'a LogEntry list" where
  "logger_log renders now_text level message flds l =
     (if level < lg_level l then []
      else
        let entry = \<lparr>log_Timestamp = now_text, log_Level = LogLevel_String level, log_Message = message,
                     log_Component = lg_component l, log_Fields = flds, log_StackTrace = ''''\<rparr>
        in if lg_jsonOutput l then (if renders entry then [entry] else [])
           else [entry\<lparr>log_Fields := Map.empty\<rparr>])"

definition WithFields :: "(string \<rightharpoonup> 'a dyn) \<Rightarrow> Logger \<Rightarrow> Logger" where
  "WithFields flds l =
     \<lparr>lg_level = lg_level l, lg_formatter = lg_formatter l, lg_component = lg_component l, lg_jsonOutput = lg_jsonOutput l\<rparr>"

text \<open>\<^verbatim>\<open>Debug\<close>, \<^verbatim>\<open>Info\<close>, \<^verbatim>\<open>Warn\<close>, \<^verbatim>\<open>Error\<close> and \<^verbatim>\<open>Fatal\<close> differ in the level; \<^verbatim>\<open>Fatal\<close> then ends the process.\<close>

definition log_at ::
    "int \<Rightarrow> ('a LogEntry \<Rightarrow> bool) \<Rightarrow> string \<Rightarrow> string \<Rightarrow> 'a dyn list \<Rightarrow> Logger \<Rightarrow> 'a LogEntry list \<times> bool" where
  "log_at level renders now_text message flds l =
     (logger_log renders now_text level message (pairsToMap flds) l, level = FATAL)"

text \<open>The functions of the package log with the current default logger.\<close>

definition default_log_at ::
    "int \<Rightarrow> ('a LogEntry \<Rightarrow> bool) \<Rightarrow> string \<Rightarrow> string \<Rightarrow> 'a dyn list \<Rightarrow> Logger \<Rightarrow> 'a LogEntry list \<times> bool" where
  "default_log_at level renders now_text message flds current = log_at level renders now_text message flds (GetLogger current)"

subsection \<open>Rendering\<close>

text \<open>
  \<^verbatim>\<open>utf8.DecodeRuneInString\<close>: the number of bytes that follow the first one in a well-formed sequence, \<open>None\<close>
  if there is none.
\<close>

definition in_range :: "nat \<Rightarrow> nat \<Rightarrow> string \<Rightarrow> nat \<Rightarrow> bool" where
  "in_range lo hi cs i \<longleftrightarrow> i < length cs \<and> lo \<le> of_char (cs ! i) \<and> of_char (cs ! i) \<le> hi"

definition utf8_follow :: "nat \<Rightarrow> string \<Rightarrow> nat option" where
  "utf8_follow b cs =
     (let second = (if b = 0xE0 then in_range 0xA0 0xBF cs 0 else if b = 0xED then in_range 0x80 0x9F cs 0
                    else if b = 0xF0 then in_range 0x90 0xBF cs 0 else if b = 0xF4 then in_range 0x80 0x8F cs 0
                    else in_range 0x80 0xBF cs 0)
      in if 0xC2 \<le> b \<and> b \<le> 0xDF \<and> second then Some 1
         else if 0xE0 \<le> b \<and> b \<le> 0xEF \<and> second \<and> in_range 0x80 0xBF cs 1 then Some 2
         else if 0xF0 \<le> b \<and> b \<le> 0xF4 \<and> second \<and> in_range 0x80 0xBF cs 1 \<and> in_range 0x80 0xBF cs 2 then Some 3
         else None)"

definition hex_digit :: "nat \<Rightarrow> char" where
  "hex_digit n = ''0123456789abcdef'' ! n"

text \<open>One byte below 128, as \<^verbatim>\<open>json.Marshal\<close> writes it in a string.\<close>

definition json_ascii :: "nat \<Rightarrow> string" where
  "json_ascii b =
     (if b = 0x22 \<or> b = 0x5C then [CHR 0x5C, char_of b]
      else if b = 0x08 then [CHR 0x5C, CHR ''b'']
      else if b = 0x0C then [CHR 0x5C, CHR ''f'']
      else if b = 0x0A then [CHR 0x5C, CHR ''n'']
      else if b = 0x0D then [CHR 0x5C, CHR ''r'']
      else if b = 0x09 then [CHR 0x5C, CHR ''t'']
      else if b < 0x20 \<or> b = 0x3C \<or> b = 0x3E \<or> b = 0x26
      then [CHR 0x5C, CHR ''u'', CHR ''0'', CHR ''0'', hex_digit (b div 16), hex_digit (b mod 16)]
      else [char_of b])"

function json_body :: "string \<Rightarrow> string" where
  "json_body [] = []"
| "json_body (c # cs) =
     (if (of_char c :: nat) < 128 then json_ascii (of_char c) @ json_body cs
      else case utf8_follow (of_char c) cs of
        None \<Rightarrow> [CHR 0x5C, CHR ''u'', CHR ''f'', CHR ''f'', CHR ''f'', CHR ''d''] @ json_body cs
      | Some n \<Rightarrow>
          (if c = CHR 0xE2 \<and> cs ! 0 = CHR 0x80 \<and> cs ! 1 \<in> {CHR 0xA8, CHR 0xA9}
           then [CHR 0x5C, CHR ''u'', CHR ''2'', CHR ''0'', CHR ''2'', hex_digit (of_char (cs ! 1) mod 16)]
           else c # take n cs) @ json_body (drop n cs))"
  by pat_completeness auto
termination by (relation "measure length") auto

definition json_string :: "string \<Rightarrow> string" where
  "json_string s = [CHR 0x22] @ json_body s @ [CHR 0x22]"

text \<open>\<open>enc\<close> renders a value that is not a string, or fails.\<close>

fun json_dyn :: "('a \<Rightarrow> string option) \<Rightarrow> 'a dyn \<Rightarrow> string option" where
  "json_dyn enc (Str s) = Some (json_string s)"
| "json_dyn enc (Val x) = enc x"

text \<open>The members of an object; \<open>Marshal\<close> fails if one of the values cannot be rendered.\<close>

fun json_members :: "('a \<Rightarrow> string option) \<Rightarrow> (string \<rightharpoonup> 'a dyn) \<Rightarrow> string list \<Rightarrow> string list option" where
  "json_members enc m [] = Some []"
| "json_members enc m (k # ks) =
     (case m k of
        None \<Rightarrow> json_members enc m ks
      | Some v \<Rightarrow>
          (case json_dyn enc v of
             None \<Rightarrow> None
           | Some t \<Rightarrow>
               (case json_members enc m ks of None \<Rightarrow> None | Some ts \<Rightarrow> Some ((json_string k @ '':'' @ t) # ts))))"

fun comma_separated :: "string list \<Rightarrow> string" where
  "comma_separated [] = []"
| "comma_separated [t] = t"
| "comma_separated (t # ts) = t @ '','' @ comma_separated ts"

definition member :: "string \<Rightarrow> string \<Rightarrow> string" where
  "member key value = json_string key @ '':'' @ value"

text \<open>
  \<^verbatim>\<open>json.Marshal(entry)\<close>, the members in the order of the structure and empty ones omitted where the tags
  say so.  \<open>ord\<close> is the order in which the fields were iterated; they are written in the order of their keys.
\<close>

definition entry_members :: "'a LogEntry \<Rightarrow> string list \<Rightarrow> string list" where
  "entry_members e flds =
     [member ''timestamp'' (json_string (log_Timestamp e)), member ''level'' (json_string (log_Level e)),
      member ''message'' (json_string (log_Message e))] @
     (if log_Component e = [] then [] else [member ''component'' (json_string (log_Component e))]) @
     (if flds = [] then [] else [member ''fields'' (''{'' @ comma_separated flds @ ''}'')]) @
     (if log_StackTrace e = [] then [] else [member ''stack_trace'' (json_string (log_StackTrace e))])"

definition json_entry :: "('a \<Rightarrow> string option) \<Rightarrow> string list \<Rightarrow> 'a LogEntry \<Rightarrow> string option" where
  "json_entry enc ord e =
     (case json_members enc (log_Fields e) (sort ord) of
        None \<Rightarrow> None
      | Some flds \<Rightarrow> Some (''{'' @ comma_separated (entry_members e flds) @ ''}''))"

definition plain_entry :: "'a LogEntry \<Rightarrow> string" where
  "plain_entry e = ''['' @ log_Timestamp e @ ''] '' @ log_Level e @ '' '' @ log_Component e @ '': '' @ log_Message e @ [CHR 0x0A]"

text \<open>The bytes that one call of \<^verbatim>\<open>log\<close> writes.\<close>

definition log_output ::
    "('a \<Rightarrow> string option) \<Rightarrow> string list \<Rightarrow> string \<Rightarrow> int \<Rightarrow> string \<Rightarrow> (string \<rightharpoonup> 'a dyn) \<Rightarrow> Logger \<Rightarrow> string" where
  "log_output enc ord now_text level message flds l =
     concat (map (\<lambda>e. if lg_jsonOutput l then the (json_entry enc ord e) @ [CHR 0x0A] else plain_entry e)
       (logger_log (\<lambda>e. json_entry enc ord e \<noteq> None) now_text level message flds l))"

subsection \<open>Fields\<close>

text \<open>The pairs of a flat list, the odd element dropped, and those with a string key.\<close>

fun key_values :: "'a dyn list \<Rightarrow> (string \<times> 'a dyn) list" where
  "key_values (Str k # v # ps) = (k, v) # key_values ps"
| "key_values (Val _ # v # ps) = key_values ps"
| "key_values _ = []"

lemma pairs_loop_map_of: "pairs_loop ps m = m ++ map_of (rev (key_values ps))"
proof (induction ps arbitrary: m rule: key_values.induct)
  case (1 k v ps)
  then show ?case by (simp add: map_add_def fun_eq_iff split: option.split)
qed simp_all

lemma key_values_odd: "length ps mod 2 \<noteq> 0 \<Longrightarrow> key_values (take (length ps - 1) ps) = key_values ps"
proof (induction ps rule: key_values.induct)
  case (1 k v ps)
  then have "ps \<noteq> []" "length ps mod 2 \<noteq> 0" by auto
  then obtain n where "length ps = Suc n" by (cases ps) auto
  with 1 \<open>length ps mod 2 \<noteq> 0\<close> show ?case by simp
next
  case (2 x v ps)
  then have "ps \<noteq> []" "length ps mod 2 \<noteq> 0" by auto
  then obtain n where "length ps = Suc n" by (cases ps) auto
  with 2 \<open>length ps mod 2 \<noteq> 0\<close> show ?case by simp
qed simp_all

text \<open>\<^verbatim>\<open>pairsToMap\<close> turns a list of keys and values into a map: a key has the value that followed its
  last occurrence, a pair whose key is not a string and an odd element at the end are ignored.  A logger
  writes at most one entry per call, none below its level, with the name of the level and these fields.\<close>

theorem log_writes_fields:
  "pairsToMap ps = map_of (rev (key_values ps)) \<and>
   (\<forall>e \<in> set (fst (log_at level renders now_text msg ps l)). lg_level l \<le> level \<and>
      log_Level e = LogLevel_String level \<and> log_Message e = msg \<and> log_Component e = lg_component l \<and>
      log_Fields e = (if lg_jsonOutput l then map_of (rev (key_values ps)) else Map.empty)) \<and>
   length (fst (log_at level renders now_text msg ps l)) \<le> 1"
proof -
  have "pairsToMap ps = map_of (rev (key_values ps))"
    using key_values_odd [of ps] by (auto simp: pairsToMap_def pairs_loop_map_of Let_def)
  then show ?thesis by (auto simp: log_at_def logger_log_def Let_def)
qed

theorem log_writes_fields_witness:
  "pairsToMap [Str ''a'', Val (1 :: nat), Str ''a'', Val 2, Str ''odd''] ''a'' = Some (Val 2)"
  using log_writes_fields [of "[Str ''a'', Val (1 :: nat), Str ''a'', Val 2, Str ''odd'']"] by simp

subsection \<open>Lines of the log\<close>

lemma hex_digit_no_newline: "n < 16 \<Longrightarrow> hex_digit n \<noteq> CHR 0x0A"
  by (auto simp: hex_digit_def less_Suc_eq numeral_eq_Suc)

lemma json_ascii_no_newline: "b < 128 \<Longrightarrow> CHR 0x0A \<notin> set (json_ascii b)"
proof -
  assume b: "b < 128"
  have "(of_char (char_of b :: char) :: nat) = b" using b by simp
  then have "char_of b = CHR 0x0A \<Longrightarrow> b = 10" by auto
  moreover have "hex_digit (b div 16) \<noteq> CHR 0x0A" "hex_digit (b mod 16) \<noteq> CHR 0x0A"
    using b by (auto intro!: hex_digit_no_newline)
  ultimately show ?thesis by (auto simp: json_ascii_def)
qed

lemma utf8_follow_bytes:
  assumes "utf8_follow b cs = Some n" and "i < n"
  shows "i < length cs \<and> 128 \<le> (of_char (cs ! i) :: nat)"
proof -
  have r: "i < length cs \<and> 128 \<le> (of_char (cs ! i) :: nat)" if "in_range lo hi cs i" "128 \<le> lo" for lo hi i
    using that by (auto simp: in_range_def)
  have "in_range 0x80 0xBF cs 0 \<or> in_range 0xA0 0xBF cs 0 \<or> in_range 0x80 0x9F cs 0 \<or> in_range 0x90 0xBF cs 0 \<or> in_range 0x80 0x8F cs 0"
    using assms(1) by (auto simp: utf8_follow_def Let_def split: if_split_asm)
  then have 0: "0 < length cs \<and> 128 \<le> (of_char (cs ! 0) :: nat)" by (auto simp: in_range_def)
  have "n = 1 \<or> n = 2 \<and> in_range 0x80 0xBF cs 1 \<or> n = 3 \<and> in_range 0x80 0xBF cs 1 \<and> in_range 0x80 0xBF cs 2"
    using assms(1) unfolding utf8_follow_def Let_def by (simp split: if_split_asm)
  moreover have "i = 0 \<or> i = 1 \<and> 1 < n \<or> i = 2 \<and> 2 < n" using calculation assms(2) by auto
  ultimately show ?thesis using 0 r [of _ _ 1] r [of _ _ 2] by auto
qed

lemma utf8_follow_no_newline: "utf8_follow b cs = Some n \<Longrightarrow> CHR 0x0A \<notin> set (take n cs)"
  using utf8_follow_bytes [of b cs n] by (force simp: in_set_conv_nth)

lemma json_body_no_newline: "CHR 0x0A \<notin> set (json_body s)"
proof (induction s rule: json_body.induct)
  case (2 c cs)
  show ?case
  proof (cases "(of_char c :: nat) < 128")
    case True
    then show ?thesis using 2(1) json_ascii_no_newline by simp
  next
    case False
    then have "c \<noteq> CHR 0x0A" by auto
    then show ?thesis using False 2(2,3) hex_digit_no_newline [of "of_char (cs ! 1) mod 16"] utf8_follow_no_newline [of "of_char c" cs]
      by (cases "utf8_follow (of_char c) cs") auto
  qed
qed simp

lemma json_string_no_newline [simp]: "CHR 0x0A \<notin> set (json_string s)"
  using json_body_no_newline [of s] by (simp add: json_string_def)

definition one_line :: "('a \<Rightarrow> string option) \<Rightarrow> bool" where
  "one_line enc \<longleftrightarrow> (\<forall>x t. enc x = Some t \<longrightarrow> CHR 0x0A \<notin> set t)"

lemma json_members_no_newline:
  assumes "one_line enc" and "json_members enc m ks = Some ts" and "t \<in> set ts"
  shows "CHR 0x0A \<notin> set t"
  using assms(2,3)
proof (induction ks arbitrary: ts)
  case (Cons k ks)
  have v: "CHR 0x0A \<notin> set u" if "json_dyn enc v = Some u" for v u
    using that assms(1) by (cases v) (auto simp: one_line_def)
  show ?case using Cons v by (auto split: option.split_asm)
qed simp

lemma comma_separated_no_newline: "(\<forall>t \<in> set ts. CHR 0x0A \<notin> set t) \<Longrightarrow> CHR 0x0A \<notin> set (comma_separated ts)"
  by (induction ts rule: comma_separated.induct) auto

lemma json_entry_no_newline:
  assumes "one_line enc" and "json_entry enc ord e = Some t"
  shows "CHR 0x0A \<notin> set t"
proof -
  obtain flds where f: "json_members enc (log_Fields e) (sort ord) = Some flds"
    using assms(2) by (auto simp: json_entry_def split: option.split_asm)
  have "CHR 0x0A \<notin> set (comma_separated flds)"
    by (rule comma_separated_no_newline) (use json_members_no_newline [OF assms(1) f] in blast)
  moreover have "CHR 0x0A \<notin> set (comma_separated ts)" if "\<forall>t \<in> set ts. CHR 0x0A \<notin> set t" for ts
    using comma_separated_no_newline that by blast
  ultimately show ?thesis using assms(2) f
    by (auto simp: json_entry_def entry_members_def member_def simp del: comma_separated.simps)
qed

subsection \<open>Reading an entry back\<close>

text \<open>A reader of JSON strings, for the escapes that the logger writes for ASCII text.\<close>

definition hex_value :: "char \<Rightarrow> nat" where
  "hex_value c = (if c \<in> set ''0123456789'' then of_char c - 48 else of_char c - 87)"

fun unescape :: "string \<Rightarrow> (char \<times> nat) option" where
  "unescape [] = None"
| "unescape (d # ds) =
     (if d = CHR ''u'' then
        (if 4 \<le> length ds then Some (char_of (16 * hex_value (ds ! 2) + hex_value (ds ! 3)), 5) else None)
      else if d = CHR ''b'' then Some (CHR 0x08, 1)
      else if d = CHR ''f'' then Some (CHR 0x0C, 1)
      else if d = CHR ''n'' then Some (CHR 0x0A, 1)
      else if d = CHR ''r'' then Some (CHR 0x0D, 1)
      else if d = CHR ''t'' then Some (CHR 0x09, 1)
      else Some (d, 1))"

function read_string :: "string \<Rightarrow> (string \<times> string) option" where
  "read_string [] = None"
| "read_string (c # cs) =
     (if c = CHR 0x22 then Some ([], cs)
      else if c = CHR 0x5C then
        (case unescape cs of
           None \<Rightarrow> None
         | Some (d, n) \<Rightarrow> map_option (\<lambda>(s, rest). (d # s, rest)) (read_string (drop n cs)))
      else map_option (\<lambda>(s, rest). (c # s, rest)) (read_string cs))"
  by pat_completeness auto
termination by (relation "measure length") auto

definition ascii :: "string \<Rightarrow> bool" where
  "ascii s \<longleftrightarrow> list_all (\<lambda>c. (of_char c :: nat) < 128) s"

lemma hex_value_digit: "n < 16 \<Longrightarrow> hex_value (hex_digit n) = n"
  by (auto simp: hex_value_def hex_digit_def less_Suc_eq numeral_eq_Suc)

lemma char_of_special:
  "char_of (0x22 :: nat) = CHR 0x22" "char_of (0x5C :: nat) = CHR 0x5C" "char_of (0x08 :: nat) = CHR 0x08"
  "char_of (0x0C :: nat) = CHR 0x0C" "char_of (0x0A :: nat) = CHR 0x0A" "char_of (0x0D :: nat) = CHR 0x0D"
  "char_of (0x09 :: nat) = CHR 0x09"
  by code_simp+

lemma read_json_ascii:
  assumes "(of_char c :: nat) < 128"
  shows "read_string (json_ascii (of_char c) @ rest) = map_option (\<lambda>(s, rest). (c # s, rest)) (read_string rest)"
proof -
  let ?special = "{CHR 0x22, CHR 0x5C, CHR 0x08, CHR 0x0C, CHR 0x0A, CHR 0x0D, CHR 0x09}"
  show ?thesis
  proof (cases "c \<in> ?special")
    case True
    then show ?thesis by (elim insertE emptyE) (simp_all add: json_ascii_def char_of_special)
  next
    case False
    have inj: "(of_char c :: nat) = k \<Longrightarrow> c = char_of k" for k by auto
    have ne: "(of_char c :: nat) \<notin> {0x22, 0x5C, 0x08, 0x0C, 0x0A, 0x0D, 0x09}"
      using False by (auto dest!: inj simp: char_of_special)
    show ?thesis
    proof (cases "(of_char c :: nat) < 0x20 \<or> of_char c \<in> {0x3C, 0x3E, 0x26 :: nat}")
      case True
      then have j: "json_ascii (of_char c) =
          [CHR 0x5C, CHR ''u'', CHR ''0'', CHR ''0'', hex_digit (of_char c div 16), hex_digit (of_char c mod 16)]"
        using ne by (simp add: json_ascii_def)
      have "char_of (16 * hex_value (hex_digit (of_char c div 16)) + hex_value (hex_digit (of_char c mod 16))) = c"
        using assms by (simp add: hex_value_digit)
      then show ?thesis by (simp add: j)
    next
      case printable: False
      then have "json_ascii (of_char c) = [c]" using ne by (simp add: json_ascii_def)
      then show ?thesis using False by simp
    qed
  qed
qed

lemma read_json_body: "ascii s \<Longrightarrow> read_string (json_body s @ CHR 0x22 # rest) = Some (s, rest)"
  by (induction s) (auto simp: ascii_def read_json_ascii)

definition strip :: "string \<Rightarrow> string \<Rightarrow> string option" where
  "strip p s = (if take (length p) s = p then Some (drop (length p) s) else None)"

lemma strip_append [simp]: "strip p (p @ s) = Some s"
  by (simp add: strip_def)

definition read_member :: "string \<Rightarrow> string \<Rightarrow> (string \<times> string) option" where
  "read_member key s = Option.bind (strip (json_string key @ '':'' @ [CHR 0x22]) s) read_string"

lemma read_member: "ascii v \<Longrightarrow> read_member key (member key (json_string v) @ rest) = Some (v, rest)"
proof -
  assume v: "ascii v"
  have "member key (json_string v) @ rest = (json_string key @ '':'' @ [CHR 0x22]) @ json_body v @ CHR 0x22 # rest"
    by (simp add: member_def json_string_def)
  then show ?thesis using read_json_body [OF v] unfolding read_member_def by (simp only: strip_append bind.bind_lunit)
qed

text \<open>The time stamp, the level and the message of a line.\<close>

definition read_entry :: "string \<Rightarrow> (string \<times> string \<times> string) option" where
  "read_entry line =
     Option.bind (strip ''{'' line) (\<lambda>s.
     Option.bind (read_member ''timestamp'' s) (\<lambda>(ts, s).
     Option.bind (strip '','' s) (\<lambda>s.
     Option.bind (read_member ''level'' s) (\<lambda>(lv, s).
     Option.bind (strip '','' s) (\<lambda>s.
     Option.bind (read_member ''message'' s) (\<lambda>(msg, s). Some (ts, lv, msg)))))))"

lemma comma_separated_3: "\<exists>rest. comma_separated ([a, b, c] @ ts) = a @ '','' @ b @ '','' @ c @ rest"
  by (cases ts) auto

lemma read_json_entry:
  assumes "json_entry enc ord e = Some t" and "ascii (log_Timestamp e)" and "ascii (log_Level e)" and "ascii (log_Message e)"
  shows "read_entry t = Some (log_Timestamp e, log_Level e, log_Message e)"
proof -
  obtain ts where t: "t = ''{'' @ comma_separated
      ([member ''timestamp'' (json_string (log_Timestamp e)), member ''level'' (json_string (log_Level e)),
        member ''message'' (json_string (log_Message e))] @ ts) @ ''}''"
  proof (cases "json_members enc (log_Fields e) (sort ord)")
    case (Some flds)
    from assms(1) have "t = ''{'' @ comma_separated (entry_members e flds) @ ''}''"
      unfolding json_entry_def Some option.case by (simp only: option.inject)
    then show thesis unfolding entry_members_def by (rule that)
  qed (use assms(1) in \<open>simp add: json_entry_def\<close>)
  obtain rest where "comma_separated ([member ''timestamp'' (json_string (log_Timestamp e)), member ''level'' (json_string (log_Level e)),
        member ''message'' (json_string (log_Message e))] @ ts) = member ''timestamp'' (json_string (log_Timestamp e)) @ '','' @
      member ''level'' (json_string (log_Level e)) @ '','' @ member ''message'' (json_string (log_Message e)) @ rest"
    using comma_separated_3 by blast
  then have t: "t = ''{'' @ member ''timestamp'' (json_string (log_Timestamp e)) @ '','' @
      member ''level'' (json_string (log_Level e)) @ '','' @ member ''message'' (json_string (log_Message e)) @ rest @ ''}''"
    using t by simp
  show ?thesis
    unfolding read_entry_def t by (simp only: strip_append bind.bind_lunit read_member [OF assms(2)] read_member [OF assms(3)]
        read_member [OF assms(4)] prod.case)
qed

text \<open>C31: 
  A logger that writes JSON cannot be made to write a line of the caller's choosing: one call writes nothing (below
  the level, or when a field cannot be rendered) or exactly one line, whatever bytes the message, the component and
  the fields contain, and from an ASCII message a reader of the line gets back the time stamp, the name of the
  level and the message exactly.
\<close>

theorem json_log_line:
  assumes "lg_jsonOutput l" and "one_line enc"
  shows "log_output enc ord now_text level msg flds l = [] \<and> (level < lg_level l \<or> json_members enc flds (sort ord) = None) \<or>
    (\<exists>line. log_output enc ord now_text level msg flds l = line @ [CHR 0x0A] \<and> lg_level l \<le> level \<and> CHR 0x0A \<notin> set line \<and>
       (ascii now_text \<and> ascii msg \<longrightarrow> read_entry line = Some (now_text, LogLevel_String level, msg)))"
proof -
  let ?e = "\<lparr>log_Timestamp = now_text, log_Level = LogLevel_String level, log_Message = msg, log_Component = lg_component l,
    log_Fields = flds, log_StackTrace = ''''\<rparr>"
  consider "level < lg_level l" | "\<not> level < lg_level l" "json_entry enc ord ?e = None"
    | line where "\<not> level < lg_level l" "json_entry enc ord ?e = Some line"
    by fastforce
  then show ?thesis
  proof cases
    case 2
    then have "json_members enc flds (sort ord) = None" by (auto simp: json_entry_def split: option.split_asm)
    with 2 show ?thesis using assms(1) by (simp add: log_output_def logger_log_def Let_def)
  next
    case 3
    have "log_output enc ord now_text level msg flds l = line @ [CHR 0x0A]"
      using 3 assms(1) by (simp add: log_output_def logger_log_def Let_def)
    moreover have "read_entry line = Some (now_text, LogLevel_String level, msg)" if "ascii now_text" "ascii msg"
      using read_json_entry [OF 3(2)] that by (simp add: ascii_def LogLevel_String_def)
    ultimately show ?thesis using 3(1) json_entry_no_newline [OF assms(2) 3(2)] by auto
  qed (simp add: log_output_def logger_log_def)
qed

theorem json_log_line_witness:
  "\<exists>line. log_output (\<lambda>_ :: unit. None) [] ''now'' ERROR [CHR 0x0A, CHR 0x22] Map.empty defaultLogger = line @ [CHR 0x0A] \<and>
     CHR 0x0A \<notin> set line \<and> read_entry line = Some (''now'', ''ERROR'', [CHR 0x0A, CHR 0x22])"
proof -
  have "lg_jsonOutput defaultLogger" "one_line (\<lambda>_ :: unit. None)" by (simp_all add: defaultLogger_def one_line_def)
  from json_log_line [OF this, of "[]" "''now''" ERROR "[CHR 0x0A, CHR 0x22]" Map.empty] show ?thesis
    by (simp add: defaultLogger_def level_defs ascii_def LogLevel_String_def)
qed

text \<open>
  A logger that writes plain lines can be made to do so: one message forges the output of a second call, with any
  time, level and message.
\<close>

theorem plain_log_forged:
  assumes "\<not> lg_jsonOutput l" and "lg_level l \<le> level" and "lg_level l \<le> level'"
  shows "log_output enc ord now_text level
      (msg @ [CHR 0x0A] @ ''['' @ now_text' @ ''] '' @ LogLevel_String level' @ '' '' @ lg_component l @ '': '' @ msg') flds l =
    log_output enc ord now_text level msg flds l @ log_output enc ord now_text' level' msg' flds' l"
  using assms by (simp add: log_output_def logger_log_def plain_entry_def Let_def)

theorem plain_log_forged_witness:
  "\<exists>msg. log_output (\<lambda>_ :: unit. None) [] ''t'' INFO msg Map.empty (NewLogger ''c'' INFO False) =
     log_output (\<lambda>_ :: unit. None) [] ''t'' INFO ''hello'' Map.empty (NewLogger ''c'' INFO False) @
     log_output (\<lambda>_ :: unit. None) [] ''u'' FATAL ''forged'' Map.empty (NewLogger ''c'' INFO False)"
proof -
  have "\<not> lg_jsonOutput (NewLogger ''c'' INFO False)" "lg_level (NewLogger ''c'' INFO False) \<le> INFO"
      "lg_level (NewLogger ''c'' INFO False) \<le> FATAL"
    by (simp_all add: NewLogger_def level_defs)
  note f = plain_log_forged [OF this, of "\<lambda>_ :: unit. None" "[]" "''t''" "''hello''" "''u''" "''forged''" Map.empty Map.empty]
  show ?thesis by (rule exI, rule f)
qed

end
