(* ===== verification/WB_Security.thy ===== *)
theory WB_Security
  imports WB_Encoding
begin

text \<open>
  \<^verbatim>\<open>server/security.go\<close>: the security manager of the stand-alone server, with random tokens that
  live for a day and a rate limiter with fixed windows.  (Its types \<^verbatim>\<open>RateLimiter\<close> and
  \<^verbatim>\<open>RequestCounter\<close> are those of the package \<^verbatim>\<open>main\<close>, not of \<^verbatim>\<open>webbou\<close>.)
\<close>

record sec_Token =
  tok_Value :: string
  tok_ExpiresAt :: time
  tok_SessionID :: string

record RequestCounter =
  req_Count :: int
  ResetAt :: time

record WindowLimiter =
  requests :: "string \<rightharpoonup> RequestCounter"
  maxRequests :: int
  window :: duration

record SecurityManager =
  sec_tokens :: "string \<rightharpoonup> sec_Token"
  sec_rateLimiter :: WindowLimiter

definition NewSecurityManager :: SecurityManager where
  "NewSecurityManager =
     \<lparr>sec_tokens = Map.empty, sec_rateLimiter = \<lparr>requests = Map.empty, maxRequests = 1000, window = Minute\<rparr>\<rparr>"

definition sec_GenerateToken :: "error + bytes \<Rightarrow> time \<Rightarrow> string \<Rightarrow> SecurityManager \<Rightarrow> (error + string) \<times> SecurityManager" where
  "sec_GenerateToken r now sessionID sm =
     (case r of
        Inl err \<Rightarrow> (Inl err, sm)
      | Inr tokenBytes \<Rightarrow>
          (let tokenStr = EncodeToString (Sum256 tokenBytes);
               token = \<lparr>tok_Value = tokenStr, tok_ExpiresAt = time_Add now (24 * Hour), tok_SessionID = sessionID\<rparr>
           in (Inr tokenStr, sm\<lparr>sec_tokens := (sec_tokens sm)(tokenStr \<mapsto> token)\<rparr>)))"

definition sec_ValidateToken :: "time \<Rightarrow> string \<Rightarrow> SecurityManager \<Rightarrow> bool" where
  "sec_ValidateToken now tokenStr sm =
     (case sec_tokens sm tokenStr of None \<Rightarrow> False | Some token \<Rightarrow> time_Before now (tok_ExpiresAt token))"

definition window_Allow :: "time \<Rightarrow> string \<Rightarrow> WindowLimiter \<Rightarrow> bool \<times> WindowLimiter" where
  "window_Allow now clientID rl =
     (case requests rl clientID of
        None \<Rightarrow> (True, rl\<lparr>requests := (requests rl)(clientID \<mapsto> \<lparr>req_Count = 1, ResetAt = time_Add now (window rl)\<rparr>)\<rparr>)
      | Some counter \<Rightarrow>
          if time_After now (ResetAt counter)
          then (True, rl\<lparr>requests := (requests rl)(clientID \<mapsto> \<lparr>req_Count = 1, ResetAt = time_Add now (window rl)\<rparr>)\<rparr>)
          else if req_Count counter \<ge> maxRequests rl then (False, rl)
          else (True, rl\<lparr>requests := (requests rl)(clientID \<mapsto> counter\<lparr>req_Count := i64 (req_Count counter + 1)\<rparr>)\<rparr>))"

definition CheckRateLimit :: "time \<Rightarrow> string \<Rightarrow> SecurityManager \<Rightarrow> bool \<times> SecurityManager" where
  "CheckRateLimit now clientID sm =
     (case window_Allow now clientID (sec_rateLimiter sm) of (b, rl) \<Rightarrow> (b, sm\<lparr>sec_rateLimiter := rl\<rparr>))"

definition cleanupExpiredTokens :: "time \<Rightarrow> string list \<Rightarrow> SecurityManager \<Rightarrow> SecurityManager" where
  "cleanupExpiredTokens now ord sm =
     sm\<lparr>sec_tokens := map_purge (\<lambda>token. time_After now (tok_ExpiresAt token)) ord (sec_tokens sm)\<rparr>"

subsection \<open>Tokens\<close>

text \<open>A generated token is valid for exactly 24 hours, whatever clean-ups run meanwhile: at every later
  moment \<^verbatim>\<open>ValidateToken\<close> accepts it iff the day is not over, and a token that was never stored is refused.\<close>

theorem token_valid_one_day:
  assumes "sec_GenerateToken (Inr bs) now sid sm = (Inr tok, sm')"
    and "iteration_order (sec_tokens sm') ord" and "c \<le> t"
  shows "(sec_ValidateToken t tok (cleanupExpiredTokens c ord sm') \<longleftrightarrow> t < now + 24 * Hour) \<and>
    (sec_tokens sm' other = None \<longrightarrow> \<not> sec_ValidateToken t other (cleanupExpiredTokens c ord sm'))"
proof -
  have tok: "sec_tokens sm' tok = Some \<lparr>tok_Value = tok, tok_ExpiresAt = now + 24 * Hour, tok_SessionID = sid\<rparr>"
    using assms(1) by (auto simp: sec_GenerateToken_def time_Add_def Let_def)
  show ?thesis
    using tok assms(3) map_purge_eq_keep [OF assms(2)]
    by (auto simp: sec_ValidateToken_def cleanupExpiredTokens_def map_keep_def time_Before_def time_After_def)
qed

theorem token_valid_one_day_witness:
  "\<exists>tok sm'. sec_GenerateToken (Inr [1]) 100 ''s'' NewSecurityManager = (Inr tok, sm') \<and>
     sec_ValidateToken 200 tok (cleanupExpiredTokens 150 [tok] sm')"
proof -
  let ?r = "sec_GenerateToken (Inr [1]) 100 ''s'' NewSecurityManager"
  define tok where "tok = EncodeToString (Sum256 [1])"
  have g: "?r = (Inr tok, snd ?r)" by (simp add: sec_GenerateToken_def tok_def Let_def)
  have "iteration_order (sec_tokens (snd ?r)) [tok]"
    by (simp add: iteration_order_def sec_GenerateToken_def NewSecurityManager_def tok_def Let_def)
  from token_valid_one_day [OF g this, of 150 200 "[]"]
  have "sec_ValidateToken 200 tok (cleanupExpiredTokens 150 [tok] (snd ?r))" by (simp add: time_defs)
  with g show ?thesis by blast
qed

subsection \<open>The window limiter\<close>

fun window_grants :: "time list \<Rightarrow> string \<Rightarrow> WindowLimiter \<Rightarrow> nat" where
  "window_grants [] c rl = 0"
| "window_grants (t # ts) c rl =
     (case window_Allow t c rl of (b, rl') \<Rightarrow> (if b then 1 else 0) + window_grants ts c rl')"

lemma window_grants_within:
  assumes "requests rl c = Some \<lparr>req_Count = int n, ResetAt = r\<rparr>" and "\<forall>t \<in> set ts. t \<le> r"
    and "in_i64 (maxRequests rl)"
  shows "window_grants ts c rl = min (length ts) (nat (maxRequests rl) - n)"
  using assms
proof (induction ts arbitrary: rl n)
  case (Cons t ts)
  show ?case
  proof (cases "int n < maxRequests rl")
    case True
    then have i: "i64 (int n + 1) = int (Suc n)" using Cons.prems(3) by (simp add: in_i64_def)
    let ?rl = "rl\<lparr>requests := (requests rl)(c \<mapsto> \<lparr>req_Count = int (Suc n), ResetAt = r\<rparr>)\<rparr>"
    have w: "window_Allow t c rl = (True, ?rl)"
      using Cons.prems True i by (simp add: window_Allow_def time_After_def)
    have "window_grants ts c ?rl = min (length ts) (nat (maxRequests rl) - Suc n)"
      using Cons.prems Cons.IH [of ?rl "Suc n"] by simp
    then show ?thesis using w True by simp
  next
    case False
    then have "window_Allow t c rl = (False, rl)" using Cons.prems by (simp add: window_Allow_def time_After_def)
    then show ?thesis using False Cons.prems Cons.IH [of rl n] by simp
  qed
qed simp

text \<open>A client gets at most the limit in a window, and exactly the smaller of the limit and its requests:
  after a first request that opens the window at \<open>t0\<close>, all further requests up to \<open>t0\<close> plus the window,
  in any number and order, are granted until the limit is used up.\<close>

theorem window_limit_exact:
  assumes "requests rl c = None" and "\<forall>t \<in> set ts. t \<le> t0 + window rl"
    and "in_i64 (maxRequests rl)" and "1 \<le> maxRequests rl"
  shows "window_grants (t0 # ts) c rl = min (length (t0 # ts)) (nat (maxRequests rl))"
proof -
  let ?rl = "rl\<lparr>requests := (requests rl)(c \<mapsto> \<lparr>req_Count = int 1, ResetAt = t0 + window rl\<rparr>)\<rparr>"
  have "window_Allow t0 c rl = (True, ?rl)" using assms(1) by (simp add: window_Allow_def time_Add_def)
  moreover have "window_grants ts c ?rl = min (length ts) (nat (maxRequests rl) - 1)"
    using assms window_grants_within [of ?rl c 1 "t0 + window rl" ts] by simp
  ultimately show ?thesis using assms(4) by simp
qed

theorem window_limit_exact_witness:
  "window_grants (0 # replicate 1500 5) ''c'' (sec_rateLimiter NewSecurityManager) = 1000"
  using window_limit_exact [of "sec_rateLimiter NewSecurityManager" "''c''" "replicate 1500 5" 0]
  by (simp add: NewSecurityManager_def in_i64_def time_defs)

end
