(* ===== verification/WB_Hybrid.thy ===== *)
theory WB_Hybrid
  imports WB_Interfaces WB_Format "HOL-Library.Multiset"
begin

text \<open>
  \<^verbatim>\<open>experimental/main.go\<close>: the echo server over WebTransport and WebSocket.  The two transports are
  third-party packages.  First one WebSocket connection by itself, as the list of what \<^verbatim>\<open>Read\<close> returns before it
  fails, each item with the outcome of writing it back (data that comes together with an error is dropped); then
  all goroutines of the server, interleaved in every order over the shared counters.
\<close>

record HybridMetrics =
  ActiveSessions :: int
  TotalMessages :: u64
  WebTransportCount :: int
  WebSocketCount :: int

definition hybrid_zero :: HybridMetrics where
  "hybrid_zero = \<lparr>ActiveSessions = 0, TotalMessages = 0, WebTransportCount = 0, WebSocketCount = 0\<rparr>"

text \<open>The read, count and echo loop that streams and WebSocket connections share.\<close>

fun processStream :: "('m \<times> bool) list \<Rightarrow> HybridMetrics \<Rightarrow> 'm list \<times> HybridMetrics" where
  "processStream [] m = ([], m)"
| "processStream ((msg, written) # reads) m =
     (let m = m\<lparr>TotalMessages := TotalMessages m + 1\<rparr>
      in if \<not> written then ([msg], m)
         else (case processStream reads m of (out, m') \<Rightarrow> (msg # out, m')))"

text \<open>\<open>upgraded\<close>: whether the upgrade succeeded.\<close>

definition HandleWebSocket :: "bool \<Rightarrow> ('m \<times> bool) list \<Rightarrow> HybridMetrics \<Rightarrow> 'm list \<times> HybridMetrics" where
  "HandleWebSocket upgraded reads m =
     (if \<not> upgraded then ([], m)
      else
        let m = m\<lparr>ActiveSessions := i64 (ActiveSessions m + 1), WebSocketCount := i64 (WebSocketCount m + 1)\<rparr>;
            (out, m) = processStream reads m
        in (out, m\<lparr>ActiveSessions := i64 (ActiveSessions m - 1)\<rparr>))"

text \<open>The messages that are read: all up to and including the first whose echo fails.\<close>

fun echoed :: "('m \<times> bool) list \<Rightarrow> ('m \<times> bool) list" where
  "echoed [] = []"
| "echoed (r # reads) = (if snd r then r # echoed reads else [r])"

lemma processStream_eq:
  "processStream reads m = (map fst (echoed reads), m\<lparr>TotalMessages := TotalMessages m + of_nat (length (echoed reads))\<rparr>)"
  by (induction reads m rule: processStream.induct) (simp_all add: add.assoc)

text \<open>A WebSocket connection is echoed message by message, in order and unchanged, up to the first
  write that fails; every message read is counted, and afterwards the number of active sessions is what
  it was, whatever happened on the connection.\<close>

theorem websocket_echo:
  assumes "in_i64 (ActiveSessions m)" and "in_i64 (ActiveSessions m + 1)"
  shows "HandleWebSocket upgraded reads m =
    (if upgraded then
       (map fst (echoed reads),
        m\<lparr>TotalMessages := TotalMessages m + of_nat (length (echoed reads)), WebSocketCount := i64 (WebSocketCount m + 1)\<rparr>)
     else ([], m))"
  using assms by (cases m) (simp add: HandleWebSocket_def processStream_eq Let_def)

theorem websocket_echo_witness:
  "HandleWebSocket True [(''a'', True), (''b'', False), (''c'', True)] hybrid_zero =
    ([''a'', ''b''], hybrid_zero\<lparr>TotalMessages := 2, WebSocketCount := 1\<rparr>)"
proof -
  have "echoed [(''a'', True), (''b'', False), (''c'', True)] = [(''a'', True), (''b'', False)]" by simp
  moreover have "i64 1 = 1" by (simp add: i64_def)
  ultimately show ?thesis
    using websocket_echo [of hybrid_zero True "[(''a'', True), (''b'', False), (''c'', True)]"]
    by (simp add: hybrid_zero_def in_i64_def)
qed

subsection \<open>Construction, routing and the metrics page\<close>

record hybrid_Session =
  hs_ID :: string
  hs_Protocol :: string
  hs_CreatedAt :: time
  hs_BytesSent :: u64
  hs_BytesRecv :: u64

text \<open>\<^verbatim>\<open>sessions\<close> is never written.  The WebTransport server is its TLS configuration and the two QUIC time-outs;
  \<^verbatim>\<open>CheckOrigin\<close> is a function of the origin of a request.\<close>

record HybridServer =
  wtServer :: "tls_Config \<times> duration \<times> duration"
  wsUpgrader :: "string \<Rightarrow> bool"
  hy_sessions :: "string \<rightharpoonup> hybrid_Session"
  hy_metrics :: HybridMetrics

definition NewHybridServer :: "error + bytes \<Rightarrow> error + HybridServer" where
  "NewHybridServer pair =
     (case pair of
        Inl err \<Rightarrow> Inl err
      | Inr cert \<Rightarrow>
          Inr \<lparr>wtServer = (\<lparr>Certificates = [cert], ClientAuth = NoClientCert, MinVersion = VersionTLS13, CipherSuites = []\<rparr>,
                            30 * Second, 10 * Second),
               wsUpgrader = (\<lambda>origin. True), hy_sessions = Map.empty, hy_metrics = hybrid_zero\<rparr>)"

definition metrics_line :: "string \<Rightarrow> int \<Rightarrow> string" where
  "metrics_line key n = [CHR 0x0A, CHR 0x09, CHR 0x09, CHR 0x22] @ key @ [CHR 0x22] @ '': '' @ fmt_d n"

definition HandleMetrics :: "HybridMetrics \<Rightarrow> (string \<times> string) \<times> string" where
  "HandleMetrics m =
     ((''Content-Type'', ''application/json''),
      ''{'' @ metrics_line ''active_sessions'' (ActiveSessions m) @ '','' @
      metrics_line ''total_messages'' (uint (TotalMessages m)) @ '','' @
      metrics_line ''webtransport_sessions'' (WebTransportCount m) @ '','' @
      metrics_line ''websocket_sessions'' (WebSocketCount m) @ [CHR 0x0A, CHR 0x09] @ ''}'')"

text \<open>The routes of \<^verbatim>\<open>main\<close>: patterns without a final slash match one path.\<close>

datatype route = WebTransport | WebSocket | MetricsPage | NotFound

definition hybrid_mux :: "string \<Rightarrow> route" where
  "hybrid_mux path =
     (if path = ''/wt'' then WebTransport else if path = ''/ws'' then WebSocket
      else if path = ''/metrics'' then MetricsPage else NotFound)"

text \<open>\<^verbatim>\<open>main\<close>: the process ends with status one, when the certificates cannot be loaded or when the HTTPS server returns.\<close>

definition hybrid_main :: "error + bytes \<Rightarrow> nat + HybridServer" where
  "hybrid_main pair = (case NewHybridServer pair of Inl err \<Rightarrow> Inl 1 | Inr server \<Rightarrow> Inr server)"

subsection \<open>The goroutines\<close>

text \<open>
  One read, count and echo loop, that of a stream and that of a WebSocket connection: its program point, the
  messages that \<^verbatim>\<open>Read\<close> has returned without an error, the data that it has returned together with the error
  that ends the loop, the messages that have been written back, and whether the deferred \<^verbatim>\<open>Close\<close> has run.
\<close>

datatype 'm echo = E_read | E_got 'm | E_write 'm | E_stop

record 'm channel =
  ch_at :: "'m echo"
  ch_read :: "'m list"
  ch_lost :: "'m option"
  ch_out :: "'m list"
  ch_closed :: bool

definition new_channel :: "'m channel" where
  "new_channel = \<lparr>ch_at = E_read, ch_read = [], ch_lost = None, ch_out = [], ch_closed = False\<rparr>"

inductive echo_go :: "HybridMetrics \<times> 'm channel \<Rightarrow> HybridMetrics \<times> 'm channel \<Rightarrow> bool" where
  echo_read: "ch_at c = E_read \<Longrightarrow> echo_go (m, c) (m, c\<lparr>ch_at := E_got msg, ch_read := ch_read c @ [msg]\<rparr>)"
| echo_read_error: "ch_at c = E_read \<Longrightarrow> echo_go (m, c) (m, c\<lparr>ch_at := E_stop, ch_lost := data\<rparr>)"
| echo_count: "ch_at c = E_got msg \<Longrightarrow>
    echo_go (m, c) (m\<lparr>TotalMessages := TotalMessages m + 1\<rparr>, c\<lparr>ch_at := E_write msg\<rparr>)"
| echo_written: "ch_at c = E_write msg \<Longrightarrow> echo_go (m, c) (m, c\<lparr>ch_at := E_read, ch_out := ch_out c @ [msg]\<rparr>)"
| echo_write_error: "ch_at c = E_write msg \<Longrightarrow> echo_go (m, c) (m, c\<lparr>ch_at := E_stop\<rparr>)"

text \<open>
  A WebSocket request: the upgrade, the two counters under the mutex, the loop, the counter of active
  sessions under the mutex, the deferred \<^verbatim>\<open>Close\<close>.
\<close>

datatype 'm ws = WS_start | WS_refused | WS_upgraded | WS_open "'m channel" | WS_left "'m channel" | WS_gone "'m channel"

inductive ws_go :: "HybridMetrics \<times> 'm ws \<Rightarrow> HybridMetrics \<times> 'm ws \<Rightarrow> bool" where
  ws_refuse: "ws_go (m, WS_start) (m, WS_refused)"
| ws_upgrade: "ws_go (m, WS_start) (m, WS_upgraded)"
| ws_enter: "ws_go (m, WS_upgraded)
    (m\<lparr>ActiveSessions := i64 (ActiveSessions m + 1), WebSocketCount := i64 (WebSocketCount m + 1)\<rparr>, WS_open new_channel)"
| ws_echo: "echo_go (m, c) (m', c') \<Longrightarrow> ws_go (m, WS_open c) (m', WS_open c')"
| ws_leave: "ch_at c = E_stop \<Longrightarrow> ws_go (m, WS_open c) (m\<lparr>ActiveSessions := i64 (ActiveSessions m - 1)\<rparr>, WS_left c)"
| ws_close: "ws_go (m, WS_left c) (m, WS_gone (c\<lparr>ch_closed := True\<rparr>))"

text \<open>
  A WebTransport session: its handler with the program points between the upgrade, the counters, the two
  \<^verbatim>\<open>go\<close> statements, the end of the session's context, the counter again and the deferred \<^verbatim>\<open>Close\<close>; the goroutines
  that accept streams and receive datagrams, one goroutine per stream, and one per datagram that is still to
  be sent back.  They go on when the handler has returned.
\<close>

datatype wt_phase = WT_start | WT_refused | WT_upgraded | WT_counted | WT_streams | WT_open | WT_ended | WT_left | WT_gone

record 'm wt =
  wt_phase :: wt_phase
  wt_acceptor :: bool
  wt_receiver :: bool
  wt_streams :: "'m channel list"
  wt_received :: "'m list"
  wt_pending :: "'m list"
  wt_sent :: "'m list"

definition new_wt :: "'m wt" where
  "new_wt = \<lparr>wt_phase = WT_start, wt_acceptor = False, wt_receiver = False, wt_streams = [], wt_received = [], wt_pending = [], wt_sent = []\<rparr>"

inductive wt_go :: "HybridMetrics \<times> 'm wt \<Rightarrow> HybridMetrics \<times> 'm wt \<Rightarrow> bool" where
  wt_refuse: "wt_phase s = WT_start \<Longrightarrow> wt_go (m, s) (m, s\<lparr>wt_phase := WT_refused\<rparr>)"
| wt_upgrade: "wt_phase s = WT_start \<Longrightarrow> wt_go (m, s) (m, s\<lparr>wt_phase := WT_upgraded\<rparr>)"
| wt_enter: "wt_phase s = WT_upgraded \<Longrightarrow> wt_go (m, s)
    (m\<lparr>ActiveSessions := i64 (ActiveSessions m + 1), WebTransportCount := i64 (WebTransportCount m + 1)\<rparr>,
     s\<lparr>wt_phase := WT_counted\<rparr>)"
| wt_go_streams: "wt_phase s = WT_counted \<Longrightarrow> wt_go (m, s) (m, s\<lparr>wt_phase := WT_streams, wt_acceptor := True\<rparr>)"
| wt_go_datagrams: "wt_phase s = WT_streams \<Longrightarrow> wt_go (m, s) (m, s\<lparr>wt_phase := WT_open, wt_receiver := True\<rparr>)"
| wt_done: "wt_phase s = WT_open \<Longrightarrow> wt_go (m, s) (m, s\<lparr>wt_phase := WT_ended\<rparr>)"
| wt_leave: "wt_phase s = WT_ended \<Longrightarrow>
    wt_go (m, s) (m\<lparr>ActiveSessions := i64 (ActiveSessions m - 1)\<rparr>, s\<lparr>wt_phase := WT_left\<rparr>)"
| wt_close: "wt_phase s = WT_left \<Longrightarrow> wt_go (m, s) (m, s\<lparr>wt_phase := WT_gone\<rparr>)"
| wt_accept: "wt_acceptor s \<Longrightarrow> wt_go (m, s) (m, s\<lparr>wt_streams := wt_streams s @ [new_channel]\<rparr>)"
| wt_accept_error: "wt_acceptor s \<Longrightarrow> wt_go (m, s) (m, s\<lparr>wt_acceptor := False\<rparr>)"
| wt_stream: "i < length (wt_streams s) \<Longrightarrow> echo_go (m, wt_streams s ! i) (m', c) \<Longrightarrow>
    wt_go (m, s) (m', s\<lparr>wt_streams := (wt_streams s)[i := c]\<rparr>)"
| wt_stream_close: "i < length (wt_streams s) \<Longrightarrow> wt_streams s ! i = c \<Longrightarrow> ch_at c = E_stop \<Longrightarrow>
    wt_go (m, s) (m, s\<lparr>wt_streams := (wt_streams s)[i := c\<lparr>ch_closed := True\<rparr>]\<rparr>)"
| wt_receive: "wt_receiver s \<Longrightarrow>
    wt_go (m, s) (m, s\<lparr>wt_received := wt_received s @ [msg], wt_pending := wt_pending s @ [msg]\<rparr>)"
| wt_receive_error: "wt_receiver s \<Longrightarrow> wt_go (m, s) (m, s\<lparr>wt_receiver := False\<rparr>)"
| wt_send: "msg \<in> set (wt_pending s) \<Longrightarrow>
    wt_go (m, s) (m, s\<lparr>wt_pending := remove1 msg (wt_pending s), wt_sent := wt_sent s @ [msg]\<rparr>)"

text \<open>The server: requests arrive on the two routes, and their goroutines take steps.\<close>

record 'm hybrid =
  hy_counts :: HybridMetrics
  hy_ws :: "'m ws list"
  hy_wt :: "'m wt list"

definition hybrid_start :: "HybridServer \<Rightarrow> 'm hybrid" where
  "hybrid_start server = \<lparr>hy_counts = hy_metrics server, hy_ws = [], hy_wt = []\<rparr>"

datatype hybrid_event = H_request route | H_ws nat | H_wt nat

inductive hybrid_step :: "'m hybrid \<Rightarrow> hybrid_event \<Rightarrow> 'm hybrid \<Rightarrow> bool" where
  h_new_ws: "hybrid_mux path = WebSocket \<Longrightarrow> hybrid_step h (H_request WebSocket) (h\<lparr>hy_ws := hy_ws h @ [WS_start]\<rparr>)"
| h_new_wt: "hybrid_mux path = WebTransport \<Longrightarrow> hybrid_step h (H_request WebTransport) (h\<lparr>hy_wt := hy_wt h @ [new_wt]\<rparr>)"
| h_ws: "i < length (hy_ws h) \<Longrightarrow> ws_go (hy_counts h, hy_ws h ! i) (m, x) \<Longrightarrow>
    hybrid_step h (H_ws i) (h\<lparr>hy_counts := m, hy_ws := (hy_ws h)[i := x]\<rparr>)"
| h_wt: "i < length (hy_wt h) \<Longrightarrow> wt_go (hy_counts h, hy_wt h ! i) (m, x) \<Longrightarrow>
    hybrid_step h (H_wt i) (h\<lparr>hy_counts := m, hy_wt := (hy_wt h)[i := x]\<rparr>)"

subsection \<open>The counters are exact\<close>

text \<open>What a request contributes to each counter.\<close>

fun ws_open :: "'m ws \<Rightarrow> nat" where
  "ws_open (WS_open _) = 1"
| "ws_open _ = 0"

fun ws_counted :: "'m ws \<Rightarrow> nat" where
  "ws_counted (WS_open _) = 1"
| "ws_counted (WS_left _) = 1"
| "ws_counted (WS_gone _) = 1"
| "ws_counted _ = 0"

fun ws_channels :: "'m ws \<Rightarrow> 'm channel list" where
  "ws_channels (WS_open c) = [c]"
| "ws_channels (WS_left c) = [c]"
| "ws_channels (WS_gone c) = [c]"
| "ws_channels _ = []"

text \<open>A message that has been read and not yet counted, and the number of those that have been counted.\<close>

definition uncounted :: "'m channel \<Rightarrow> nat" where
  "uncounted c = (case ch_at c of E_got _ \<Rightarrow> 1 | _ \<Rightarrow> 0)"

definition counted :: "'m channel \<Rightarrow> nat" where
  "counted c = length (ch_read c) - uncounted c"

definition messages :: "'m channel list \<Rightarrow> nat" where
  "messages cs = sum_list (map counted cs)"

fun phase_open :: "wt_phase \<Rightarrow> nat" where
  "phase_open WT_counted = 1"
| "phase_open WT_streams = 1"
| "phase_open WT_open = 1"
| "phase_open WT_ended = 1"
| "phase_open _ = 0"

fun phase_counted :: "wt_phase \<Rightarrow> nat" where
  "phase_counted WT_start = 0"
| "phase_counted WT_refused = 0"
| "phase_counted WT_upgraded = 0"
| "phase_counted _ = 1"

definition wt_opened :: "'m wt \<Rightarrow> nat" where
  "wt_opened s = phase_open (wt_phase s)"

definition wt_counted :: "'m wt \<Rightarrow> nat" where
  "wt_counted s = phase_counted (wt_phase s)"

definition open_sessions :: "'m hybrid \<Rightarrow> nat" where
  "open_sessions h = sum_list (map ws_open (hy_ws h)) + sum_list (map wt_opened (hy_wt h))"

definition all_messages :: "'m hybrid \<Rightarrow> nat" where
  "all_messages h = sum_list (map (messages \<circ> ws_channels) (hy_ws h)) + sum_list (map (messages \<circ> wt_streams) (hy_wt h))"

text \<open>All loops of the server.\<close>

definition all_channels :: "'m hybrid \<Rightarrow> 'm channel list" where
  "all_channels h = concat (map ws_channels (hy_ws h)) @ concat (map wt_streams (hy_wt h))"

text \<open>
  A loop has written back what it has read, up to the message it is working on; data that came with an error
  is the last thing it has seen.
\<close>

fun chan_ok :: "'m channel \<Rightarrow> bool" where
  "chan_ok c \<longleftrightarrow>
     (case ch_at c of
        E_read \<Rightarrow> ch_read c = ch_out c
      | E_got msg \<Rightarrow> ch_read c = ch_out c @ [msg]
      | E_write msg \<Rightarrow> ch_read c = ch_out c @ [msg]
      | E_stop \<Rightarrow> ch_read c = ch_out c \<or> (\<exists>msg. ch_read c = ch_out c @ [msg])) \<and>
     (ch_lost c \<noteq> None \<longrightarrow> ch_at c = E_stop \<and> ch_read c = ch_out c)"

declare chan_ok.simps [simp del]

definition wt_ok :: "'m wt \<Rightarrow> bool" where
  "wt_ok s \<longleftrightarrow> list_all chan_ok (wt_streams s) \<and> mset (wt_received s) = mset (wt_sent s) + mset (wt_pending s)"

definition counts_ok :: "HybridMetrics \<Rightarrow> nat \<Rightarrow> nat \<Rightarrow> nat \<Rightarrow> nat \<Rightarrow> bool" where
  "counts_ok m active msgs wt ws \<longleftrightarrow> ActiveSessions m = i64 (int active) \<and> TotalMessages m = of_nat msgs \<and>
     WebTransportCount m = i64 (int wt) \<and> WebSocketCount m = i64 (int ws)"

definition hybrid_ok :: "'m hybrid \<Rightarrow> bool" where
  "hybrid_ok h \<longleftrightarrow>
     counts_ok (hy_counts h) (open_sessions h) (all_messages h) (sum_list (map wt_counted (hy_wt h))) (sum_list (map ws_counted (hy_ws h))) \<and>
     list_all (\<lambda>x. list_all chan_ok (ws_channels x)) (hy_ws h) \<and> list_all wt_ok (hy_wt h)"

lemma i64_step: "i64 (i64 x + y) = i64 (x + y)" "i64 (y + i64 x) = i64 (y + x)" "i64 (i64 x - y) = i64 (x - y)"
proof -
  have "((x + 2 ^ 63) mod 2 ^ 64 + y) mod 2 ^ 64 = (x + 2 ^ 63 + y) mod (2 ^ 64 :: int)" by (rule mod_add_left_eq)
  then show "i64 (i64 x + y) = i64 (x + y)" by (simp add: i64_def ac_simps)
  then show "i64 (y + i64 x) = i64 (y + x)" by (simp add: add.commute)
  have "((x + 2 ^ 63) mod 2 ^ 64 - y) mod 2 ^ 64 = (x + 2 ^ 63 - y) mod (2 ^ 64 :: int)" by (rule mod_diff_left_eq)
  then show "i64 (i64 x - y) = i64 (x - y)" by (simp add: i64_def algebra_simps)
qed

lemma sum_update:
  fixes f :: "'x \<Rightarrow> nat"
  assumes "i < length xs"
  shows "\<exists>k. sum_list (map f xs) = k + f (xs ! i) \<and> (\<forall>x. sum_list (map f (xs[i := x])) = k + f x)"
proof -
  let ?k = "sum_list (map f (take i xs)) + sum_list (map f (drop (Suc i) xs))"
  have u: "sum_list (map f (xs[i := x])) = ?k + f x" for x using assms by (simp add: upd_conv_take_nth_drop)
  have "sum_list (map f xs) = ?k + f (xs ! i)" using u [of "xs ! i"] by simp
  with u show ?thesis by blast
qed

lemma list_all_update: "list_all P xs \<Longrightarrow> P x \<Longrightarrow> list_all P (xs[i := x])"
  by (auto simp: list_all_iff dest!: set_update_subset_insert [THEN subsetD])

text \<open>Counting one more message, one more session of either kind, one session less.\<close>

lemma counts_ok_steps:
  assumes "counts_ok m active msgs wt ws"
  shows "counts_ok (m\<lparr>TotalMessages := TotalMessages m + 1\<rparr>) active (Suc msgs) wt ws"
    and "counts_ok (m\<lparr>ActiveSessions := i64 (ActiveSessions m + 1), WebSocketCount := i64 (WebSocketCount m + 1)\<rparr>) (Suc active) msgs wt (Suc ws)"
    and "counts_ok (m\<lparr>ActiveSessions := i64 (ActiveSessions m + 1), WebTransportCount := i64 (WebTransportCount m + 1)\<rparr>) (Suc active) msgs (Suc wt) ws"
    and "active = Suc k \<Longrightarrow> counts_ok (m\<lparr>ActiveSessions := i64 (ActiveSessions m - 1)\<rparr>) k msgs wt ws"
  using assms by (simp_all add: counts_ok_def i64_step add.commute)

lemma chan_counted: "chan_ok c \<Longrightarrow> counted c + uncounted c = length (ch_read c)"
  by (auto simp: chan_ok.simps counted_def uncounted_def split: echo.split)

lemma echo_go_ok:
  assumes "echo_go (m, c) (m', c')" and "chan_ok c" and "counts_ok m active (k + counted c) wt ws"
  shows "chan_ok c' \<and> counts_ok m' active (k + counted c') wt ws"
  using assms(1)
proof cases
  case (echo_count msg)
  then have "counted c' = Suc (counted c)" using assms(2) by (simp add: chan_ok.simps counted_def uncounted_def)
  then show ?thesis using echo_count assms(2) counts_ok_steps(1) [OF assms(3)] by (auto simp: chan_ok.simps)
qed (use assms(2,3) in \<open>auto simp: chan_ok.simps counted_def uncounted_def\<close>)

lemma closed_ok: "chan_ok (c\<lparr>ch_closed := b\<rparr>) = chan_ok c" "counted (c\<lparr>ch_closed := b\<rparr>) = counted c"
  by (cases "ch_at c"; simp add: chan_ok.simps counted_def uncounted_def)+

lemma new_channel_ok: "chan_ok new_channel" "counted new_channel = 0"
  by (simp_all add: new_channel_def chan_ok.simps counted_def)

lemma ws_go_ok:
  assumes "ws_go (m, x) (m', x')" and "list_all chan_ok (ws_channels x)"
    and "counts_ok m (a + ws_open x) (k + messages (ws_channels x)) wt (u + ws_counted x)"
  shows "list_all chan_ok (ws_channels x') \<and>
    counts_ok m' (a + ws_open x') (k + messages (ws_channels x')) wt (u + ws_counted x')"
  using assms(1)
proof cases
  case ws_enter
  then show ?thesis using counts_ok_steps(2) [OF assms(3)] by (simp add: messages_def new_channel_ok)
next
  case (ws_echo c c')
  then show ?thesis using echo_go_ok [OF ws_echo(3), of "a + 1" k wt "u + 1"] assms(2,3) by (simp add: messages_def)
next
  case (ws_leave c)
  then show ?thesis using counts_ok_steps(4) [OF assms(3), of a] assms(2) by (simp add: messages_def)
qed (use assms in \<open>simp_all add: messages_def closed_ok\<close>)

lemmas wt_fields = wt_ok_def wt_opened_def wt_counted_def

lemma wt_go_ok:
  assumes "wt_go (m, s) (m', s')" and "wt_ok s" and "counts_ok m (a + wt_opened s) (k + messages (wt_streams s)) (u + wt_counted s) ws"
  shows "wt_ok s' \<and> counts_ok m' (a + wt_opened s') (k + messages (wt_streams s')) (u + wt_counted s') ws"
  using assms(1)
proof cases
  case wt_enter
  then show ?thesis using counts_ok_steps(3) [OF assms(3)] assms(2) by (simp add: wt_fields)
next
  case wt_accept
  then show ?thesis using assms(2,3) by (simp add: wt_fields messages_def new_channel_ok)
next
  case (wt_stream i c)
  obtain n where n: "messages (wt_streams s) = n + counted (wt_streams s ! i)"
      "messages ((wt_streams s)[i := c]) = n + counted c"
    using sum_update [OF wt_stream(2), of counted] unfolding messages_def by blast
  have "chan_ok (wt_streams s ! i)" using assms(2) wt_stream(2) by (simp add: wt_ok_def list_all_length)
  from echo_go_ok [OF wt_stream(3) this, of "a + wt_opened s" "k + n" "u + wt_counted s" ws]
  have "chan_ok c" "counts_ok m' (a + wt_opened s) (k + n + counted c) (u + wt_counted s) ws"
    using assms(3) n by (simp_all add: add.assoc)
  moreover have "wt_ok s'" using assms(2) calculation(1) wt_stream(1) by (simp add: wt_ok_def list_all_update)
  moreover have "wt_opened s' = wt_opened s" "wt_counted s' = wt_counted s" using wt_stream(1) by (simp_all add: wt_fields)
  moreover have "messages (wt_streams s') = n + counted c" using n(2) wt_stream(1) by simp
  ultimately show ?thesis by (simp only: add.assoc simp_thms)
next
  case (wt_stream_close i c)
  obtain n where n: "messages (wt_streams s) = n + counted (wt_streams s ! i)"
      "messages ((wt_streams s)[i := c\<lparr>ch_closed := True\<rparr>]) = n + counted (c\<lparr>ch_closed := True\<rparr>)"
    using sum_update [OF wt_stream_close(3), of counted] unfolding messages_def by blast
  have "messages (wt_streams s') = messages (wt_streams s)" using n wt_stream_close(2,4) closed_ok(2) [where c = c and b = True] by simp
  moreover have "list_all chan_ok ((wt_streams s)[i := c\<lparr>ch_closed := True\<rparr>])"
    using assms(2) wt_stream_close(3,4) by (intro list_all_update) (auto simp: wt_ok_def closed_ok list_all_length)
  then have "wt_ok s'" using assms(2) wt_stream_close(2) by (simp add: wt_ok_def)
  moreover have "wt_opened s' = wt_opened s" "wt_counted s' = wt_counted s" using wt_stream_close(2) by (simp_all add: wt_fields)
  ultimately show ?thesis using assms(3) wt_stream_close(1) by (simp only: simp_thms)
next
  case wt_leave
  then show ?thesis using counts_ok_steps(4) [OF assms(3), of a] assms(2) by (simp add: wt_fields)
next
  case (wt_send msg)
  then show ?thesis using assms(2,3) by (simp add: wt_fields)
qed (use assms in \<open>simp_all add: wt_fields\<close>)

lemma hybrid_ok_step:
  assumes "hybrid_ok h" and "hybrid_step h e h'"
  shows "hybrid_ok h'"
  using assms(2)
proof cases
  case (h_ws i m x)
  note u = sum_update [OF h_ws(3)]
  obtain a where a: "sum_list (map ws_open (hy_ws h)) = a + ws_open (hy_ws h ! i)"
      "sum_list (map ws_open ((hy_ws h)[i := x])) = a + ws_open x" using u by blast
  obtain k where k: "sum_list (map (messages \<circ> ws_channels) (hy_ws h)) = k + messages (ws_channels (hy_ws h ! i))"
      "sum_list (map (messages \<circ> ws_channels) ((hy_ws h)[i := x])) = k + messages (ws_channels x)"
    using u [of "messages \<circ> ws_channels"] by auto
  obtain n where n: "sum_list (map ws_counted (hy_ws h)) = n + ws_counted (hy_ws h ! i)"
      "sum_list (map ws_counted ((hy_ws h)[i := x])) = n + ws_counted x" using u by blast
  let ?a = "a + sum_list (map wt_opened (hy_wt h))" and ?k = "k + sum_list (map (messages \<circ> wt_streams) (hy_wt h))"
  have c: "counts_ok (hy_counts h) (?a + ws_open (hy_ws h ! i)) (?k + messages (ws_channels (hy_ws h ! i)))
      (sum_list (map wt_counted (hy_wt h))) (n + ws_counted (hy_ws h ! i))" and l: "list_all chan_ok (ws_channels (hy_ws h ! i))"
    using assms(1) a k n h_ws(3) by (simp_all add: hybrid_ok_def open_sessions_def all_messages_def ac_simps list_all_length)
  from ws_go_ok [OF h_ws(4) l c] assms(1) a k n h_ws(1,2) show ?thesis
    by (simp add: hybrid_ok_def open_sessions_def all_messages_def ac_simps list_all_update)
next
  case (h_wt i m x)
  note u = sum_update [OF h_wt(3)]
  obtain a where a: "sum_list (map wt_opened (hy_wt h)) = a + wt_opened (hy_wt h ! i)"
      "sum_list (map wt_opened ((hy_wt h)[i := x])) = a + wt_opened x" using u by blast
  obtain k where k: "sum_list (map (messages \<circ> wt_streams) (hy_wt h)) = k + messages (wt_streams (hy_wt h ! i))"
      "sum_list (map (messages \<circ> wt_streams) ((hy_wt h)[i := x])) = k + messages (wt_streams x)"
    using u [of "messages \<circ> wt_streams"] by auto
  obtain n where n: "sum_list (map wt_counted (hy_wt h)) = n + wt_counted (hy_wt h ! i)"
      "sum_list (map wt_counted ((hy_wt h)[i := x])) = n + wt_counted x" using u by blast
  let ?a = "sum_list (map ws_open (hy_ws h)) + a" and ?k = "sum_list (map (messages \<circ> ws_channels) (hy_ws h)) + k"
  have c: "counts_ok (hy_counts h) (?a + wt_opened (hy_wt h ! i)) (?k + messages (wt_streams (hy_wt h ! i)))
      (n + wt_counted (hy_wt h ! i)) (sum_list (map ws_counted (hy_ws h)))" and l: "wt_ok (hy_wt h ! i)"
    using assms(1) a k n h_wt(3) by (simp_all add: hybrid_ok_def open_sessions_def all_messages_def ac_simps list_all_length)
  from wt_go_ok [OF h_wt(4) l c] assms(1) a k n h_wt(1,2) show ?thesis
    by (simp add: hybrid_ok_def open_sessions_def all_messages_def ac_simps list_all_update)
qed (use assms(1) in \<open>simp_all add: hybrid_ok_def open_sessions_def all_messages_def messages_def wt_ok_def wt_opened_def wt_counted_def new_wt_def\<close>)

interpretation hybrid_server: invariant_system hybrid_step hybrid_ok
  by unfold_locales (rule hybrid_ok_step)

lemma NewHybridServer_ok: "NewHybridServer pair = Inr server \<Longrightarrow> hybrid_ok (hybrid_start server)"
  by (auto simp: NewHybridServer_def hybrid_start_def hybrid_ok_def counts_ok_def hybrid_zero_def open_sessions_def
      all_messages_def in_i64_def split: sum.split_asm)

text \<open>The messages read, and those of them that are not counted yet.\<close>

lemma messages_read:
  "list_all chan_ok cs \<Longrightarrow> messages cs + sum_list (map uncounted cs) = sum_list (map (\<lambda>c. length (ch_read c)) cs)"
  by (induction cs) (auto simp: messages_def dest: chan_counted)

lemma messages_append [simp]: "messages (cs @ ds) = messages cs + messages ds" "messages [] = 0"
  by (simp_all add: messages_def)

lemma messages_concat: "messages (concat (map f xs)) = sum_list (map (messages \<circ> f) xs)"
  by (induction xs) simp_all

lemma all_messages_eq: "all_messages h = messages (all_channels h)"
  by (simp add: all_messages_def all_channels_def messages_concat)

lemma all_channels_ok: "hybrid_ok h \<Longrightarrow> list_all chan_ok (all_channels h)"
  by (auto simp: hybrid_ok_def wt_ok_def all_channels_def list_all_iff)

text \<open>C26: The metrics of the hybrid server are exact, however its goroutines interleave.  The number of active sessions is
  that of the WebSocket and WebTransport handlers between their increment and their decrement of it; the two
  totals count the handlers whose upgrade succeeded and that have passed the increment.  The counter of messages,
  together with one for every loop that is between its \<^verbatim>\<open>Read\<close> and its increment, is the number of messages that
  all loops have read without an error (everything modulo the width of the counters).  Every loop has written
  back what it has read, in order and unchanged, except for at most the last message, and all of it when it
  waits in \<^verbatim>\<open>Read\<close>; data that \<^verbatim>\<open>Read\<close> returns together with an error is neither counted nor written back.  The
  datagrams sent back are a part of those received.\<close>

theorem hybrid_counters_exact:
  assumes "NewHybridServer pair = Inr server" and "run hybrid_step (hybrid_start server) ls h"
  shows "ActiveSessions (hy_counts h) = i64 (int (open_sessions h)) \<and>
    TotalMessages (hy_counts h) + of_nat (sum_list (map uncounted (all_channels h))) =
      of_nat (sum_list (map (\<lambda>c. length (ch_read c)) (all_channels h))) \<and>
    WebTransportCount (hy_counts h) = i64 (int (sum_list (map wt_counted (hy_wt h)))) \<and>
    WebSocketCount (hy_counts h) = i64 (int (sum_list (map ws_counted (hy_ws h)))) \<and>
    (\<forall>c \<in> set (all_channels h). \<exists>rest. ch_read c = ch_out c @ rest \<and> length rest \<le> 1 \<and>
       (ch_at c = E_read \<or> ch_lost c \<noteq> None \<longrightarrow> rest = [])) \<and>
    (\<forall>s \<in> set (hy_wt h). mset (wt_sent s) \<subseteq># mset (wt_received s))"
proof -
  have ok: "hybrid_ok h" by (rule hybrid_server.inv_run [OF assms(2) NewHybridServer_ok [OF assms(1)]])
  note ch = all_channels_ok [OF ok]
  have "\<exists>rest. ch_read c = ch_out c @ rest \<and> length rest \<le> 1 \<and> (ch_at c = E_read \<or> ch_lost c \<noteq> None \<longrightarrow> rest = [])"
    if "chan_ok c" for c :: "'a channel"
    using that by (auto simp: chan_ok.simps split: echo.split_asm)
  moreover have "TotalMessages (hy_counts h) = of_nat (messages (all_channels h))"
    using ok by (simp add: hybrid_ok_def counts_ok_def all_messages_eq)
  then have "TotalMessages (hy_counts h) + of_nat (sum_list (map uncounted (all_channels h))) =
      of_nat (sum_list (map (\<lambda>c. length (ch_read c)) (all_channels h)))"
    using messages_read [OF ch] by (metis of_nat_add)
  ultimately show ?thesis using ok ch by (auto simp: hybrid_ok_def counts_ok_def wt_ok_def list_all_iff)
qed

theorem hybrid_counters_exact_witness:
  "\<exists>server h. NewHybridServer (Inr []) = Inr server \<and>
     run hybrid_step (hybrid_start server :: string hybrid) [H_request WebSocket, H_ws 0, H_ws 0] h \<and> ActiveSessions (hy_counts h) = 1"
proof -
  obtain server where s: "NewHybridServer (Inr []) = Inr server" by (simp add: NewHybridServer_def)
  let ?h0 = "hybrid_start server :: string hybrid" and ?h1 = "\<lparr>hy_counts = hy_metrics server, hy_ws = [WS_start], hy_wt = []\<rparr> :: string hybrid"
    and ?h2 = "\<lparr>hy_counts = hy_metrics server, hy_ws = [WS_upgraded], hy_wt = []\<rparr> :: string hybrid"
  have "hybrid_mux ''/ws'' = WebSocket" by (simp add: hybrid_mux_def)
  then have 1: "hybrid_step ?h0 (H_request WebSocket) ?h1" using h_new_ws [of "''/ws''" ?h0] by (simp add: hybrid_start_def)
  have 2: "hybrid_step ?h1 (H_ws 0) ?h2" using h_ws [of 0 ?h1, OF _ ] ws_upgrade by fastforce
  have "ws_go (hy_counts ?h2, hy_ws ?h2 ! 0) ((hy_metrics server)\<lparr>ActiveSessions := i64 (ActiveSessions (hy_metrics server) + 1),
      WebSocketCount := i64 (WebSocketCount (hy_metrics server) + 1)\<rparr>, WS_open new_channel)"
    using ws_enter by simp
  from h_ws [OF _ this] obtain h where 3: "hybrid_step ?h2 (H_ws 0) h" and h: "hy_ws h = [WS_open new_channel]" "hy_wt h = []" by auto
  note r = run_Cons [where step = hybrid_step, OF 1 run_Cons [where step = hybrid_step, OF 2 run_one [where step = hybrid_step, OF 3]]]
  have a: "ActiveSessions (hy_counts h) = 1"
    using hybrid_counters_exact [OF s r] by (simp add: h open_sessions_def in_i64_def)
  show ?thesis by (rule exI, rule exI, rule conjI [OF s conjI [OF r a]])
qed

end
