(* ===== verification/Spec2Isabelle.thy ===== *)
theory Spec2Isabelle
  imports
    WB_Protocol
    WB_State
    WB_LoadBalancer
    WB_RateLimit
    WB_Auth
    WB_FlowControl
    WB_MultiPath
    WB_Crypto
    WB_Compression
    WB_Pool
    WB_Config
    WB_Server
    WB_Connections
    WB_Goroutines
    WB_Lifecycle
    WB_Shutdown
    WB_Isolation
    WB_CommandLine
    WB_Main
    WB_Batch
    WB_Metrics
    WB_Logging
    WB_Security
    WB_Hybrid
begin

text \<open>
  \<^bold>\<open>WebBou: a verification of the Go server.\<close>

  WebBou is a transport for messages: frames with a 16-byte header and a CRC-32 checksum travel over
  TLS/TCP connections or QUIC streams and datagrams, and a server in Go answers them.  The sources are
  under \<^verbatim>\<open>src/server/webbou/\<close> (the server library), \<^verbatim>\<open>src/server/main_webbou.go\<close> (its process),
  \<^verbatim>\<open>src/server/security.go\<close> (the manager of the stand-alone server) and \<^verbatim>\<open>src/experimental/main.go\<close> (an echo server over WebTransport and WebSocket).

  \<^bold>\<open>How the parts interact.\<close>  A connection handler of \<^verbatim>\<open>server.go\<close> asks the connection limiter and
  registers a session; its loop feeds what it reads to a \<^verbatim>\<open>FrameReader\<close> (\<^verbatim>\<open>protocol.go\<close>), asks the rate
  limiter (\<^verbatim>\<open>ratelimit.go\<close>) for each frame, and passes the frame to \<^verbatim>\<open>handleFrame\<close>, which decrypts
  (\<^verbatim>\<open>crypto.go\<close>), decompresses (\<^verbatim>\<open>compression.go\<close>) and answers; deferred calls undo the registration.  Two
  accept loops start a goroutine per connection, counted by a wait group for which \<^verbatim>\<open>Shutdown\<close> waits, and
  \<^verbatim>\<open>main\<close> starts the server, waits for a signal and calls \<^verbatim>\<open>Shutdown\<close>.  The other files are components that the server constructs or a program can use beside it: state machines,
  health checks and circuit breaker (\<^verbatim>\<open>state.go\<close>), load balancers (\<^verbatim>\<open>loadbalancer.go\<close>), sessions, tokens,
  0-RTT keys, flow control and paths (\<^verbatim>\<open>auth.go\<close>), pools and the DDoS protector (\<^verbatim>\<open>pool.go\<close>),
  configuration, batching, metrics and logging.

  \<^bold>\<open>The theories.\<close>
  \<^item> \<open>WB_Prelude\<close>: what the sources use of Go and of its standard library: integers at their width, results
    with errors, panics and self-blocking calls (type \<open>go\<close>), mutexes as one goroutine sees them, time with
    saturating subtraction, maps with an arbitrary order of iteration.
  \<^item> \<open>WB_Interfaces\<close>: the interfaces as locales: checksums as folds, parsers that consume a growing buffer,
    systems with an invariant over labelled steps, stores whose entries expire.  Further interfaces stand
    with their only clients: \<open>load_balancer\<close> (\<open>WB_LoadBalancer\<close>), \<open>token_bucket\<close> (\<open>WB_RateLimit\<close>),
    \<open>credit_window\<close> (\<open>WB_FlowControl\<close>).  Each is interpreted on the definitions of the code.
  \<^item> \<open>WB_Crc32\<close>, \<open>WB_Encoding\<close>, \<open>WB_Float64\<close>: \<^verbatim>\<open>hash/crc32\<close> (with detection of bursts of 32 bits),
    \<^verbatim>\<open>encoding/binary\<close>, \<^verbatim>\<open>crypto/sha256\<close>, \<^verbatim>\<open>base64.URLEncoding\<close>, and the arithmetic of \<^verbatim>\<open>float64\<close> as rationals
    with rounding to nearest even.  \<open>WB_Format\<close>: numbers as \<^verbatim>\<open>fmt\<close> prints them, and how exactly they are read back.
  \<^item> \<open>WB_Protocol\<close> (\<^verbatim>\<open>protocol.go\<close>): frames, checksum, \<^verbatim>\<open>Marshal\<close>, \<^verbatim>\<open>UnmarshalFrame\<close>, \<^verbatim>\<open>FrameReader\<close>.  Round
    trips in both directions, detection of corruption, independence of the chunks, bounded memory, no panic.
  \<^item> \<open>WB_Server\<close>, \<open>WB_Connections\<close> (\<^verbatim>\<open>server.go\<close>): the record \<open>Server\<close> has the fields of the structure; one
    definition per method.  The loops of the handlers are recursive functions whose measure is the length of
    the reader's buffer; a connection by itself is the run in which its reads and writes return.  End-to-end
    behaviour of a connection, what it leaves in the server (and that its socket is left open), the bound on what
    a flood gets, exact statistics, answers to encrypted data, lost answers to datagrams.
  \<^item> \<open>WB_Goroutines\<close> (\<^verbatim>\<open>server.go\<close>): the accept loops, every connection handler with its deferred calls, the
    streams of QUIC connections and a call of \<^verbatim>\<open>Shutdown\<close> as goroutines over one \<open>Server\<close>: program points with
    their local variables, and one rule per stretch of code between two accesses to shared state or to the
    network.  The label of a step tells the goroutine's own code (\<open>Step\<close>) from what the network does: a read
    that returns data (\<open>Got\<close>) or ends (\<open>Hup\<close>), a write that returns (\<open>Wrote\<close>), which it need not do.
    \<open>WB_Lifecycle\<close>: in every interleaving the wait group, the limiter and the registry agree with the goroutines
    that are alive, none panics, and each that does not wait for the network can go on.  \<open>WB_Shutdown\<close>: bounded work
    after a shutdown, its end and the write that prevents it, the read deadline, the shutdown that is lost, the
    crash without certificates.  \<open>WB_Isolation\<close>: a connection among
    others writes exactly what \<^verbatim>\<open>handleTCPConnection\<close> of \<open>WB_Server\<close> writes by itself.
  \<^item> \<open>WB_CommandLine\<close>, \<open>WB_Main\<close> (\<^verbatim>\<open>main_webbou.go\<close>): the flags with what they use of \<^verbatim>\<open>flag\<close> and \<^verbatim>\<open>strconv\<close>, and the
    process over the goroutines of the server: what its exit status means.
  \<^item> \<open>WB_RateLimit\<close> (\<^verbatim>\<open>ratelimit.go\<close>): token buckets in \<^verbatim>\<open>float64\<close> and the connection limiter.  Levels stay in
    their bounds (the global one as long as no negative amount is asked for), bursts get exactly the whole tokens, addresses do not influence each other, an idle
    address recovers, the clean-up cannot be observed; the connection limiter refines a multiset.
  \<^item> \<open>WB_State\<close> (\<^verbatim>\<open>state.go\<close>): the connection state machine and its history, the server state machine, the
    health server, the circuit breaker with its mutex.
  \<^item> \<open>WB_LoadBalancer\<close> (\<^verbatim>\<open>loadbalancer.go\<close>): balancers over a store of backends; fairness, the registry, backend
    health, discovery.
  \<^item> \<open>WB_Auth\<close>, \<open>WB_FlowControl\<close>, \<open>WB_MultiPath\<close> (\<^verbatim>\<open>auth.go\<close>): sessions, tokens and pre-shared keys; windows
    that conserve credit; the path registry.
  \<^item> \<open>WB_Crypto\<close>, \<open>WB_Compression\<close> (\<^verbatim>\<open>crypto.go\<close>, \<^verbatim>\<open>compression.go\<close>): round trips under the documented laws of the
    cipher and of the codecs, which are parameters; certificate pinning.
  \<^item> \<open>WB_Pool\<close> (\<^verbatim>\<open>pool.go\<close>): pools, spin lock, back pressure, DDoS protector, reputations.
  \<^item> \<open>WB_Config\<close>, \<open>WB_Batch\<close>, \<open>WB_Metrics\<close>, \<open>WB_Logging\<close> (\<^verbatim>\<open>config.go\<close>, \<^verbatim>\<open>batch.go\<close>, \<^verbatim>\<open>metrics.go\<close>, \<^verbatim>\<open>logging.go\<close>):
    loading and reloading, conservation of batched frames under interleaving; histograms, counters, and the page
    that a strict reader of the Prometheus text format reads back; log entries, their fields, and the lines that are written.
  \<^item> \<open>WB_Security\<close> (\<^verbatim>\<open>security.go\<close>): tokens and the fixed-window limiter.  \<open>WB_Hybrid\<close> (\<^verbatim>\<open>experimental/main.go\<close>): the
    goroutines of all sessions over the shared counters, which agree with what was read up to the loops between a
    read and its count.

  \<^bold>\<open>Conventions.\<close>  Readings of the clock, random bytes, results of files and the order of a map iteration are
  arguments of the definition that uses them, one per call in the order of the calls; theorems hold for all
  values unless a hypothesis says otherwise (for instance that the clock does not go back).  A method that
  runs under a mutex is one step; where a method takes a lock that it may already hold (circuit breaker, DDoS
  protector) the mutex is part of the state, a callback that runs under a mutex says whether it asks for it
  again (configuration manager), and where it works outside its lock (batcher) its parts are
  separate steps.  Concurrency of sequences of operations is a relation of labelled steps (\<open>run\<close>).

  \<^bold>\<open>Bounds.\<close>  No definition has fuel: every loop is a total function.  Bounds in theorems come from the width
  of integers: payloads below \<open>2\<^sup>3\<^sup>2 - 16\<close> bytes (the length field wraps around beyond it), bucket capacities
  below \<open>2\<^sup>5\<^sup>3\<close> (counting down by one is exact), fewer than \<open>2\<^sup>3\<^sup>2 - 1\<close> paths, fewer than \<open>2\<^sup>6\<^sup>3 - 1\<close> reloads.

  \<^bold>\<open>Not modelled.\<close>  Sockets, TLS and QUIC are what their calls may return, and when; the TLS handshake is a part of the
  first read.  Calls of \<^verbatim>\<open>Close\<close> on a connection or stream are recorded, without their effect on the peer.  In the concurrent model \<^verbatim>\<open>handleFrame\<close> of one frame is one
  step, and the calls of \<^verbatim>\<open>Shutdown\<close> are one.  Signals other than those \<^verbatim>\<open>main\<close> waits for, HTTP servers beyond their routes
  and pages, values other than strings in the JSON of a log entry, tickers (a tick is an operation), and data
  races of the Go memory model.  \<^verbatim>\<open>float64\<close> has no infinities and no NaN, which no value here comes near.
\<close>

end
